(* ===== verification/Prelude.thy ===== *)
theory Prelude
  imports "HOL-Library.Word" "HOL-Library.AList"
begin

text \<open>
  What every component of the development shares: the machine types of the Go sources,
  fixed-size byte arrays (\<open>[16]byte\<close> for peer identifiers, \<open>[32]byte\<close> for UDP tokens),
  Go maps as association lists with distinct keys, and the reachability argument for
  state machines.
\<close>

unbundle bit_operations_syntax

section \<open>Machine types and fact collections\<close>

type_synonym byte = "8 word"
type_synonym u16 = "16 word"
type_synonym u64 = "64 word"

text \<open>Instants and durations are nanoseconds, as \<open>time.Duration\<close> counts them.\<close>

type_synonym time = int
type_synonym duration = int

abbreviation Second :: duration where
  "Second \<equiv> 1000000000"

abbreviation Minute :: duration where
  "Minute \<equiv> 60000000000"

text \<open>Rewrite rules for Go maps, and for the layout of wire frames.\<close>

named_theorems go_map
named_theorems wire

section \<open>Fixed-size byte arrays\<close>

text \<open>
  A Go array \<open>[n]byte\<close> is a value of exactly \<open>n\<close> bytes.  \<open>of_bytes\<close> is
  \<open>var a [n]byte; copy(a[:], src)\<close>: at most \<open>n\<close> bytes are copied and the rest stay zero.
\<close>

typedef (overloaded) 'n barr = "{bs :: byte list. length bs = LENGTH('n::len)}"
  morphisms bytes_of Abs_barr
  by (rule exI [where x = "replicate LENGTH('n) 0"]) simp

definition of_bytes :: "byte list \<Rightarrow> 'n::len barr" where
  "of_bytes bs = Abs_barr (take LENGTH('n) (bs @ replicate LENGTH('n) 0))"

lemma bytes_of_rep [code abstract]:
  "bytes_of (of_bytes bs :: 'n::len barr) = take LENGTH('n) (bs @ replicate LENGTH('n) 0)"
  unfolding of_bytes_def by (subst Abs_barr_inverse) simp_all

lemma Abs_barr_bytes_of [code abstype]: "Abs_barr (bytes_of a) = a"
  by (rule bytes_of_inverse)

type_synonym uuid = "16 barr"
type_synonym token = "32 barr"

instantiation barr :: (len) equal
begin

definition equal_barr :: "'a barr \<Rightarrow> 'a barr \<Rightarrow> bool" where
  "equal_barr a b \<longleftrightarrow> bytes_of a = bytes_of b"

instance
  by standard (simp add: equal_barr_def bytes_of_inject)

end

lemma length_bytes_of [simp]: "length (bytes_of (a :: 'n::len barr)) = LENGTH('n)"
  using bytes_of [of a] by simp

lemma of_bytes_bytes_of [simp]: "of_bytes (bytes_of a) = a"
  by (simp add: bytes_of_inject [symmetric] bytes_of_rep)

lemma bytes_of_of_bytes: "length bs = LENGTH('n::len) \<Longrightarrow> bytes_of (of_bytes bs :: 'n barr) = bs"
  by (simp add: bytes_of_rep)

lemma of_bytes_eq_iff:
  "length bs = LENGTH('n::len) \<Longrightarrow> length cs = LENGTH('n) \<Longrightarrow>
    (of_bytes bs :: 'n barr) = of_bytes cs \<longleftrightarrow> bs = cs"
  by (metis bytes_of_of_bytes)

text \<open>Short names for the identifiers and tokens that concrete runs use.\<close>

lemma of_bytes_single_eq [simp]:
  "(of_bytes [x] :: 'n::len barr) = of_bytes [y] \<longleftrightarrow> x = y"
proof
  assume "(of_bytes [x] :: 'n barr) = of_bytes [y]"
  then have "bytes_of (of_bytes [x] :: 'n barr) = bytes_of (of_bytes [y] :: 'n barr)"
    by simp
  then show "x = y"
    by (cases "LENGTH('n)") (simp_all add: bytes_of_rep)
qed simp

section \<open>Go maps\<close>

text \<open>
  A Go map is an association list with distinct keys: \<open>map_of m k\<close> is the comma-ok lookup,
  \<open>AList.update k v m\<close> is \<open>m[k] = v\<close>, \<open>AList.delete k m\<close> is \<open>delete(m, k)\<close> and
  \<open>length m\<close> is \<open>len(m)\<close>.  Go leaves the iteration order open, so a result of an iteration
  is only ever stated up to a set or a multiset.
\<close>

abbreviation wf_map :: "('k \<times> 'v) list \<Rightarrow> bool" where
  "wf_map m \<equiv> distinct (map fst m)"

text \<open>Lookups stay lookups: the simplifier does not turn them into membership.\<close>

declare map_of_eq_Some_iff [simp del]
declare Some_eq_map_of_iff [simp del]

lemma map_of_update [go_map]: "map_of (AList.update k v m) = (map_of m)(k \<mapsto> v)"
  by (rule AList.update_conv')

lemma map_of_del [go_map]: "map_of (AList.delete k m) = (map_of m)(k := None)"
  by (rule AList.delete_conv')

lemma wf_update [go_map, intro]: "wf_map m \<Longrightarrow> wf_map (AList.update k v m)"
  by (rule AList.distinct_update)

lemma wf_delete [go_map, intro]: "wf_map m \<Longrightarrow> wf_map (AList.delete k m)"
  by (rule AList.distinct_delete)

lemma length_update [go_map]:
  "length (AList.update k v m) = (if map_of m k = None then Suc (length m) else length m)"
  by (induction m) (auto split: if_splits)

lemma length_delete [go_map]:
  "wf_map m \<Longrightarrow> length (AList.delete k m) = (if map_of m k = None then length m else length m - 1)"
proof (induction m)
  case (Cons a m)
  then show ?case
    by (cases a; cases m) (auto simp: map_of_eq_None_iff image_iff split: if_splits)
qed simp

lemma wf_filter [go_map, intro]: "wf_map m \<Longrightarrow> wf_map (filter P m)"
  by (rule distinct_map_filter)

lemma map_of_filter_snd [go_map]:
  "wf_map m \<Longrightarrow> map_of (filter (\<lambda>kv. P (snd kv)) m) k =
    (case map_of m k of None \<Rightarrow> None | Some v \<Rightarrow> if P v then Some v else None)"
proof (induction m)
  case (Cons a m)
  then show ?case
    by (cases a) (auto simp: map_of_eq_None_iff image_iff split: option.splits dest: map_of_SomeD)
qed simp

lemma map_of_set_iff: "wf_map m \<Longrightarrow> map_of m k = Some v \<longleftrightarrow> (k, v) \<in> set m"
  by (auto dest: map_of_SomeD)

lemma set_update:
  assumes "wf_map m"
  shows "set (AList.update k v m) = insert (k, v) {kv \<in> set m. fst kv \<noteq> k}"
proof (rule set_eqI)
  fix x
  have "x \<in> set (AList.update k v m) \<longleftrightarrow> map_of (AList.update k v m) (fst x) = Some (snd x)"
    using map_of_set_iff [OF wf_update [OF assms], of k v "fst x" "snd x"] by simp
  also have "\<dots> \<longleftrightarrow> x \<in> insert (k, v) {kv \<in> set m. fst kv \<noteq> k}"
    using map_of_set_iff [OF assms, of "fst x" "snd x"] by (cases x) (auto simp: go_map)
  finally show "x \<in> set (AList.update k v m) \<longleftrightarrow> x \<in> insert (k, v) {kv \<in> set m. fst kv \<noteq> k}" .
qed

lemma set_delete: "set (AList.delete k m) = {kv \<in> set m. fst kv \<noteq> k}"
  by (induction m) auto

lemma map_of_Some_nonempty: "map_of m k = Some v \<Longrightarrow> m \<noteq> []"
  by auto

section \<open>Decimal and hexadecimal digits\<close>

text \<open>\<open>strconv\<close> and the formatting verbs \<open>%d\<close> and \<open>%x\<close>, for base 10 and base 16.\<close>

definition digit_char :: "nat \<Rightarrow> char" where
  "digit_char d = char_of (if d < 10 then 48 + d else 87 + d)"

function digits_in :: "nat \<Rightarrow> nat \<Rightarrow> string" where
  "digits_in base n =
     (if base < 2 \<or> n < base then [digit_char n] else digits_in base (n div base) @ [digit_char (n mod base)])"
  by pat_completeness auto
termination
  by (relation "measure snd") auto

declare digits_in.simps [simp del]

abbreviation digits_of :: "nat \<Rightarrow> string" where
  "digits_of \<equiv> digits_in 10"

abbreviation hex_of :: "nat \<Rightarrow> string" where
  "hex_of \<equiv> digits_in 16"

definition show_int :: "int \<Rightarrow> string" where
  "show_int i = (if i < 0 then ''-'' @ digits_of (nat (- i)) else digits_of (nat i))"

section \<open>Invariants of state machines\<close>

text \<open>
  A component whose operations may come in any order is a step relation; an invariant that
  every step keeps holds in every state reached from one where it holds.
\<close>

locale machine =
  fixes step :: "'s \<Rightarrow> 's \<Rightarrow> bool"
    and inv :: "'s \<Rightarrow> bool"
  assumes step_keeps: "step s t \<Longrightarrow> inv s \<Longrightarrow> inv t"
begin

lemma run_keeps: "step\<^sup>*\<^sup>* s t \<Longrightarrow> inv s \<Longrightarrow> inv t"
  by (induction rule: rtranclp_induct) (auto intro: step_keeps)

lemma run_keeps_from: "inv s \<Longrightarrow> step\<^sup>*\<^sup>* s t \<Longrightarrow> step t u \<Longrightarrow> inv u"
  using run_keeps step_keeps by blast

end

end
