(* ===== verification/Strs.thy ===== *)
theory Strs
  imports Prelude
begin

text \<open>
  What the sources use of Go's packages \<open>strings\<close>, \<open>strconv\<close> and \<open>unicode/utf8\<close>, and
  \<open>net.SplitHostPort\<close>.  A Go string is a list of bytes, so a \<open>char\<close> here is one byte.
\<close>

abbreviation code :: "char \<Rightarrow> nat" where
  "code c \<equiv> of_char c"

section \<open>Prefixes, cutting and splitting\<close>

definition HasPrefix :: "string \<Rightarrow> string \<Rightarrow> bool" where
  "HasPrefix s p \<longleftrightarrow> take (length p) s = p"

text \<open>\<open>strings.IndexByte\<close> and \<open>LastIndexByte\<close>, with \<open>-1\<close> as \<open>None\<close>.\<close>

definition IndexByte :: "string \<Rightarrow> char \<Rightarrow> nat option" where
  "IndexByte s c = (let n = length (takeWhile (\<lambda>x. x \<noteq> c) s) in if n = length s then None else Some n)"

definition LastIndexByte :: "string \<Rightarrow> char \<Rightarrow> nat option" where
  "LastIndexByte s c = map_option (\<lambda>n. length s - 1 - n) (IndexByte (rev s) c)"

definition Cut :: "string \<Rightarrow> char \<Rightarrow> (string \<times> string) option" where
  "Cut s c = map_option (\<lambda>n. (take n s, drop (Suc n) s)) (IndexByte s c)"

fun Split :: "char \<Rightarrow> string \<Rightarrow> string list" where
  "Split sep [] = [[]]"
| "Split sep (c # s) =
     (if c = sep then [] # Split sep s
      else case Split sep s of [] \<Rightarrow> [[c]] | p # ps \<Rightarrow> (c # p) # ps)"

fun Join :: "string list \<Rightarrow> string \<Rightarrow> string" where
  "Join [] sep = []"
| "Join [x] sep = x"
| "Join (x # xs) sep = x @ sep @ Join xs sep"

lemma IndexByte_Some:
  "IndexByte s c = Some n \<Longrightarrow> n < length s \<and> s ! n = c \<and> c \<notin> set (take n s)"
proof -
  assume a: "IndexByte s c = Some n"
  then have n: "n = length (takeWhile (\<lambda>x. x \<noteq> c) s)" and lt: "n \<noteq> length s"
    by (auto simp: IndexByte_def Let_def split: if_splits)
  from n have "n \<le> length s"
    by (simp add: length_takeWhile_le)
  with lt have lt: "n < length s"
    by simp
  moreover from n lt have "s ! n = c"
    using nth_length_takeWhile [of "\<lambda>x. x \<noteq> c" s] by simp
  moreover have "take n s = takeWhile (\<lambda>x. x \<noteq> c) s"
    by (simp add: n takeWhile_eq_take [symmetric])
  ultimately show ?thesis
    by (auto dest: set_takeWhileD)
qed

lemma IndexByte_None: "IndexByte s c = None \<longleftrightarrow> c \<notin> set s"
  by (induction s) (auto simp: IndexByte_def Let_def split: if_splits)

lemma Split_nonempty [simp]: "Split sep s \<noteq> []"
  by (cases s) (auto split: list.splits)

lemma Split_parts: "p \<in> set (Split sep s) \<Longrightarrow> sep \<notin> set p"
  by (induction s arbitrary: p) (auto split: if_splits list.splits)

lemma Split_none: "sep \<notin> set s \<Longrightarrow> Split sep s = [s]"
  by (induction s) auto

lemma Split_append_sep: "Split sep (s @ sep # t) = Split sep s @ Split sep t"
  by (induction s) (auto split: list.splits)

lemma Join_Cons: "xs \<noteq> [] \<Longrightarrow> Join (x # xs) sep = x @ sep @ Join xs sep"
  by (cases xs) auto

lemma Join_Split: "Join (Split sep s) [sep] = s"
proof (induction s)
  case (Cons c s)
  then show ?case
    by (cases "Split sep s"; cases "tl (Split sep s)") (auto simp: Join_Cons)
qed simp

lemma Join_append: "xs \<noteq> [] \<Longrightarrow> ys \<noteq> [] \<Longrightarrow> Join (xs @ ys) sep = Join xs sep @ sep @ Join ys sep"
proof (induction xs)
  case (Cons x xs)
  then show ?case
    by (cases xs) (simp_all add: Join_Cons)
qed simp

section \<open>Trimming\<close>

text \<open>The UTF-8 encodings of the runes \<open>unicode.IsSpace\<close> accepts.\<close>

definition spaces :: "string list" where
  "spaces = map (map char_of)
     ([[9], [10], [11], [12], [13], [32], [0xC2, 0x85], [0xC2, 0xA0], [0xE1, 0x9A, 0x80]] @
      map (\<lambda>b. [0xE2, 0x80, b]) [0x80..<0x8B] @
      [[0xE2, 0x80, 0xA8], [0xE2, 0x80, 0xA9], [0xE2, 0x80, 0xAF], [0xE2, 0x81, 0x9F],
       [0xE3, 0x80, 0x80 :: nat]])"

function trim_left :: "string list \<Rightarrow> string \<Rightarrow> string" where
  "trim_left es s =
     (case find (\<lambda>e. e \<noteq> [] \<and> HasPrefix s e) es of
        None \<Rightarrow> s
      | Some e \<Rightarrow> trim_left es (drop (length e) s))"
  by pat_completeness auto
termination
proof (relation "measure (\<lambda>(es, s). length s)")
  fix es :: "string list" and s :: string and e :: string
  assume "find (\<lambda>e. e \<noteq> [] \<and> HasPrefix s e) es = Some e"
  then have "e \<noteq> []" "take (length e) s = e"
    by (auto simp: find_Some_iff HasPrefix_def)
  then show "((es, drop (length e) s), es, s) \<in> measure (\<lambda>(es, s). length s)"
    by (cases s) auto
qed simp

declare trim_left.simps [simp del]

definition trim_right :: "string list \<Rightarrow> string \<Rightarrow> string" where
  "trim_right es s = rev (trim_left (map rev es) (rev s))"

definition TrimSpace :: "string \<Rightarrow> string" where
  "TrimSpace s = trim_right spaces (trim_left spaces s)"

text \<open>\<open>strings.Trim(s, cutset)\<close> for an ASCII cutset.\<close>

definition Trim :: "string \<Rightarrow> string \<Rightarrow> string" where
  "Trim s cutset = rev (dropWhile (\<lambda>c. c \<in> set cutset) (rev (dropWhile (\<lambda>c. c \<in> set cutset) s)))"

text \<open>\<open>tidy es s\<close>: no entry of \<open>es\<close> begins \<open>s\<close>.\<close>

definition tidy :: "string list \<Rightarrow> string \<Rightarrow> bool" where
  "tidy es s \<longleftrightarrow> (\<forall>e \<in> set es. e \<noteq> [] \<longrightarrow> \<not> HasPrefix s e)"

lemma trim_left_tidy: "tidy es (trim_left es s)"
proof (induction es s rule: trim_left.induct)
  case (1 es s)
  then show ?case
    by (subst trim_left.simps) (auto simp: find_None_iff tidy_def split: option.splits)
qed

lemma tidy_trim: "tidy es s \<Longrightarrow> trim_left es s = s"
proof -
  assume "tidy es s"
  then have "find (\<lambda>e. e \<noteq> [] \<and> HasPrefix s e) es = None"
    by (auto simp: find_None_iff tidy_def)
  then show ?thesis
    by (subst trim_left.simps) simp
qed

lemma trim_left_suffix: "\<exists>p. s = p @ trim_left es s"
proof (induction es s rule: trim_left.induct)
  case (1 es s)
  show ?case
  proof (cases "find (\<lambda>e. e \<noteq> [] \<and> HasPrefix s e) es")
    case None
    then show ?thesis
      by (subst trim_left.simps) simp
  next
    case (Some e)
    from 1 [OF Some] obtain p where "drop (length e) s = p @ trim_left es (drop (length e) s)"
      by blast
    moreover have "s = take (length e) s @ drop (length e) s"
      by simp
    ultimately have "s = (take (length e) s @ p) @ trim_left es (drop (length e) s)"
      by simp
    moreover have "trim_left es s = trim_left es (drop (length e) s)"
      using Some by (subst trim_left.simps) simp
    ultimately show ?thesis
      by metis
  qed
qed

lemma trim_right_prefix: "\<exists>p. s = trim_right es s @ p"
  using trim_left_suffix [of "rev s" "map rev es"] by (auto simp: trim_right_def) (metis rev_append rev_rev_ident)

lemma tidy_prefix: "tidy es (s @ t) \<Longrightarrow> tidy es s"
  unfolding tidy_def HasPrefix_def
proof (intro ballI impI notI)
  fix e
  assume t: "\<forall>e\<in>set es. e \<noteq> [] \<longrightarrow> take (length e) (s @ t) \<noteq> e" and e: "e \<in> set es" "e \<noteq> []"
    and p: "take (length e) s = e"
  then have "length e \<le> length s"
    by (metis length_take min.cobounded1)
  with p have "take (length e) (s @ t) = e"
    by simp
  with t e show False
    by blast
qed

lemma TrimSpace_parts: "\<exists>p q. s = p @ TrimSpace s @ q"
  using trim_left_suffix [of s spaces] trim_right_prefix [of "trim_left spaces s" spaces]
  unfolding TrimSpace_def by (metis append_assoc)

lemma TrimSpace_tidy: "tidy spaces (TrimSpace s)" "tidy (map rev spaces) (rev (TrimSpace s))"
proof -
  obtain q where "trim_left spaces s = TrimSpace s @ q"
    using trim_right_prefix [of "trim_left spaces s" spaces] unfolding TrimSpace_def by blast
  then show "tidy spaces (TrimSpace s)"
    using trim_left_tidy [of spaces s] tidy_prefix by metis
  show "tidy (map rev spaces) (rev (TrimSpace s))"
    using trim_left_tidy [of "map rev spaces"] by (simp add: TrimSpace_def trim_right_def)
qed

lemma TrimSpace_TrimSpace [simp]: "TrimSpace (TrimSpace s) = TrimSpace s"
  using TrimSpace_tidy [of s] by (simp add: TrimSpace_def [of "TrimSpace s"] trim_right_def tidy_trim)

lemma set_TrimSpace: "set (TrimSpace s) \<subseteq> set s"
  using TrimSpace_parts [of s] by (metis Un_upper1 Un_upper2 le_supI1 le_supI2 set_append)

lemma length_TrimSpace: "length (TrimSpace s) \<le> length s"
  using TrimSpace_parts [of s] by (metis add_leE le_add1 le_add2 length_append order_trans)

section \<open>Case folding\<close>

definition lower_byte :: "char \<Rightarrow> char" where
  "lower_byte c = (if 65 \<le> code c \<and> code c \<le> 90 then char_of (code c + 32) else c)"

text \<open>
  \<open>strings.EqualFold(s, t)\<close> for an ASCII \<open>t\<close>.  Two runes outside ASCII fold to ASCII letters:
  the Kelvin sign to k and the long s to s.
\<close>

definition kelvin :: string where
  "kelvin = map char_of [0xE2, 0x84, 0xAA :: nat]"

definition long_s :: string where
  "long_s = map char_of [0xC5, 0xBF :: nat]"

fun EqualFold :: "string \<Rightarrow> string \<Rightarrow> bool" where
  "EqualFold s [] = (s = [])"
| "EqualFold s (t # ts) =
     ((s \<noteq> [] \<and> lower_byte (hd s) = lower_byte t \<and> EqualFold (tl s) ts) \<or>
      (lower_byte t = CHR ''k'' \<and> HasPrefix s kelvin \<and> EqualFold (drop 3 s) ts) \<or>
      (lower_byte t = CHR ''s'' \<and> HasPrefix s long_s \<and> EqualFold (drop 2 s) ts))"

section \<open>UTF-8\<close>

text \<open>The runes of a string, when it is valid UTF-8 (\<open>utf8.ValidString\<close>).\<close>

abbreviation cont :: "char \<Rightarrow> bool" where
  "cont c \<equiv> 0x80 \<le> code c \<and> code c < 0xC0"

fun runes :: "string \<Rightarrow> nat list option" where
  "runes [] = Some []"
| "runes (a # s) =
     (if code a < 0x80 then map_option ((#) (code a)) (runes s)
      else case s of [] \<Rightarrow> None | b # s \<Rightarrow>
        if 0xC2 \<le> code a \<and> code a < 0xE0 then
          if cont b then map_option ((#) (64 * (code a - 0xC0) + (code b - 0x80))) (runes s) else None
        else case s of [] \<Rightarrow> None | c # s \<Rightarrow>
          if 0xE0 \<le> code a \<and> code a < 0xF0 then
            if cont b \<and> cont c \<and> (code a = 0xE0 \<longrightarrow> 0xA0 \<le> code b) \<and> (code a = 0xED \<longrightarrow> code b < 0xA0)
            then map_option ((#) (4096 * (code a - 0xE0) + 64 * (code b - 0x80) + (code c - 0x80))) (runes s)
            else None
          else case s of [] \<Rightarrow> None | d # s \<Rightarrow>
            if 0xF0 \<le> code a \<and> code a < 0xF5 \<and> cont b \<and> cont c \<and> cont d \<and>
               (code a = 0xF0 \<longrightarrow> 0x90 \<le> code b) \<and> (code a = 0xF4 \<longrightarrow> code b < 0x90)
            then map_option ((#) (262144 * (code a - 0xF0) + 4096 * (code b - 0x80) +
                                  64 * (code c - 0x80) + (code d - 0x80))) (runes s)
            else None)"

definition ValidUTF8 :: "string \<Rightarrow> bool" where
  "ValidUTF8 s \<longleftrightarrow> runes s \<noteq> None"

text \<open>\<open>unicode.IsControl\<close>: the category Cc.\<close>

definition IsControl :: "nat \<Rightarrow> bool" where
  "IsControl r \<longleftrightarrow> r < 0x20 \<or> 0x7F \<le> r \<and> r < 0xA0"

section \<open>Numbers\<close>

definition is_digit :: "char \<Rightarrow> bool" where
  "is_digit c \<longleftrightarrow> 48 \<le> code c \<and> code c \<le> 57"

definition dec_value :: "string \<Rightarrow> nat" where
  "dec_value s = foldl (\<lambda>n c. 10 * n + (code c - 48)) 0 s"

text \<open>\<open>strconv.ParseUint(s, 10, bits)\<close> and \<open>strconv.Atoi\<close> on a 64-bit platform; every error is \<open>None\<close>.\<close>

definition ParseUint :: "nat \<Rightarrow> string \<Rightarrow> nat option" where
  "ParseUint bits s =
     (if s \<noteq> [] \<and> list_all is_digit s \<and> dec_value s < 2 ^ bits then Some (dec_value s) else None)"

definition Atoi :: "string \<Rightarrow> int option" where
  "Atoi s =
     (let neg = (s \<noteq> [] \<and> hd s = CHR ''-'');
          ds = (if s \<noteq> [] \<and> (hd s = CHR ''-'' \<or> hd s = CHR ''+'') then tl s else s)
      in if ds = [] \<or> \<not> list_all is_digit ds then None
         else if neg then (if dec_value ds \<le> 2 ^ 63 then Some (- int (dec_value ds)) else None)
         else (if dec_value ds < 2 ^ 63 then Some (int (dec_value ds)) else None))"

lemma digit_char_code: "d < 16 \<Longrightarrow> code (digit_char d) = (if d < 10 then 48 + d else 87 + d)"
  by (simp add: digit_char_def)

lemma digits_in_step:
  "digits_in b n = (if b < 2 \<or> n < b then [digit_char n] else digits_in b (n div b) @ [digit_char (n mod b)])"
  by (rule digits_in.simps)

lemma dec_value_snoc: "dec_value (s @ [c]) = 10 * dec_value s + (code c - 48)"
  by (simp add: dec_value_def)

lemma dec_value_digits: "dec_value (digits_of n) = n"
proof (induction n rule: less_induct)
  case (less n)
  show ?case
  proof (cases "n < 10")
    case True
    then show ?thesis
      by (subst digits_in_step) (simp add: dec_value_def digit_char_code)
  next
    case False
    then have "dec_value (digits_of (n div 10)) = n div 10"
      by (intro less) simp
    with False show ?thesis
      by (subst digits_in_step) (simp add: dec_value_snoc digit_char_code)
  qed
qed

lemma digits_of_digits: "list_all is_digit (digits_of n)"
proof (induction n rule: less_induct)
  case (less n)
  have "\<not> n < 10 \<Longrightarrow> list_all is_digit (digits_of (n div 10))"
    by (intro less) simp
  then show ?case
    by (subst digits_in_step) (auto simp: is_digit_def digit_char_code)
qed

lemma digits_nonempty [simp]: "digits_in b n \<noteq> []"
  by (subst digits_in_step) simp

lemma ParseUint_digits: "n < 2 ^ bits \<Longrightarrow> ParseUint bits (digits_of n) = Some n"
  by (simp add: ParseUint_def digits_of_digits dec_value_digits)

lemma show_int_chars: "set (show_int i) \<subseteq> insert CHR ''-'' {c. is_digit c}"
  using digits_of_digits by (auto simp: show_int_def list_all_iff)

section \<open>Host and port\<close>

definition SplitHostPort :: "string \<Rightarrow> (string \<times> string) option" where
  "SplitHostPort hostport =
     (case LastIndexByte hostport CHR '':'' of
        None \<Rightarrow> None
      | Some i \<Rightarrow>
          if hd hostport = CHR ''['' then
            (case IndexByte hostport CHR '']'' of
               None \<Rightarrow> None
             | Some e \<Rightarrow>
                 if Suc e = i \<and> CHR ''['' \<notin> set (drop 1 hostport) \<and> CHR '']'' \<notin> set (drop (Suc e) hostport)
                 then Some (drop 1 (take e hostport), drop (Suc i) hostport)
                 else None)
          else if CHR '':'' \<notin> set (take i hostport) \<and> CHR ''['' \<notin> set hostport \<and> CHR '']'' \<notin> set hostport
          then Some (take i hostport, drop (Suc i) hostport)
          else None)"

section \<open>Trimming printable text\<close>

lemma spaces_ends:
  "e \<in> set spaces \<Longrightarrow> e \<noteq> [] \<and> (code (hd e) \<le> 32 \<or> 128 \<le> code (hd e)) \<and> (code (last e) \<le> 32 \<or> 128 \<le> code (last e))"
  by (auto simp: spaces_def)

definition graphic :: "char \<Rightarrow> bool" where
  "graphic c \<longleftrightarrow> 32 < code c \<and> code c < 128"

lemma HasPrefix_hd: "HasPrefix s e \<Longrightarrow> e \<noteq> [] \<Longrightarrow> s \<noteq> [] \<and> hd s = hd e"
  by (cases s; cases e) (auto simp: HasPrefix_def)

lemma tidy_graphic: "graphic (hd s) \<Longrightarrow> tidy spaces s"
  by (auto simp: tidy_def graphic_def dest!: HasPrefix_hd spaces_ends)

lemma tidy_rev_graphic: "graphic (last s) \<Longrightarrow> tidy (map rev spaces) (rev s)"
  by (auto simp: tidy_def graphic_def hd_rev dest!: HasPrefix_hd spaces_ends)

lemma TrimSpace_graphic: "graphic (hd s) \<Longrightarrow> graphic (last s) \<Longrightarrow> TrimSpace s = s"
  by (simp add: TrimSpace_def trim_right_def tidy_trim tidy_graphic tidy_rev_graphic)

lemma EqualFold_hd: "EqualFold s (t # ts) \<Longrightarrow> code (hd s) < 128 \<Longrightarrow> s \<noteq> [] \<and> lower_byte (hd s) = lower_byte t"
  by (auto simp: kelvin_def long_s_def dest!: HasPrefix_hd)

end
