(* ===== verification/Net.thy ===== *)
theory Net
  imports Prelude
begin

text \<open>
  What the sources use of Go's package \<open>net\<close>: IP addresses as byte slices, their equality and
  text form, UDP addresses and \<open>JoinHostPort\<close>.
\<close>

section \<open>IP addresses\<close>

text \<open>A \<open>net.IP\<close> is a byte slice: empty, 4 bytes, or 16 bytes with IPv4 mapped under a prefix.\<close>

type_synonym ip = "byte list"

definition v4InV6Prefix :: "byte list" where
  "v4InV6Prefix = replicate 10 0 @ [0xFF, 0xFF]"

definition To4 :: "ip \<Rightarrow> ip option" where
  "To4 ip =
     (if length ip = 4 then Some ip
      else if length ip = 16 \<and> take 12 ip = v4InV6Prefix then Some (drop 12 ip)
      else None)"

definition IP_Equal :: "ip \<Rightarrow> ip \<Rightarrow> bool" where
  "IP_Equal a b =
     (if length a = length b then a = b
      else if length a = 4 \<and> length b = 16 then take 12 b = v4InV6Prefix \<and> a = drop 12 b
      else if length a = 16 \<and> length b = 4 then take 12 a = v4InV6Prefix \<and> b = drop 12 a
      else False)"

fun intersperse_dots :: "string list \<Rightarrow> string" where
  "intersperse_dots [] = ''''"
| "intersperse_dots [x] = x"
| "intersperse_dots (x # xs) = x @ ''.'' @ intersperse_dots xs"

fun pairs16 :: "byte list \<Rightarrow> nat list" where
  "pairs16 (a # b # bs) = (256 * unat a + unat b) # pairs16 bs"
| "pairs16 _ = []"

definition zero_run :: "nat list \<Rightarrow> nat \<Rightarrow> nat" where
  "zero_run gs i = length (takeWhile (\<lambda>g. g = 0) (drop i gs))"

text \<open>The first longest run of at least two zero groups, as start and end.\<close>

definition best_run :: "nat list \<Rightarrow> (nat \<times> nat) option" where
  "best_run gs = fold (\<lambda>i best.
     let l = zero_run gs i in
     if 2 \<le> l \<and> (case best of None \<Rightarrow> True | Some (a, b) \<Rightarrow> b - a < l) then Some (i, i + l) else best)
     [0..<length gs] None"

fun colon_groups :: "nat list \<Rightarrow> string" where
  "colon_groups [] = ''''"
| "colon_groups [g] = hex_of g"
| "colon_groups (g # gs) = hex_of g @ '':'' @ colon_groups gs"

definition string6 :: "ip \<Rightarrow> string" where
  "string6 ip =
     (let gs = pairs16 ip in
      case best_run gs of
        None \<Rightarrow> colon_groups gs
      | Some (a, b) \<Rightarrow> colon_groups (take a gs) @ ''::'' @ colon_groups (drop b gs))"

definition IP_String :: "ip \<Rightarrow> string" where
  "IP_String ip =
     (if ip = [] then ''<nil>''
      else if length ip \<noteq> 4 \<and> length ip \<noteq> 16 then
        ''?'' @ concat (map (\<lambda>b. [digit_char (unat b div 16), digit_char (unat b mod 16)]) ip)
      else case To4 ip of
          Some v4 \<Rightarrow> intersperse_dots (map (\<lambda>b. digits_of (unat b)) v4)
        | None \<Rightarrow> string6 ip)"

section \<open>UDP addresses\<close>

record UDPAddr =
  IP :: ip
  Port :: int
  Zone :: string

definition JoinHostPort :: "string \<Rightarrow> string \<Rightarrow> string" where
  "JoinHostPort host port =
     (if CHR '':'' \<in> set host then ''['' @ host @ '']:'' @ port else host @ '':'' @ port)"

text \<open>\<open>(*UDPAddr).String\<close> for a non-nil address.\<close>

definition addr_String :: "UDPAddr \<Rightarrow> string" where
  "addr_String a =
     (let ip = (if IP a = [] then '''' else IP_String (IP a))
      in if Zone a \<noteq> '''' then JoinHostPort (ip @ ''%'' @ Zone a) (show_int (Port a))
         else JoinHostPort ip (show_int (Port a)))"

text \<open>\<open>sameUDPAddr\<close> and \<open>cloneUDPAddr\<close> of \<open>internal/udp/server.go\<close>; \<open>nil\<close> is \<open>None\<close>.\<close>

definition sameUDPAddr :: "UDPAddr option \<Rightarrow> UDPAddr option \<Rightarrow> bool" where
  "sameUDPAddr a b =
     (case (a, b) of
        (Some a, Some b) \<Rightarrow> Port a = Port b \<and> Zone a = Zone b \<and> IP_Equal (IP a) (IP b)
      | _ \<Rightarrow> False)"

definition cloneUDPAddr :: "UDPAddr option \<Rightarrow> UDPAddr option" where
  "cloneUDPAddr a = map_option (\<lambda>a. \<lparr>IP = IP a, Port = Port a, Zone = Zone a\<rparr>) a"

lemma IP_Equal_refl [simp]: "IP_Equal a a"
  by (simp add: IP_Equal_def)

lemma sameUDPAddr_refl [simp]: "sameUDPAddr (Some a) (Some a)"
  by (simp add: sameUDPAddr_def)

lemma sameUDPAddr_None [simp]: "\<not> sameUDPAddr None b" "\<not> sameUDPAddr a None"
  by (simp_all add: sameUDPAddr_def split: option.splits)

lemma cloneUDPAddr_id [simp]: "cloneUDPAddr a = a"
  by (cases a) (simp_all add: cloneUDPAddr_def)

lemma To4_shape: "To4 ip = Some v \<Longrightarrow> length v = 4 \<and> ip \<noteq> [] \<and> (length ip = 4 \<or> length ip = 16)"
  by (auto simp: To4_def split: if_splits)

lemma IP_String_v4: "To4 ip = Some v \<Longrightarrow> IP_String ip = intersperse_dots (map (\<lambda>b. digits_of (unat b)) v)"
  using To4_shape [of ip v] by (auto simp: IP_String_def)

lemma IP_Equal_forms: "IP_Equal a b \<Longrightarrow> a \<noteq> b \<Longrightarrow> \<exists>v. To4 a = Some v \<and> To4 b = Some v"
  unfolding IP_Equal_def To4_def by (cases "length a = length b") (simp_all split: if_splits)

lemma IP_String_same: "IP_Equal a b \<Longrightarrow> IP_String a = IP_String b"
  using IP_Equal_forms [of a b] IP_String_v4 [of a] IP_String_v4 [of b] by (cases "a = b") auto

text \<open>Equal addresses have one key, whichever form of an IPv4 address each carries.\<close>

lemma addr_String_same: "sameUDPAddr (Some a) (Some b) \<Longrightarrow> addr_String a = addr_String b"
proof -
  assume s: "sameUDPAddr (Some a) (Some b)"
  then have "IP_Equal (IP a) (IP b)"
    by (simp add: sameUDPAddr_def)
  then have "IP_String (IP a) = IP_String (IP b)" "IP a = [] \<longleftrightarrow> IP b = []"
    by (auto intro: IP_String_same simp: IP_Equal_def split: if_splits)
  with s show ?thesis
    by (simp add: addr_String_def sameUDPAddr_def Let_def)
qed

end
