(* ===== verification/Netip.thy ===== *)
theory Netip
  imports Strs Net
begin

text \<open>
  What the sources use of Go's package \<open>net/netip\<close>, with \<open>net.ParseIP\<close> on top of it: addresses,
  their text form and its parser, and prefixes.
\<close>

section \<open>Addresses\<close>

datatype Addr = Addr4 "byte list" | Addr6 "byte list" string

fun addr_wf :: "Addr \<Rightarrow> bool" where
  "addr_wf (Addr4 b) = (length b = 4)"
| "addr_wf (Addr6 b z) = (length b = 16)"

fun addr_bytes :: "Addr \<Rightarrow> byte list" where
  "addr_bytes (Addr4 b) = b"
| "addr_bytes (Addr6 b z) = b"

fun addr_zone :: "Addr \<Rightarrow> string" where
  "addr_zone (Addr4 b) = ''''"
| "addr_zone (Addr6 b z) = z"

fun Is4 :: "Addr \<Rightarrow> bool" where
  "Is4 (Addr4 b) = True"
| "Is4 (Addr6 b z) = False"

fun Is4In6 :: "Addr \<Rightarrow> bool" where
  "Is4In6 (Addr4 b) = False"
| "Is4In6 (Addr6 b z) = (take 12 b = v4InV6Prefix)"

definition Unmap :: "Addr \<Rightarrow> Addr" where
  "Unmap a = (if Is4In6 a then Addr4 (drop 12 (addr_bytes a)) else a)"

definition BitLen :: "Addr \<Rightarrow> nat" where
  "BitLen a = (if Is4 a then 32 else 128)"

definition IsUnspecified :: "Addr \<Rightarrow> bool" where
  "IsUnspecified a \<longleftrightarrow> a = Addr4 (replicate 4 0) \<or> a = Addr6 (replicate 16 0) ''''"

definition IsMulticast :: "Addr \<Rightarrow> bool" where
  "IsMulticast a =
     (case Unmap a of
        Addr4 b \<Rightarrow> b ! 0 AND 0xF0 = 0xE0
      | Addr6 b z \<Rightarrow> b ! 0 = 0xFF)"

definition string4 :: "byte list \<Rightarrow> string" where
  "string4 b = intersperse_dots (map (\<lambda>x. digits_of (unat x)) b)"

fun Addr_String :: "Addr \<Rightarrow> string" where
  "Addr_String (Addr4 b) = string4 b"
| "Addr_String (Addr6 b z) =
     (if take 12 b = v4InV6Prefix then ''::ffff:'' @ string4 (drop 12 b) else string6 b) @
     (if z = '''' then '''' else ''%'' @ z)"

section \<open>Parsing\<close>

definition parse_octet :: "string \<Rightarrow> byte option" where
  "parse_octet s =
     (if s \<noteq> [] \<and> list_all is_digit s \<and> (length s = 1 \<or> hd s \<noteq> CHR ''0'') \<and> dec_value s < 256
      then Some (of_nat (dec_value s)) else None)"

definition parse_v4 :: "string \<Rightarrow> byte list option" where
  "parse_v4 s =
     (let parts = Split CHR ''.'' s
      in if length parts = 4 then those (map parse_octet parts) else None)"

definition hex_digit :: "char \<Rightarrow> nat option" where
  "hex_digit c =
     (if 48 \<le> code c \<and> code c \<le> 57 then Some (code c - 48)
      else if 97 \<le> code c \<and> code c \<le> 102 then Some (code c - 87)
      else if 65 \<le> code c \<and> code c \<le> 70 then Some (code c - 55)
      else None)"

definition hex_value :: "string \<Rightarrow> nat" where
  "hex_value s = foldl (\<lambda>n c. 16 * n + (case hex_digit c of Some d \<Rightarrow> d | None \<Rightarrow> 0)) 0 s"

text \<open>After the loop: all of the string is used, and an ellipsis stands for at least one group.\<close>

definition v6_finish :: "string \<Rightarrow> byte list \<Rightarrow> nat option \<Rightarrow> byte list option" where
  "v6_finish s ip ellipsis =
     (if s \<noteq> [] then None
      else if length ip < 16 then
        (case ellipsis of
           None \<Rightarrow> None
         | Some e \<Rightarrow> Some (take e ip @ replicate (16 - length ip) 0 @ drop e ip))
      else if ellipsis \<noteq> None then None else Some ip)"

text \<open>The loop over groups: the rest of the string, the bytes so far and the place of the ellipsis.\<close>

function v6_loop :: "string \<Rightarrow> byte list \<Rightarrow> nat option \<Rightarrow> byte list option" where
  "v6_loop s ip ellipsis =
     (if 16 \<le> length ip then v6_finish s ip ellipsis
      else let h = takeWhile (\<lambda>c. hex_digit c \<noteq> None) s; rest = drop (length h) s;
               ip' = ip @ [of_nat (hex_value h div 256), of_nat (hex_value h)]
      in if h = [] \<or> 4 < length h then None
         else if rest \<noteq> [] \<and> hd rest = CHR ''.'' then
           if ellipsis = None \<and> length ip \<noteq> 12 then None
           else if 16 < length ip + 4 then None
           else (case parse_v4 s of None \<Rightarrow> None | Some v \<Rightarrow> v6_finish '''' (ip @ v) ellipsis)
         else if rest = [] then v6_finish '''' ip' ellipsis
         else if hd rest \<noteq> CHR '':'' \<or> length rest = 1 then None
         else if hd (tl rest) = CHR '':'' then
           if ellipsis \<noteq> None then None
           else if tl (tl rest) = [] then v6_finish '''' ip' (Some (length ip'))
           else v6_loop (tl (tl rest)) ip' (Some (length ip'))
         else v6_loop (tl rest) ip' ellipsis)"
  by pat_completeness auto
termination
  by (relation "measure (\<lambda>(s, ip, e). length s)") (auto simp: Let_def simp flip: length_greater_0_conv)

declare v6_loop.simps [simp del]

definition parse_v6 :: "string \<Rightarrow> Addr option" where
  "parse_v6 text =
     (let (s, zone, ok) =
        (case IndexByte text CHR ''%'' of
           None \<Rightarrow> (text, '''', True)
         | Some i \<Rightarrow> (take i text, drop (Suc i) text, drop (Suc i) text \<noteq> ''''))
      in if \<not> ok then None
         else if HasPrefix s ''::'' then
           if drop 2 s = '''' then Some (Addr6 (replicate 16 0) zone)
           else map_option (\<lambda>b. Addr6 b zone) (v6_loop (drop 2 s) [] (Some 0))
         else map_option (\<lambda>b. Addr6 b zone) (v6_loop s [] None))"

definition ParseAddr :: "string \<Rightarrow> Addr option" where
  "ParseAddr s =
     (case find (\<lambda>c. c \<in> set ''.:%'') s of
        None \<Rightarrow> None
      | Some c \<Rightarrow>
          if c = CHR ''.'' then map_option Addr4 (parse_v4 s)
          else if c = CHR '':'' then parse_v6 s
          else None)"

text \<open>\<open>net.ParseIP\<close> gives the 16-byte form and no address with a zone.\<close>

definition ParseIP :: "string \<Rightarrow> ip option" where
  "ParseIP s =
     (case ParseAddr s of
        None \<Rightarrow> None
      | Some (Addr4 b) \<Rightarrow> Some (v4InV6Prefix @ b)
      | Some (Addr6 b z) \<Rightarrow> if z = '''' then Some b else None)"

definition IPv6loopback :: ip where
  "IPv6loopback = replicate 15 0 @ [1]"

definition IsLoopback :: "ip \<Rightarrow> bool" where
  "IsLoopback ip = (case To4 ip of Some v \<Rightarrow> v ! 0 = 127 | None \<Rightarrow> IP_Equal ip IPv6loopback)"

section \<open>Prefixes\<close>

record netip_prefix =
  pfx_addr :: Addr
  pfx_bits :: nat

definition be_value :: "byte list \<Rightarrow> nat" where
  "be_value bs = foldl (\<lambda>n b. 256 * n + unat b) 0 bs"

definition be_bytes :: "nat \<Rightarrow> nat \<Rightarrow> byte list" where
  "be_bytes len n = map (\<lambda>i. of_nat (n div 256 ^ (len - 1 - i))) [0..<len]"

text \<open>The bits of an address above the host part of a prefix of \<open>n\<close> bits.\<close>

definition net_part :: "nat \<Rightarrow> Addr \<Rightarrow> nat" where
  "net_part n a = be_value (addr_bytes a) div 2 ^ (BitLen a - n)"

definition Contains :: "netip_prefix \<Rightarrow> Addr \<Rightarrow> bool" where
  "Contains p a \<longleftrightarrow>
     addr_zone a = '''' \<and> Is4 (pfx_addr p) = Is4 a \<and>
     net_part (pfx_bits p) (pfx_addr p) = net_part (pfx_bits p) a"

definition with_bytes :: "Addr \<Rightarrow> byte list \<Rightarrow> Addr" where
  "with_bytes a b = (if Is4 a then Addr4 b else Addr6 b (addr_zone a))"

definition Masked :: "netip_prefix \<Rightarrow> netip_prefix" where
  "Masked p =
     (let a = pfx_addr p; host = BitLen a - pfx_bits p
      in p\<lparr>pfx_addr := with_bytes a
             (be_bytes (length (addr_bytes a)) (be_value (addr_bytes a) div 2 ^ host * 2 ^ host))\<rparr>)"

definition ParsePrefix :: "string \<Rightarrow> netip_prefix option" where
  "ParsePrefix s =
     (case LastIndexByte s CHR ''/'' of
        None \<Rightarrow> None
      | Some i \<Rightarrow>
          (case ParseAddr (take i s) of
             None \<Rightarrow> None
           | Some a \<Rightarrow>
               let bits = drop (Suc i) s in
               if addr_zone a \<noteq> '''' then None
               else if 1 < length bits \<and> (code (hd bits) < 49 \<or> 57 < code (hd bits)) then None
               else (case Atoi bits of
                       None \<Rightarrow> None
                     | Some n \<Rightarrow>
                         if n < 0 \<or> int (BitLen a) < n then None
                         else Some \<lparr>pfx_addr = a, pfx_bits = nat n\<rparr>)))"

section \<open>Facts about parsing\<close>

lemma parse_v4_length: "parse_v4 s = Some b \<Longrightarrow> length b = 4"
proof -
  have those_length: "those xs = Some ys \<Longrightarrow> length ys = length xs" for xs :: "'a option list" and ys
    by (induction xs arbitrary: ys) (auto split: option.splits)
  show "parse_v4 s = Some b \<Longrightarrow> length b = 4"
    by (auto simp: parse_v4_def Let_def split: if_splits dest: those_length)
qed

lemma v6_finish_length:
  "v6_finish s ip e = Some b \<Longrightarrow> length ip \<le> 16 \<Longrightarrow> (\<And>n. e = Some n \<Longrightarrow> n \<le> length ip) \<Longrightarrow> length b = 16"
  by (auto simp: v6_finish_def split: if_splits option.splits)

lemma v6_loop_length:
  "v6_loop s ip e = Some b \<Longrightarrow> even (length ip) \<Longrightarrow> length ip \<le> 16 \<Longrightarrow> (\<And>n. e = Some n \<Longrightarrow> n \<le> length ip) \<Longrightarrow>
    length b = 16"
proof (induction s ip e rule: v6_loop.induct)
  case (1 s ip e)
  define h where "h = takeWhile (\<lambda>c. hex_digit c \<noteq> None) s"
  define rest where "rest = drop (length h) s"
  define ip' where "ip' = ip @ [of_nat (hex_value h div 256), of_nat (hex_value h)]"
  note IH = "1.IH" [OF _ h_def rest_def ip'_def]
  have le: "length ip' \<le> 16 \<and> even (length ip')" if "\<not> 16 \<le> length ip"
    using that "1.prems"(2) by (auto simp: ip'_def elim!: evenE)
  have mono: "n \<le> length ip'" if "e = Some n" for n
    using "1.prems"(4) [OF that] by (simp add: ip'_def)
  have tail: "length b = 16" if "v6_finish '''' (ip @ v) e = Some b" "length v = 4" "length ip \<le> 12" for v
    using v6_finish_length [OF that(1)] that(2,3) "1.prems"(4) by fastforce
  show ?case
    using "1.prems"(1) unfolding v6_loop.simps [of s ip e]
    unfolding Let_def h_def [symmetric] rest_def [symmetric] ip'_def [symmetric]
    by (auto split: if_splits option.splits dest!: parse_v4_length
        intro: tail v6_finish_length "1.prems" IH dest: v6_finish_length IH simp: le mono)
qed

lemma ParseAddr_wf: "ParseAddr s = Some a \<Longrightarrow> addr_wf a"
  by (auto simp: ParseAddr_def parse_v6_def split: option.splits if_splits prod.splits
      dest!: parse_v4_length v6_loop_length)

lemma Unmap_wf: "addr_wf a \<Longrightarrow> addr_wf (Unmap a)"
  by (cases a) (auto simp: Unmap_def)

lemma Unmap_not_mapped [simp]: "\<not> Is4In6 (Unmap a)"
  by (simp add: Unmap_def)

lemma Unmap_Unmap [simp]: "Unmap (Unmap a) = Unmap a"
  by (subst Unmap_def) simp

lemma addr_wf_length: "addr_wf a \<Longrightarrow> 8 * length (addr_bytes a) = BitLen a"
  by (cases a) (auto simp: BitLen_def)

lemma ParseIP_length: "ParseIP s = Some ip \<Longrightarrow> length ip = 16"
  by (auto simp: ParseIP_def v4InV6Prefix_def split: option.splits Addr.splits if_splits dest: ParseAddr_wf)

section \<open>Facts about prefixes\<close>

lemma be_value_snoc: "be_value (bs @ [b]) = 256 * be_value bs + unat b"
  by (simp add: be_value_def)

lemma be_value_bound: "be_value bs < 256 ^ length bs"
proof (induction bs rule: rev_induct)
  case (snoc b bs)
  then show ?case
    using unsigned_less [of b, where ?'a = nat] by (simp add: be_value_snoc)
qed (simp add: be_value_def)

lemma be_bytes_Suc: "be_bytes (Suc n) v = be_bytes n (v div 256) @ [of_nat v]"
proof -
  have "of_nat (v div 256 ^ (n - i)) = (of_nat (v div 256 div 256 ^ (n - 1 - i)) :: byte)" if "i < n" for i
  proof -
    from that have "(256 :: nat) ^ (n - i) = 256 * 256 ^ (n - 1 - i)"
      by (metis Suc_diff_Suc diff_Suc_eq_diff_pred power_Suc)
    then show ?thesis
      by (simp add: div_mult2_eq)
  qed
  then show ?thesis
    by (simp add: be_bytes_def)
qed

lemma length_be_bytes [simp]: "length (be_bytes n v) = n"
  by (simp add: be_bytes_def)

lemma be_value_be_bytes: "v < 256 ^ n \<Longrightarrow> be_value (be_bytes n v) = v"
proof (induction n arbitrary: v)
  case 0
  then show ?case
    by (simp add: be_bytes_def be_value_def)
next
  case (Suc n)
  then have "be_value (be_bytes n (v div 256)) = v div 256"
    by (intro Suc) (simp add: less_mult_imp_div_less)
  then show ?case
    by (simp add: be_bytes_Suc be_value_snoc unat_of_nat)
qed

lemma with_bytes_simps [simp]:
  "addr_bytes (with_bytes a b) = b" "Is4 (with_bytes a b) = Is4 a" "BitLen (with_bytes a b) = BitLen a"
  "addr_wf a \<Longrightarrow> length b = length (addr_bytes a) \<Longrightarrow> addr_wf (with_bytes a b)"
  "addr_zone (with_bytes a b) = addr_zone a"
  by (cases a; simp add: with_bytes_def BitLen_def)+

lemma be_value_inj: "length a = length b \<Longrightarrow> be_value a = be_value b \<Longrightarrow> a = b"
proof (induction a arbitrary: b rule: rev_induct)
  case (snoc x a)
  then obtain b' y where b: "b = b' @ [y]" and len: "length a = length b'"
    by (cases b rule: rev_cases) auto
  have lt: "unat x < 256" "unat y < 256"
    using unsigned_less [of x, where ?'a = nat] unsigned_less [of y, where ?'a = nat] by simp_all
  from snoc.prems b have e: "256 * be_value a + unat x = 256 * be_value b' + unat y"
    by (simp add: be_value_snoc)
  then have "(256 * be_value a + unat x) div 256 = (256 * be_value b' + unat y) div 256"
    by simp
  with lt have "be_value a = be_value b'"
    by simp
  moreover from this e have "x = y"
    by (intro word_unat_eq_iff [THEN iffD2]) simp
  ultimately show ?case
    using snoc.IH [OF len] b by simp
qed simp

lemma be_bytes_be_value [simp]: "length bs = n \<Longrightarrow> be_bytes n (be_value bs) = bs"
  by (rule be_value_inj) (auto simp: be_value_be_bytes be_value_bound)

text \<open>A prefix with at least one bit leaves half of its family out.\<close>

lemma prefix_is_proper:
  assumes wf: "addr_wf (pfx_addr p)" and bits: "0 < pfx_bits p" "pfx_bits p \<le> BitLen (pfx_addr p)"
  shows "\<exists>a. addr_wf a \<and> Is4 a = Is4 (pfx_addr p) \<and> \<not> Contains p a"
proof -
  define n where "n = BitLen (pfx_addr p)"
  define h where "h = n - pfx_bits p"
  define v where "v = (if be_value (addr_bytes (pfx_addr p)) < 2 ^ (n - 1) then 2 ^ (n - 1) else 0 :: nat)"
  let ?a = "with_bytes (pfx_addr p) (be_bytes (length (addr_bytes (pfx_addr p))) v)"
  have n: "0 < n" "8 * length (addr_bytes (pfx_addr p)) = n"
    using addr_wf_length [OF wf] by (simp_all add: n_def BitLen_def)
  have "v < 2 ^ n"
    using n by (simp add: v_def)
  also have "2 ^ n = (256 :: nat) ^ length (addr_bytes (pfx_addr p))"
    by (simp add: n(2) [symmetric] power_mult)
  finally have val: "be_value (be_bytes (length (addr_bytes (pfx_addr p))) v) = v"
    by (rule be_value_be_bytes)
  have split: "(2 :: nat) ^ (n - 1) = 2 ^ (pfx_bits p - 1) * 2 ^ h"
    using bits n by (simp add: h_def n_def power_add [symmetric])
  have "be_value (addr_bytes (pfx_addr p)) div 2 ^ h \<noteq> v div 2 ^ h"
  proof (cases "be_value (addr_bytes (pfx_addr p)) < 2 ^ (n - 1)")
    case True
    then have "be_value (addr_bytes (pfx_addr p)) div 2 ^ h < 2 ^ (pfx_bits p - 1)"
      unfolding split by (rule less_mult_imp_div_less)
    moreover have "v div 2 ^ h = 2 ^ (pfx_bits p - 1)"
      using True unfolding v_def split by simp
    ultimately show ?thesis
      by simp
  next
    case False
    then have "2 ^ (pfx_bits p - 1) \<le> be_value (addr_bytes (pfx_addr p)) div 2 ^ h"
      unfolding split by (simp add: less_eq_div_iff_mult_less_eq)
    then have "be_value (addr_bytes (pfx_addr p)) div 2 ^ h \<noteq> 0"
      by (metis le_zero_eq power_not_zero zero_neq_numeral)
    with False show ?thesis
      by (simp add: v_def)
  qed
  then have "\<not> Contains p ?a"
    by (simp add: Contains_def net_part_def val n_def h_def)
  with wf show ?thesis
    by (intro exI [of _ ?a]) simp
qed

lemma Masked_simps [simp]:
  "pfx_bits (Masked p) = pfx_bits p" "Is4 (pfx_addr (Masked p)) = Is4 (pfx_addr p)"
  "BitLen (pfx_addr (Masked p)) = BitLen (pfx_addr p)"
  "addr_zone (pfx_addr (Masked p)) = addr_zone (pfx_addr p)"
  "addr_wf (pfx_addr p) \<Longrightarrow> addr_wf (pfx_addr (Masked p))"
  "length (addr_bytes (pfx_addr (Masked p))) = length (addr_bytes (pfx_addr p))"
  by (simp_all add: Masked_def Let_def)

lemma be_value_Masked:
  "be_value (addr_bytes (pfx_addr (Masked p))) =
    be_value (addr_bytes (pfx_addr p)) div 2 ^ (BitLen (pfx_addr p) - pfx_bits p) *
      2 ^ (BitLen (pfx_addr p) - pfx_bits p)"
  using be_value_bound [of "addr_bytes (pfx_addr p)"]
  by (simp add: Masked_def Let_def) (subst be_value_be_bytes, auto intro: le_less_trans [OF div_times_less_eq_dividend])

lemma Masked_Masked: "Masked (Masked p) = Masked p"
  by (subst Masked_def) (simp add: be_value_Masked Let_def, simp add: Masked_def Let_def with_bytes_def)

text \<open>Masking changes no membership.\<close>

lemma Contains_Masked: "Contains (Masked p) a = Contains p a"
  by (simp add: Contains_def net_part_def be_value_Masked)

lemma Contains_full:
  "addr_wf a \<Longrightarrow> addr_wf (pfx_addr p) \<Longrightarrow> addr_zone (pfx_addr p) = '''' \<Longrightarrow> pfx_bits p = BitLen (pfx_addr p) \<Longrightarrow>
    Contains p a \<longleftrightarrow> a = pfx_addr p"
  by (cases a; cases "pfx_addr p") (auto simp: Contains_def net_part_def BitLen_def intro!: be_value_inj)

lemma ParsePrefix_wf:
  "ParsePrefix s = Some p \<Longrightarrow> addr_wf (pfx_addr p) \<and> pfx_bits p \<le> BitLen (pfx_addr p) \<and> addr_zone (pfx_addr p) = ''''"
  by (auto simp: ParsePrefix_def Let_def split: option.splits if_splits dest: ParseAddr_wf)


lemma length_v4InV6Prefix [simp]: "length v4InV6Prefix = 12"
  by (simp add: v4InV6Prefix_def)

lemma To4_mapped [simp]: "length v = 4 \<Longrightarrow> To4 (v4InV6Prefix @ v) = Some v"
  by (simp add: To4_def)

text \<open>Evaluation of the parsers on given text.\<close>

lemmas text_eval =
  SplitHostPort_def LastIndexByte_def IndexByte_def Trim_def ParseIP_def ParseAddr_def parse_v4_def
  parse_octet_def is_digit_def dec_value_def Atoi_def HasPrefix_def lower_byte_def kelvin_def long_s_def

end
