(* ===== verification/Proto.thy ===== *)
theory Proto
  imports Prelude
begin

text \<open>
  The binary wire formats of \<open>internal/proto\<close>: the audio frame of \<open>audio_frame.go\<close> (24 bytes
  of header and a payload) and the UDP control frames of \<open>udp_frame.go\<close>.  A byte slice is its
  list of bytes; the destination slice of a packer is its whole backing array up to its
  capacity, so that what the packers leave in a reused buffer is part of the model.
\<close>

section \<open>Byte slices\<close>

text \<open>\<open>dst[:sz]\<close> when the capacity suffices, a fresh zeroed slice otherwise.\<close>

definition reslice :: "nat \<Rightarrow> byte list \<Rightarrow> byte list" where
  "reslice sz dst = (if length dst < sz then replicate sz 0 else take sz dst)"

text \<open>\<open>src[lo:hi]\<close>, \<open>copy(dst[lo:hi], src)\<close> and the little-endian 16-bit accessors.\<close>

definition subslice :: "nat \<Rightarrow> nat \<Rightarrow> byte list \<Rightarrow> byte list" where
  "subslice lo hi src = take (hi - lo) (drop lo src)"

definition copy_range :: "nat \<Rightarrow> nat \<Rightarrow> byte list \<Rightarrow> byte list \<Rightarrow> byte list" where
  "copy_range lo hi src dst =
     (let n = min (hi - lo) (length src) in take lo dst @ take n src @ drop (lo + n) dst)"

definition put_uint16 :: "nat \<Rightarrow> u16 \<Rightarrow> byte list \<Rightarrow> byte list" where
  "put_uint16 off v dst = dst[off := ucast v, Suc off := ucast (drop_bit 8 v)]"

definition uint16_at :: "nat \<Rightarrow> byte list \<Rightarrow> u16" where
  "uint16_at off src = ucast (src ! off) OR push_bit 8 (ucast (src ! Suc off))"

lemma uint16_bytes [wire]:
  "(ucast (ucast (v :: u16) :: byte) :: u16) OR push_bit 8 (ucast (ucast (drop_bit 8 v) :: byte)) = v"
proof (rule bit_word_eqI)
  fix n
  assume "n < LENGTH(16)"
  then show "bit ((ucast (ucast v :: byte) :: u16) OR push_bit 8 (ucast (ucast (drop_bit 8 v) :: byte))) n
      = bit v n"
    by (auto simp: bit_or_iff bit_push_bit_iff bit_ucast_iff bit_drop_bit_eq)
qed

lemma bytes_uint16 [wire]:
  "(ucast ((ucast (a :: byte) :: u16) OR push_bit 8 (ucast (b :: byte))) :: byte) = a"
  "(ucast (drop_bit 8 ((ucast (a :: byte) :: u16) OR push_bit 8 (ucast (b :: byte)))) :: byte) = b"
proof -
  show "(ucast ((ucast a :: u16) OR push_bit 8 (ucast b)) :: byte) = a"
    by (rule bit_word_eqI) (auto simp: bit_or_iff bit_push_bit_iff bit_ucast_iff)
  show "(ucast (drop_bit 8 ((ucast a :: u16) OR push_bit 8 (ucast b))) :: byte) = b"
  proof (rule bit_word_eqI)
    fix n
    assume "n < LENGTH(8)"
    moreover have "\<not> bit a (8 + n)"
      using bit_imp_le_length [of a "8 + n"] by auto
    ultimately show "bit (ucast (drop_bit 8 ((ucast a :: u16) OR push_bit 8 (ucast b))) :: byte) n = bit b n"
      by (auto simp: bit_or_iff bit_push_bit_iff bit_ucast_iff bit_drop_bit_eq)
  qed
qed

lemma length_reslice [wire]: "length (reslice sz dst) = sz"
  by (simp add: reslice_def)

section \<open>Audio frames\<close>

definition AudioFrameType :: byte where
  "AudioFrameType = 0xA1"

definition AudioHeaderSize :: nat where
  "AudioHeaderSize = 24"

definition MaxAudioPayload :: nat where
  "MaxAudioPayload = 8192"

record AudioFrameHeader =
  SourcePeerID :: uuid
  Seq :: u16
  Length :: u16

datatype frame_error = ErrTooShort | ErrBadType | ErrPayloadTooBig | ErrLengthMismatch

definition Pack :: "AudioFrameHeader \<Rightarrow> byte list \<Rightarrow> byte list \<Rightarrow> frame_error + byte list" where
  "Pack h payload dst =
     (if length payload > MaxAudioPayload then Inl ErrPayloadTooBig
      else
        let sz = AudioHeaderSize + length payload;
            b = reslice sz dst;
            b = b[0 := AudioFrameType];
            b = b[1 := 0, 2 := 0, 3 := 0];
            b = copy_range 4 20 (bytes_of (SourcePeerID h)) b;
            b = put_uint16 20 (Seq h) b;
            b = put_uint16 22 (of_nat (length payload)) b;
            b = copy_range 24 sz payload b
        in Inr b)"

text \<open>A failed read returns the header it has filled in so far as well; every caller drops it.\<close>

definition Unpack :: "byte list \<Rightarrow> frame_error + AudioFrameHeader \<times> byte list" where
  "Unpack src =
     (if length src < AudioHeaderSize then Inl ErrTooShort
      else if src ! 0 \<noteq> AudioFrameType then Inl ErrBadType
      else
        let h = \<lparr>SourcePeerID = of_bytes (subslice 4 20 src), Seq = uint16_at 20 src,
                 Length = uint16_at 22 src\<rparr>
        in if unat (Length h) > MaxAudioPayload then Inl ErrPayloadTooBig
           else if unat (Length h) + AudioHeaderSize \<noteq> length src then Inl ErrLengthMismatch
           else Inr (h, drop AudioHeaderSize src))"

lemmas audio_sizes = AudioFrameType_def AudioHeaderSize_def MaxAudioPayload_def

subsection \<open>The layout of a packed frame\<close>

lemma list_4: "length xs = 4 + n \<Longrightarrow> \<exists>a b c d ys. xs = a # b # c # d # ys \<and> length ys = n"
  by (auto simp: numeral_eq_Suc length_Suc_conv)

lemma list_prefix: "length xs = m + n \<Longrightarrow> \<exists>ys zs. xs = ys @ zs \<and> length ys = m \<and> length zs = n"
  by (rule exI [where x = "take m xs"], rule exI [where x = "drop m xs"]) simp

lemma set_head4:
  "(a # b # c # d # r)[0 := w, 1 := x, 2 := y, 3 := z] = w # x # y # z # r"
  by (simp add: eval_nat_numeral)

lemma frame_shape:
  assumes "length xs = 24 + n"
  obtains a b c d ys e f g h zs where
    "xs = a # b # c # d # ys @ e # f # g # h # zs" "length ys = 16" "length zs = n"
proof -
  obtain a b c d us where us: "xs = a # b # c # d # us" "length us = 20 + n"
    using list_4 [of xs "20 + n"] assms by auto
  obtain ys vs where vs: "us = ys @ vs" "length ys = 16" "length vs = 4 + n"
    using list_prefix [of us 16 "4 + n"] us(2) by auto
  obtain e f g h zs where "vs = e # f # g # h # zs" "length zs = n"
    using list_4 [OF vs(3)] by blast
  with us vs show thesis by (intro that) auto
qed

lemma put_uint16_exact [wire]:
  "length xs = off \<Longrightarrow>
    put_uint16 off v (xs @ a # b # zs) = xs @ ucast v # ucast (drop_bit 8 v) # zs"
  by (simp add: put_uint16_def list_update_append)

lemma copy_range_exact [wire]:
  "length xs = lo \<Longrightarrow> length ys = length src \<Longrightarrow> hi = lo + length src \<Longrightarrow>
    copy_range lo hi src (xs @ ys @ zs) = xs @ src @ zs"
  by (simp add: copy_range_def)

lemma subslice_exact [wire]:
  "length xs = lo \<Longrightarrow> hi = lo + length ys \<Longrightarrow> subslice lo hi (xs @ ys @ zs) = ys"
  by (simp add: subslice_def)

definition audio_layout :: "uuid \<Rightarrow> u16 \<Rightarrow> u16 \<Rightarrow> byte list \<Rightarrow> byte list" where
  "audio_layout pid sq len payload =
     [AudioFrameType, 0, 0, 0] @ bytes_of pid @
     [ucast sq, ucast (drop_bit 8 sq), ucast len, ucast (drop_bit 8 len)] @ payload"

lemma Pack_layout:
  assumes "length payload \<le> MaxAudioPayload"
  shows "Pack h payload dst =
    Inr (audio_layout (SourcePeerID h) (Seq h) (of_nat (length payload)) payload)"
proof -
  let ?n = "AudioHeaderSize + length payload"
  let ?l = "of_nat (length payload) :: u16"
  let ?t = "[AudioFrameType, 0, 0, 0]"
  let ?p = "bytes_of (SourcePeerID h)"
  let ?s = "[ucast (Seq h), ucast (drop_bit 8 (Seq h))] :: byte list"
  have "length (reslice ?n dst) = 24 + length payload"
    by (simp add: wire audio_sizes)
  then obtain a b c d ys e f g i zs where
    b: "reslice ?n dst = a # b # c # d # ys @ e # f # g # i # zs"
    and l: "length ys = 16" "length zs = length payload"
    by (rule frame_shape)
  have 1: "(reslice ?n dst)[0 := AudioFrameType, 1 := 0, 2 := 0, 3 := 0] = ?t @ ys @ [e, f, g, i] @ zs"
    unfolding b set_head4 by simp
  have 2: "copy_range 4 20 ?p (?t @ ys @ [e, f, g, i] @ zs) = ?t @ ?p @ [e, f, g, i] @ zs"
    by (rule copy_range_exact) (simp_all add: l)
  have 3: "put_uint16 20 (Seq h) (?t @ ?p @ [e, f, g, i] @ zs) = ?t @ ?p @ ?s @ [g, i] @ zs"
    using put_uint16_exact [of "?t @ ?p" 20] by simp
  have 4: "put_uint16 22 ?l (?t @ ?p @ ?s @ [g, i] @ zs) =
      (?t @ ?p @ ?s @ [ucast ?l, ucast (drop_bit 8 ?l)]) @ zs"
    using put_uint16_exact [of "?t @ ?p @ ?s" 22 ?l g i zs] by simp
  have 5: "copy_range 24 ?n payload ((?t @ ?p @ ?s @ [ucast ?l, ucast (drop_bit 8 ?l)]) @ zs) =
      (?t @ ?p @ ?s @ [ucast ?l, ucast (drop_bit 8 ?l)]) @ payload"
    using copy_range_exact [of "?t @ ?p @ ?s @ [ucast ?l, ucast (drop_bit 8 ?l)]" 24 zs payload ?n "[]"]
    by (simp add: l AudioHeaderSize_def)
  show ?thesis
    using assms by (simp only: Pack_def Let_def 1 2 3 4 5 audio_layout_def) simp
qed

lemma length_audio_layout [wire]: "length (audio_layout pid sq len payload) = 24 + length payload"
  by (simp add: audio_layout_def)

lemma audio_layout_nth:
  "audio_layout pid sq len payload ! 20 = ucast sq"
  "audio_layout pid sq len payload ! 21 = ucast (drop_bit 8 sq)"
  "audio_layout pid sq len payload ! 22 = ucast len"
  "audio_layout pid sq len payload ! 23 = ucast (drop_bit 8 len)"
  by (simp_all add: audio_layout_def nth_append)

lemma Unpack_layout:
  assumes "length payload \<le> MaxAudioPayload"
  shows "Unpack (audio_layout pid sq (of_nat (length payload)) payload) =
    Inr (\<lparr>SourcePeerID = pid, Seq = sq, Length = of_nat (length payload)\<rparr>, payload)"
proof -
  let ?l = "of_nat (length payload) :: u16"
  let ?src = "audio_layout pid sq ?l payload"
  have len: "unat ?l = length payload"
    using assms by (simp add: unat_of_nat take_bit_nat_eq_self audio_sizes)
  have pid: "subslice 4 20 ?src = bytes_of pid"
    unfolding audio_layout_def by (rule subslice_exact) simp_all
  have rest: "drop 24 ?src = payload"
    by (simp add: audio_layout_def)
  have "uint16_at 20 ?src = sq" "uint16_at 22 ?src = ?l"
    by (simp_all add: uint16_at_def audio_layout_nth wire)
  moreover have "?src ! 0 = AudioFrameType"
    by (simp add: audio_layout_def)
  ultimately show ?thesis
    using assms by (simp add: Unpack_def Let_def AudioHeaderSize_def wire pid rest len)
qed

text \<open>What a reader accepts is a packed frame, up to the three reserved bytes.\<close>

lemma Unpack_shape:
  assumes "Unpack src = Inr (h, payload)"
  shows "src = src ! 0 # src ! 1 # src ! 2 # src ! 3 #
      drop 4 (audio_layout (SourcePeerID h) (Seq h) (Length h) payload)"
    and "src ! 0 = AudioFrameType"
    and "unat (Length h) = length payload" "length payload \<le> MaxAudioPayload"
proof -
  have len: "length src = 24 + (length src - 24)" and tag: "src ! 0 = AudioFrameType"
    and h: "h = \<lparr>SourcePeerID = of_bytes (subslice 4 20 src), Seq = uint16_at 20 src,
        Length = uint16_at 22 src\<rparr>"
    and payload: "payload = drop 24 src"
    and bound: "unat (Length h) \<le> MaxAudioPayload" "unat (Length h) + 24 = length src"
    using assms by (auto simp: Unpack_def Let_def AudioHeaderSize_def split: if_splits)
  obtain a b c d ys e f g i zs where
    src: "src = a # b # c # d # ys @ e # f # g # i # zs" and ys: "length ys = 16"
    by (rule frame_shape [OF len])
  have "src ! 20 = e" "src ! 21 = f" "src ! 22 = g" "src ! 23 = i"
    by (simp_all add: src nth_append ys)
  then have fields: "Seq h = ucast e OR push_bit 8 (ucast f)" "Length h = ucast g OR push_bit 8 (ucast i)"
    by (simp_all add: h uint16_at_def)
  have "subslice 4 20 src = ys"
    using subslice_exact [of "[a, b, c, d]" 4 20 ys "e # f # g # i # zs"] by (simp add: src ys)
  then have "bytes_of (SourcePeerID h) = ys"
    by (simp add: h bytes_of_of_bytes ys)
  moreover have "ucast (Seq h) = e" "ucast (drop_bit 8 (Seq h)) = f"
    "ucast (Length h) = g" "ucast (drop_bit 8 (Length h)) = i"
    unfolding fields by (rule bytes_uint16)+
  moreover have "payload = zs"
    by (simp add: payload src ys)
  ultimately show "src = src ! 0 # src ! 1 # src ! 2 # src ! 3 #
      drop 4 (audio_layout (SourcePeerID h) (Seq h) (Length h) payload)"
    by (simp add: src audio_layout_def)
  show "src ! 0 = AudioFrameType" by (rule tag)
  show "unat (Length h) = length payload" using bound len payload by simp
  then show "length payload \<le> MaxAudioPayload" using bound by simp
qed

lemma Unpack_Pack:
  assumes "Unpack src = Inr (h, payload)"
  shows "Pack h payload dst = Inr (src[1 := 0, 2 := 0, 3 := 0])"
proof -
  note shape = Unpack_shape [OF assms]
  have "of_nat (length payload) = Length h"
    by (simp add: shape(3) [symmetric])
  then have "Pack h payload dst = Inr (audio_layout (SourcePeerID h) (Seq h) (Length h) payload)"
    using Pack_layout [OF shape(4), of h dst] by simp
  moreover have "src[1 := 0, 2 := 0, 3 := 0] = audio_layout (SourcePeerID h) (Seq h) (Length h) payload"
    by (subst shape(1)) (simp add: audio_layout_def shape(2) eval_nat_numeral)
  ultimately show ?thesis by simp
qed

lemma Unpack_error_iff:
  "Unpack src = Inl e \<longleftrightarrow>
    (if length src < 24 then e = ErrTooShort
     else if src ! 0 \<noteq> AudioFrameType then e = ErrBadType
     else if unat (uint16_at 22 src) > 8192 then e = ErrPayloadTooBig
     else unat (uint16_at 22 src) + 24 \<noteq> length src \<and> e = ErrLengthMismatch)"
  by (auto simp: Unpack_def Let_def AudioHeaderSize_def MaxAudioPayload_def)

section \<open>UDP control frames\<close>

definition UdpFrameTypeHello :: byte where
  "UdpFrameTypeHello = 0xC0"

definition UdpFrameTypeWelcome :: byte where
  "UdpFrameTypeWelcome = 0xC1"

definition UdpFrameTypePing :: byte where
  "UdpFrameTypePing = 0xC2"

definition UdpFrameTypePong :: byte where
  "UdpFrameTypePong = 0xC3"

definition UdpHelloSize :: nat where
  "UdpHelloSize = 52"

definition UdpWelcomeSize :: nat where
  "UdpWelcomeSize = 20"

definition UdpPingSize :: nat where
  "UdpPingSize = 20"

definition UdpPongSize :: nat where
  "UdpPongSize = 20"

definition UdpTokenSize :: nat where
  "UdpTokenSize = 32"

lemmas udp_types = UdpFrameTypeHello_def UdpFrameTypeWelcome_def UdpFrameTypePing_def
  UdpFrameTypePong_def
lemmas udp_sizes = UdpHelloSize_def UdpWelcomeSize_def UdpPingSize_def UdpPongSize_def
  UdpTokenSize_def

datatype udp_frame_error = ErrUdpTooShort | ErrUdpBadType | ErrUdpBadSize

record UdpHelloFrame =
  HelloPeerID :: uuid
  HelloToken :: token

record UdpPingFrame =
  PingPeerID :: uuid

definition PackUdpHello :: "UdpHelloFrame \<Rightarrow> byte list \<Rightarrow> byte list" where
  "PackUdpHello f dst =
     (let b = reslice UdpHelloSize dst;
          b = b[0 := UdpFrameTypeHello];
          b = b[1 := 0, 2 := 0, 3 := 0];
          b = copy_range 4 20 (bytes_of (HelloPeerID f)) b;
          b = copy_range 20 52 (bytes_of (HelloToken f)) b
      in b)"

definition UnpackUdpHello :: "byte list \<Rightarrow> udp_frame_error + UdpHelloFrame" where
  "UnpackUdpHello src =
     (if length src \<noteq> UdpHelloSize then Inl ErrUdpBadSize
      else if src ! 0 \<noteq> UdpFrameTypeHello then Inl ErrUdpBadType
      else Inr \<lparr>HelloPeerID = of_bytes (subslice 4 20 src), HelloToken = of_bytes (subslice 20 52 src)\<rparr>)"

definition PackUdpWelcome :: "uuid \<Rightarrow> byte list \<Rightarrow> byte list" where
  "PackUdpWelcome peerID dst =
     (let b = reslice UdpWelcomeSize dst;
          b = b[0 := UdpFrameTypeWelcome];
          b = b[1 := 0, 2 := 0, 3 := 0]
      in copy_range 4 20 (bytes_of peerID) b)"

definition PackUdpPing :: "uuid \<Rightarrow> byte list \<Rightarrow> byte list" where
  "PackUdpPing peerID dst =
     (let b = reslice UdpPingSize dst;
          b = b[0 := UdpFrameTypePing];
          b = b[1 := 0, 2 := 0, 3 := 0]
      in copy_range 4 20 (bytes_of peerID) b)"

definition UnpackUdpPing :: "byte list \<Rightarrow> udp_frame_error + UdpPingFrame" where
  "UnpackUdpPing src =
     (if length src \<noteq> UdpPingSize then Inl ErrUdpBadSize
      else if src ! 0 \<noteq> UdpFrameTypePing then Inl ErrUdpBadType
      else Inr \<lparr>PingPeerID = of_bytes (subslice 4 20 src)\<rparr>)"

definition PackUdpPong :: "uuid \<Rightarrow> byte list \<Rightarrow> byte list" where
  "PackUdpPong peerID dst =
     (let b = reslice UdpPongSize dst;
          b = b[0 := UdpFrameTypePong];
          b = b[1 := 0, 2 := 0, 3 := 0]
      in copy_range 4 20 (bytes_of peerID) b)"

definition PeekUdpType :: "byte list \<Rightarrow> udp_frame_error + byte" where
  "PeekUdpType src = (if length src < 1 then Inl ErrUdpTooShort else Inr (src ! 0))"

subsection \<open>The layout of control frames\<close>

text \<open>The four packers share one shape: type byte, three zero bytes, a body.\<close>

lemma peer_frame_layout:
  "copy_range 4 20 (bytes_of (pid :: uuid)) ((reslice 20 dst)[0 := t, 1 := 0, 2 := 0, 3 := 0]) =
    [t, 0, 0, 0] @ bytes_of pid"
proof -
  have "length (reslice 20 dst) = 4 + 16"
    by (simp add: wire)
  then obtain a b c d ys where b: "reslice 20 dst = a # b # c # d # ys" "length ys = 16"
    using list_4 by blast
  have "(reslice 20 dst)[0 := t, 1 := 0, 2 := 0, 3 := 0] = [t, 0, 0, 0] @ ys @ []"
    unfolding b set_head4 by simp
  then show ?thesis
    using copy_range_exact [of "[t, 0, 0, 0]" 4 ys "bytes_of pid" 20 "[]"] by (simp add: b)
qed

lemma PackUdpWelcome_layout: "PackUdpWelcome pid dst = [UdpFrameTypeWelcome, 0, 0, 0] @ bytes_of pid"
  unfolding PackUdpWelcome_def Let_def UdpWelcomeSize_def by (rule peer_frame_layout)

lemma PackUdpPing_layout: "PackUdpPing pid dst = [UdpFrameTypePing, 0, 0, 0] @ bytes_of pid"
  unfolding PackUdpPing_def Let_def UdpPingSize_def by (rule peer_frame_layout)

lemma PackUdpPong_layout: "PackUdpPong pid dst = [UdpFrameTypePong, 0, 0, 0] @ bytes_of pid"
  unfolding PackUdpPong_def Let_def UdpPongSize_def by (rule peer_frame_layout)

lemma PackUdpHello_layout:
  "PackUdpHello f dst =
    [UdpFrameTypeHello, 0, 0, 0] @ bytes_of (HelloPeerID f) @ bytes_of (HelloToken f)"
proof -
  let ?t = "[UdpFrameTypeHello, 0, 0, 0]"
  have "length (reslice 52 dst) = 4 + (16 + 32)"
    by (simp add: wire)
  then obtain a b c d us where b: "reslice 52 dst = a # b # c # d # us" "length us = 16 + 32"
    using list_4 by blast
  then obtain ys zs where us: "us = ys @ zs" "length ys = 16" "length zs = 32"
    using list_prefix by blast
  have 1: "(reslice 52 dst)[0 := UdpFrameTypeHello, 1 := 0, 2 := 0, 3 := 0] = ?t @ ys @ zs"
    unfolding b us set_head4 by simp
  have 2: "copy_range 4 20 (bytes_of (HelloPeerID f)) (?t @ ys @ zs) =
      ?t @ bytes_of (HelloPeerID f) @ zs"
    by (rule copy_range_exact) (simp_all add: us)
  have 3: "copy_range 20 52 (bytes_of (HelloToken f)) (?t @ bytes_of (HelloPeerID f) @ zs) =
      ?t @ bytes_of (HelloPeerID f) @ bytes_of (HelloToken f)"
    using copy_range_exact [of "?t @ bytes_of (HelloPeerID f)" 20 zs "bytes_of (HelloToken f)" 52 "[]"]
    by (simp add: us)
  show ?thesis
    by (simp only: PackUdpHello_def Let_def UdpHelloSize_def 1 2 3)
qed

lemmas pack_layouts = PackUdpWelcome_layout PackUdpPing_layout PackUdpPong_layout
  PackUdpHello_layout

lemma UnpackUdpHello_PackUdpHello: "UnpackUdpHello (PackUdpHello f dst) = Inr f"
proof -
  let ?p = "bytes_of (HelloPeerID f)" and ?k = "bytes_of (HelloToken f)"
  have "subslice 4 20 ([UdpFrameTypeHello, 0, 0, 0] @ ?p @ ?k) = ?p"
    by (rule subslice_exact) simp_all
  moreover have "subslice 20 52 ([UdpFrameTypeHello, 0, 0, 0] @ ?p @ ?k) = ?k"
    using subslice_exact [of "[UdpFrameTypeHello, 0, 0, 0] @ ?p" 20 52 ?k "[]"] by simp
  ultimately show ?thesis
    by (simp add: UnpackUdpHello_def PackUdpHello_layout UdpHelloSize_def)
qed

lemma UnpackUdpPing_PackUdpPing: "UnpackUdpPing (PackUdpPing pid dst) = Inr \<lparr>PingPeerID = pid\<rparr>"
proof -
  have "subslice 4 20 ([UdpFrameTypePing, 0, 0, 0] @ bytes_of pid @ []) = bytes_of pid"
    by (rule subslice_exact) simp_all
  then show ?thesis
    by (simp add: UnpackUdpPing_def PackUdpPing_layout UdpPingSize_def)
qed

section \<open>The contract of a frame codec\<close>

text \<open>
  What the data plane relies on: a well-formed value survives packing into any buffer, the
  bytes do not depend on the buffer, and the first byte alone tells which reader accepts.
\<close>

locale frame_codec =
  fixes enc :: "'a \<Rightarrow> byte list \<Rightarrow> byte list"
    and dec :: "byte list \<Rightarrow> 'e + 'b"
    and ok :: "'a \<Rightarrow> bool"
    and view :: "'a \<Rightarrow> 'b"
    and tag :: byte
  assumes dec_enc: "ok x \<Longrightarrow> dec (enc x dst) = Inr (view x)"
    and enc_tag: "ok x \<Longrightarrow> \<exists>r. enc x dst = tag # r"
    and enc_buffer: "ok x \<Longrightarrow> enc x dst = enc x dst'"
    and dec_tag: "dec bs = Inr y \<Longrightarrow> bs \<noteq> [] \<and> bs ! 0 = tag"
begin

lemma enc_inject: "ok x \<Longrightarrow> ok y \<Longrightarrow> enc x dst = enc y dst' \<Longrightarrow> view x = view y"
  by (metis dec_enc sum.inject(2))

lemma peek_enc: "ok x \<Longrightarrow> PeekUdpType (enc x dst) = Inr tag"
  using enc_tag [of x dst] by (auto simp: PeekUdpType_def)

lemma dec_peek: "dec bs = Inr y \<Longrightarrow> PeekUdpType bs = Inr tag"
  using dec_tag [of bs y] by (auto simp: PeekUdpType_def Suc_le_eq not_less)

lemma foreign_rejected: "PeekUdpType bs = Inr t \<Longrightarrow> t \<noteq> tag \<Longrightarrow> isl (dec bs)"
  using dec_peek [of bs] by (cases "dec bs") auto

end

locale codec_pair =
  c1: frame_codec enc1 dec1 ok1 view1 tag1 + c2: frame_codec enc2 dec2 ok2 view2 tag2
  for enc1 :: "'a \<Rightarrow> byte list \<Rightarrow> byte list" and dec1 :: "byte list \<Rightarrow> 'e + 'b"
    and ok1 view1 tag1
    and enc2 :: "'c \<Rightarrow> byte list \<Rightarrow> byte list" and dec2 :: "byte list \<Rightarrow> 'f + 'd"
    and ok2 view2 tag2 +
  assumes tags_differ: "tag1 \<noteq> tag2"
begin

lemma never_confused: "ok1 x \<Longrightarrow> isl (dec2 (enc1 x dst))" "ok2 y \<Longrightarrow> isl (dec1 (enc2 y dst))"
  using c2.foreign_rejected [OF c1.peek_enc tags_differ]
    c1.foreign_rejected [OF c2.peek_enc tags_differ [symmetric]] by auto

end

text \<open>The audio packer as a total function, for inputs it accepts.\<close>

definition audio_bytes :: "AudioFrameHeader \<times> byte list \<Rightarrow> byte list \<Rightarrow> byte list" where
  "audio_bytes hp dst = (case Pack (fst hp) (snd hp) dst of Inl _ \<Rightarrow> [] | Inr b \<Rightarrow> b)"

definition audio_ok :: "AudioFrameHeader \<times> byte list \<Rightarrow> bool" where
  "audio_ok hp \<longleftrightarrow> length (snd hp) \<le> MaxAudioPayload"

definition audio_view :: "AudioFrameHeader \<times> byte list \<Rightarrow> AudioFrameHeader \<times> byte list" where
  "audio_view hp = ((fst hp)\<lparr>Length := of_nat (length (snd hp))\<rparr>, snd hp)"

interpretation audio: frame_codec audio_bytes Unpack audio_ok audio_view AudioFrameType
proof
  fix x dst assume "audio_ok x"
  then have b: "audio_bytes x dst = audio_layout (SourcePeerID (fst x)) (Seq (fst x))
      (of_nat (length (snd x))) (snd x)" for dst
    by (simp add: audio_bytes_def audio_ok_def Pack_layout)
  show "Unpack (audio_bytes x dst) = Inr (audio_view x)"
    using \<open>audio_ok x\<close> by (simp add: b Unpack_layout audio_ok_def audio_view_def)
  show "\<exists>r. audio_bytes x dst = AudioFrameType # r"
    by (simp add: b audio_layout_def)
  show "audio_bytes x dst = audio_bytes x dst'" for dst'
    by (simp add: b)
next
  fix bs y assume "Unpack bs = Inr y"
  then show "bs \<noteq> [] \<and> bs ! 0 = AudioFrameType"
    by (auto simp: Unpack_def AudioHeaderSize_def split: if_splits)
qed

lemma UnpackUdpHello_tag: "UnpackUdpHello bs = Inr y \<Longrightarrow> bs \<noteq> [] \<and> bs ! 0 = UdpFrameTypeHello"
  by (auto simp: UnpackUdpHello_def UdpHelloSize_def split: if_splits)

lemma UnpackUdpPing_tag: "UnpackUdpPing bs = Inr y \<Longrightarrow> bs \<noteq> [] \<and> bs ! 0 = UdpFrameTypePing"
  by (auto simp: UnpackUdpPing_def UdpPingSize_def split: if_splits)

interpretation hello: frame_codec PackUdpHello UnpackUdpHello "\<lambda>_. True" "\<lambda>f. f" UdpFrameTypeHello
  by unfold_locales (rule UnpackUdpHello_PackUdpHello, simp_all add: pack_layouts UnpackUdpHello_tag)

interpretation ping: frame_codec PackUdpPing UnpackUdpPing "\<lambda>_. True" "\<lambda>p. \<lparr>PingPeerID = p\<rparr>" UdpFrameTypePing
  by unfold_locales (rule UnpackUdpPing_PackUdpPing, simp_all add: pack_layouts UnpackUdpPing_tag)

interpretation audio_hello: codec_pair audio_bytes Unpack audio_ok audio_view AudioFrameType
  PackUdpHello UnpackUdpHello "\<lambda>_. True" "\<lambda>f. f" UdpFrameTypeHello
  by unfold_locales (simp add: AudioFrameType_def udp_types)

interpretation audio_ping: codec_pair audio_bytes Unpack audio_ok audio_view AudioFrameType
  PackUdpPing UnpackUdpPing "\<lambda>_. True" "\<lambda>p. \<lparr>PingPeerID = p\<rparr>" UdpFrameTypePing
  by unfold_locales (simp add: AudioFrameType_def udp_types)

interpretation hello_ping: codec_pair PackUdpHello UnpackUdpHello "\<lambda>_. True" "\<lambda>f. f" UdpFrameTypeHello
  PackUdpPing UnpackUdpPing "\<lambda>_. True" "\<lambda>p. \<lparr>PingPeerID = p\<rparr>" UdpFrameTypePing
  by unfold_locales (simp add: udp_types)

lemma audio_bytes_Pack: "Pack h payload dst = Inr bs \<longleftrightarrow> audio_ok (h, payload) \<and> bs = audio_bytes (h, payload) dst"
  by (auto simp: audio_bytes_def audio_ok_def Pack_def Let_def split: if_splits)

section \<open>Properties of the wire formats\<close>

text \<open>
  C39. Audio frames survive the wire: for every payload within the limit and every (possibly
  reused) destination buffer, packing succeeds, the frame has exactly 24 bytes more than the
  payload, and unpacking it gives back the source, the sequence number, the payload and the
  payload's length, whatever the header's own length field said.
\<close>

theorem audio_frame_roundtrip:
  assumes "length payload \<le> MaxAudioPayload"
  shows "\<exists>bs. Pack h payload dst = Inr bs \<and> length bs = AudioHeaderSize + length payload \<and>
    Unpack bs = Inr (h\<lparr>Length := of_nat (length payload)\<rparr>, payload)"
proof -
  have ok: "audio_ok (h, payload)"
    using assms by (simp add: audio_ok_def)
  have "length (audio_bytes (h, payload) dst) = AudioHeaderSize + length payload"
    using assms by (simp add: audio_bytes_def Pack_layout wire AudioHeaderSize_def)
  then show ?thesis
    using audio.dec_enc [OF ok, of dst] ok by (auto simp: audio_bytes_Pack audio_view_def)
qed

theorem audio_frame_roundtrip_witness:
  "\<exists>bs. Pack \<lparr>SourcePeerID = of_bytes [7], Seq = 513, Length = 99\<rparr> [1, 2, 3] [255] = Inr bs \<and>
    length bs = AudioHeaderSize + length [1, 2, 3 :: byte] \<and>
    Unpack bs = Inr (\<lparr>SourcePeerID = of_bytes [7], Seq = 513, Length = 3\<rparr>, [1, 2, 3])"
  using audio_frame_roundtrip [of "[1, 2, 3]" "\<lparr>SourcePeerID = of_bytes [7], Seq = 513, Length = 99\<rparr>" "[255]"]
  by (simp add: MaxAudioPayload_def)

text \<open>
  \<open>Unpack\<close> accepts nothing but packed frames: an accepted datagram has its payload's exact
  length, never more than 8192 bytes of it, and packing the result again (into any buffer)
  gives the datagram back with its three reserved bytes cleared.
\<close>

lemma unpack_accepts_only_packed_frames:
  assumes "Unpack src = Inr (h, payload)"
  shows "length payload = unat (Length h) \<and> length payload \<le> MaxAudioPayload \<and>
    length src = AudioHeaderSize + length payload \<and>
    Pack h payload dst = Inr (src[1 := 0, 2 := 0, 3 := 0])"
proof -
  note shape = Unpack_shape [OF assms]
  have "length src = 24 + length payload"
    by (subst shape(1)) (simp add: wire)
  then show ?thesis
    using shape(3,4) Unpack_Pack [OF assms] by (simp add: AudioHeaderSize_def)
qed

lemma unpack_accepts_only_packed_frames_instance:
  "Pack \<lparr>SourcePeerID = of_bytes [9], Seq = 2, Length = 1\<rparr> [5] [] =
    Inr ((audio_layout (of_bytes [9]) 2 1 [5])[1 := 0, 2 := 0, 3 := 0])"
  using unpack_accepts_only_packed_frames
      [of "audio_layout (of_bytes [9]) 2 1 [5]" "\<lparr>SourcePeerID = of_bytes [9], Seq = 2, Length = 1\<rparr>" "[5]" "[]"]
    Unpack_layout [of "[5]" "of_bytes [9]" 2]
  by (simp add: MaxAudioPayload_def)

text \<open>
  UDP control frames survive the wire whatever buffer they are packed into, have the
  fixed sizes of the protocol, and the replies of the server (welcome, pong) are never larger
  than the requests (hello, ping) they answer.
\<close>

lemma udp_control_roundtrip:
  "UnpackUdpHello (PackUdpHello f dst) = Inr f \<and>
   UnpackUdpPing (PackUdpPing pid dst) = Inr \<lparr>PingPeerID = pid\<rparr> \<and>
   length (PackUdpHello f dst) = UdpHelloSize \<and>
   length (PackUdpPing pid dst) = UdpPingSize \<and>
   length (PackUdpWelcome pid dst) \<le> length (PackUdpHello f dst') \<and>
   length (PackUdpPong pid dst) \<le> length (PackUdpPing pid dst')"
  by (intro conjI hello.dec_enc ping.dec_enc TrueI) (simp_all add: pack_layouts udp_sizes)

text \<open>
  The first byte decides: no reader of the data plane accepts a frame of another kind, so
  the dispatch on the type byte cannot send a frame to a handler that would read it as
  something else.
\<close>

lemma frames_never_confused:
  assumes "Pack h payload dst = Inr bs"
  shows "isl (UnpackUdpHello bs) \<and> isl (UnpackUdpPing bs) \<and>
    isl (Unpack (PackUdpHello f dst)) \<and> isl (UnpackUdpPing (PackUdpHello f dst)) \<and>
    isl (Unpack (PackUdpPing pid dst)) \<and> isl (UnpackUdpHello (PackUdpPing pid dst)) \<and>
    PeekUdpType bs = Inr AudioFrameType \<and>
    PeekUdpType (PackUdpHello f dst) = Inr UdpFrameTypeHello \<and>
    PeekUdpType (PackUdpPing pid dst) = Inr UdpFrameTypePing"
  using assms audio_hello.never_confused audio_ping.never_confused hello_ping.never_confused
    audio.peek_enc hello.peek_enc ping.peek_enc by (auto simp: audio_bytes_Pack)

lemma frames_never_confused_instance:
  "isl (UnpackUdpPing (audio_layout (of_bytes [9]) 2 1 [5]))"
  using frames_never_confused
      [of "\<lparr>SourcePeerID = of_bytes [9], Seq = 2, Length = 1\<rparr>" "[5]" "[]" "audio_layout (of_bytes [9]) 2 1 [5]"]
    Pack_layout [of "[5]" "\<lparr>SourcePeerID = of_bytes [9], Seq = 2, Length = 1\<rparr>" "[]"]
  by (simp add: MaxAudioPayload_def)

section \<open>Protocol limits\<close>

text \<open>\<open>internal/proto/limits.go\<close>.\<close>

definition MaxPeersPerRoom :: int where
  "MaxPeersPerRoom = 8"

definition MaxPasswordBytes :: nat where
  "MaxPasswordBytes = 72"

definition MaxUsernameRunes :: nat where
  "MaxUsernameRunes = 32"

definition MaxRoomNameRunes :: nat where
  "MaxRoomNameRunes = 64"

end
