(* ===== verification/Config.thy ===== *)
theory Config
  imports Netip Proto
begin

text \<open>
  \<open>internal/config/config.go\<close>: the configuration, its defaults, its validation, and the two
  text forms it gates (trusted proxies and the health URL).  \<open>os.Stat\<close> and the TOML decoder are
  arguments of \<open>Load\<close>.
\<close>

section \<open>Configuration\<close>

record ServerCfg =
  Listen_cfg :: string
  HealthListen :: string
  UdpListen :: string
  UdpAdvertiseHost :: string
  MaxRooms_cfg :: int
  MaxPeersPerRoom_cfg :: int
  MaxConnections_cfg :: int
  AdminToken :: string
  TrustedProxies :: "string list"
  AllowInsecurePublic :: bool
  AllowInsecureUDP :: bool
  Password_cfg :: string

record TLSCfg =
  Enabled :: bool
  CertFile :: string
  KeyFile :: string
  AutoLetsEncrypt :: bool
  Domain :: string
  Email :: string

record LogCfg =
  Level :: string
  Format :: string
  Path :: string

record RateLimitCfg =
  HelloPerIPPerMinute_cfg :: int
  RoomCreatePerPeerPerMinute_cfg :: int
  RoomJoinPerPeerPerMinute_cfg :: int
  RoomListPerPeerPerMinute_cfg :: int
  ControlPerPeerPerMinute_cfg :: int
  AudioFramesPerPeerPerSec_cfg :: int
  PasswordChecksConcurrent_cfg :: int

record Config =
  Server :: ServerCfg
  TLS :: TLSCfg
  Log :: LogCfg
  RateLimit :: RateLimitCfg

definition Default :: Config where
  "Default =
     \<lparr>Server = \<lparr>Listen_cfg = ''127.0.0.1:18900'', HealthListen = ''127.0.0.1:18901'', UdpListen = '''',
         UdpAdvertiseHost = '''', MaxRooms_cfg = 50, MaxPeersPerRoom_cfg = 8, MaxConnections_cfg = 200,
         AdminToken = '''', TrustedProxies = [], AllowInsecurePublic = False, AllowInsecureUDP = False,
         Password_cfg = ''''\<rparr>,
      TLS = \<lparr>Enabled = False, CertFile = '''', KeyFile = '''', AutoLetsEncrypt = False, Domain = '''',
         Email = ''''\<rparr>,
      Log = \<lparr>Level = ''info'', Format = ''json'', Path = ''''\<rparr>,
      RateLimit = \<lparr>HelloPerIPPerMinute_cfg = 10, RoomCreatePerPeerPerMinute_cfg = 5,
         RoomJoinPerPeerPerMinute_cfg = 30, RoomListPerPeerPerMinute_cfg = 60,
         ControlPerPeerPerMinute_cfg = 120, AudioFramesPerPeerPerSec_cfg = 200,
         PasswordChecksConcurrent_cfg = 4\<rparr>\<rparr>"

section \<open>Gated text forms\<close>

datatype health_error = HealthNotHostPort | HealthNotLoopback | HealthBadPort

definition HealthURL :: "string \<Rightarrow> health_error + string" where
  "HealthURL listen =
     (case SplitHostPort listen of
        None \<Rightarrow> Inl HealthNotHostPort
      | Some (host, port) \<Rightarrow>
          (case ParseIP (Trim host ''[]'') of
             None \<Rightarrow> Inl HealthNotLoopback
           | Some ip \<Rightarrow>
               if \<not> IsLoopback ip then Inl HealthNotLoopback
               else (case Atoi port of
                       None \<Rightarrow> Inl HealthBadPort
                     | Some n \<Rightarrow>
                         if n < 1 \<or> 65535 < n then Inl HealthBadPort
                         else Inr (''http://'' @ JoinHostPort (IP_String ip) (show_int n) @ ''/healthz''))))"

definition isLoopbackListen :: "string \<Rightarrow> bool" where
  "isLoopbackListen listen =
     (case SplitHostPort listen of
        None \<Rightarrow> False
      | Some (host, _) \<Rightarrow>
          let host = Trim host ''[]'' in
          if EqualFold host ''localhost'' then True
          else (case ParseIP host of None \<Rightarrow> False | Some ip \<Rightarrow> IsLoopback ip))"

datatype proxy_error = ProxyEmpty | ProxyAmbiguous | ProxyNotAddress | ProxyForbidden

definition ParseTrustedProxy :: "string \<Rightarrow> proxy_error + netip_prefix" where
  "ParseTrustedProxy raw =
     (let raw = TrimSpace raw
      in if raw = '''' then Inl ProxyEmpty
         else case ParseAddr raw of
             Some addr \<Rightarrow>
               if addr_zone addr \<noteq> '''' \<or> Is4In6 addr \<or> IsUnspecified addr \<or> IsMulticast addr
               then Inl ProxyAmbiguous
               else let addr = Unmap addr in Inr \<lparr>pfx_addr = addr, pfx_bits = BitLen addr\<rparr>
           | None \<Rightarrow>
               (case ParsePrefix raw of
                  None \<Rightarrow> Inl ProxyNotAddress
                | Some p \<Rightarrow>
                    if pfx_bits p = 0 \<or> Is4In6 (pfx_addr p) \<or> IsMulticast (pfx_addr p)
                    then Inl ProxyForbidden
                    else Inr (Masked p)))"

section \<open>Validation\<close>

datatype config_error =
    ListenEmpty
  | HealthNotExplicit
  | PeersOutOfRange
  | BadProxy string proxy_error
  | PasswordTooLong
  | PublicPlaintext
  | PlaintextUDP
  | NoLetsEncrypt
  | TLSIncomplete
  | LoadFailed

fun bad_proxy :: "string list \<Rightarrow> config_error option" where
  "bad_proxy [] = None"
| "bad_proxy (raw # rest) =
     (case ParseTrustedProxy raw of Inl e \<Rightarrow> Some (BadProxy raw e) | Inr _ \<Rightarrow> bad_proxy rest)"

definition or_default :: "int \<Rightarrow> int \<Rightarrow> int" where
  "or_default d n = (if n \<le> 0 then d else n)"

definition rate_defaults :: "RateLimitCfg \<Rightarrow> RateLimitCfg" where
  "rate_defaults c =
     (let d = RateLimit Default in
      \<lparr>HelloPerIPPerMinute_cfg = or_default (HelloPerIPPerMinute_cfg d) (HelloPerIPPerMinute_cfg c),
       RoomCreatePerPeerPerMinute_cfg =
         or_default (RoomCreatePerPeerPerMinute_cfg d) (RoomCreatePerPeerPerMinute_cfg c),
       RoomJoinPerPeerPerMinute_cfg =
         or_default (RoomJoinPerPeerPerMinute_cfg d) (RoomJoinPerPeerPerMinute_cfg c),
       RoomListPerPeerPerMinute_cfg =
         or_default (RoomListPerPeerPerMinute_cfg d) (RoomListPerPeerPerMinute_cfg c),
       ControlPerPeerPerMinute_cfg =
         or_default (ControlPerPeerPerMinute_cfg d) (ControlPerPeerPerMinute_cfg c),
       AudioFramesPerPeerPerSec_cfg =
         or_default (AudioFramesPerPeerPerSec_cfg d) (AudioFramesPerPeerPerSec_cfg c),
       PasswordChecksConcurrent_cfg =
         or_default (PasswordChecksConcurrent_cfg d) (PasswordChecksConcurrent_cfg c)\<rparr>)"

text \<open>
  \<open>validate\<close> repairs what has a default as it goes, through its pointer: the configuration it
  leaves behind is part of its result also when it fails.
\<close>

definition validate_rest :: "Config \<Rightarrow> Config \<times> config_error option" where
  "validate_rest c =
     (let c = c\<lparr>Log := if Level (Log c) \<in> {''debug'', ''info'', ''warn'', ''error''} then Log c
                       else (Log c)\<lparr>Level := ''info''\<rparr>\<rparr>
      in if AutoLetsEncrypt (TLS c) then (c, Some NoLetsEncrypt)
         else if Enabled (TLS c) \<and> (CertFile (TLS c) = '''' \<or> KeyFile (TLS c) = '''')
         then (c, Some TLSIncomplete)
         else (c\<lparr>RateLimit := rate_defaults (RateLimit c)\<rparr>, None))"

definition validate_access :: "Config \<Rightarrow> Config \<times> config_error option" where
  "validate_access c =
     (case bad_proxy (TrustedProxies (Server c)) of
        Some e \<Rightarrow> (c, Some e)
      | None \<Rightarrow>
          if MaxPasswordBytes < length (Password_cfg (Server c)) then (c, Some PasswordTooLong)
          else if \<not> Enabled (TLS c) \<and> \<not> AllowInsecurePublic (Server c) \<and> \<not> isLoopbackListen (Listen_cfg (Server c))
          then (c, Some PublicPlaintext)
          else if UdpListen (Server c) \<noteq> '''' \<and> \<not> AllowInsecureUDP (Server c) then (c, Some PlaintextUDP)
          else validate_rest c)"

definition validate :: "Config \<Rightarrow> Config \<times> config_error option" where
  "validate c =
     (if Listen_cfg (Server c) = '''' then (c, Some ListenEmpty)
      else case HealthURL (HealthListen (Server c)) of
          Inl _ \<Rightarrow> (c, Some HealthNotExplicit)
        | Inr _ \<Rightarrow>
            let c = c\<lparr>Server := (Server c)\<lparr>MaxRooms_cfg := or_default 50 (MaxRooms_cfg (Server c))\<rparr>\<rparr>
            in if MaxPeersPerRoom_cfg (Server c) < 1 \<or> MaxPeersPerRoom < MaxPeersPerRoom_cfg (Server c)
               then (c, Some PeersOutOfRange)
               else validate_access
                 (c\<lparr>Server := (Server c)\<lparr>MaxConnections_cfg := or_default 200 (MaxConnections_cfg (Server c))\<rparr>\<rparr>))"

text \<open>\<open>missing\<close> is \<open>os.Stat\<close> reporting that the file does not exist; \<open>decode\<close> is \<open>toml.DecodeFile\<close>.\<close>

definition Load :: "(string \<Rightarrow> bool) \<Rightarrow> (string \<Rightarrow> Config \<Rightarrow> Config \<times> bool) \<Rightarrow> string \<Rightarrow> Config \<times> config_error option" where
  "Load missing decode path =
     (if path = '''' \<or> missing path then (Default, None)
      else case decode path Default of
          (c, False) \<Rightarrow> (c, Some LoadFailed)
        | (c, True) \<Rightarrow> validate c)"

section \<open>What a validated configuration promises\<close>


lemma bad_proxy_None: "bad_proxy ps = None \<longleftrightarrow> (\<forall>p \<in> set ps. \<exists>q. ParseTrustedProxy p = Inr q)"
  by (induction ps) (auto split: sum.splits)

definition rates_safe :: "RateLimitCfg \<Rightarrow> bool" where
  "rates_safe r \<longleftrightarrow>
     0 < HelloPerIPPerMinute_cfg r \<and> 0 < RoomCreatePerPeerPerMinute_cfg r \<and>
     0 < RoomJoinPerPeerPerMinute_cfg r \<and> 0 < RoomListPerPeerPerMinute_cfg r \<and>
     0 < ControlPerPeerPerMinute_cfg r \<and> 0 < AudioFramesPerPeerPerSec_cfg r \<and>
     0 < PasswordChecksConcurrent_cfg r"

definition rest_safe :: "Config \<Rightarrow> bool" where
  "rest_safe c \<longleftrightarrow>
     Level (Log c) \<in> {''debug'', ''info'', ''warn'', ''error''} \<and> \<not> AutoLetsEncrypt (TLS c) \<and>
     (Enabled (TLS c) \<longrightarrow> CertFile (TLS c) \<noteq> '''' \<and> KeyFile (TLS c) \<noteq> '''') \<and> rates_safe (RateLimit c)"

definition access_safe :: "Config \<Rightarrow> bool" where
  "access_safe c \<longleftrightarrow>
     (\<forall>p \<in> set (TrustedProxies (Server c)). \<exists>q. ParseTrustedProxy p = Inr q) \<and>
     length (Password_cfg (Server c)) \<le> MaxPasswordBytes \<and>
     (Enabled (TLS c) \<or> AllowInsecurePublic (Server c) \<or> isLoopbackListen (Listen_cfg (Server c))) \<and>
     (UdpListen (Server c) = '''' \<or> AllowInsecureUDP (Server c))"

definition config_safe :: "Config \<Rightarrow> bool" where
  "config_safe c \<longleftrightarrow>
     Listen_cfg (Server c) \<noteq> '''' \<and> (\<exists>u. HealthURL (HealthListen (Server c)) = Inr u) \<and>
     0 < MaxRooms_cfg (Server c) \<and> 0 < MaxConnections_cfg (Server c) \<and>
     1 \<le> MaxPeersPerRoom_cfg (Server c) \<and> MaxPeersPerRoom_cfg (Server c) \<le> MaxPeersPerRoom \<and>
     access_safe c \<and> rest_safe c"

text \<open>The steps of \<open>validate\<close>, from the last to the first.\<close>

lemma or_default_pos: "0 < d \<Longrightarrow> 0 < or_default d n"
  by (simp add: or_default_def)

lemma or_default_same: "0 < n \<Longrightarrow> or_default d n = n"
  by (simp add: or_default_def)

lemma rate_defaults_safe: "rates_safe (rate_defaults r)"
  by (simp add: rates_safe_def rate_defaults_def Default_def or_default_pos)

lemma rate_defaults_same: "rates_safe r \<Longrightarrow> rate_defaults r = r"
  by (simp add: rates_safe_def rate_defaults_def or_default_same)

lemma validate_rest_ok:
  "validate_rest c = (c', None) \<Longrightarrow> rest_safe c' \<and> Server c' = Server c \<and> TLS c' = TLS c"
  by (auto simp: validate_rest_def rest_safe_def rate_defaults_safe Let_def split: if_splits)

lemma validate_rest_same: "rest_safe c \<Longrightarrow> validate_rest c = (c, None)"
  by (auto simp: validate_rest_def rest_safe_def rate_defaults_same Let_def)

lemma access_safe_cong: "Server c = Server d \<Longrightarrow> TLS c = TLS d \<Longrightarrow> access_safe c \<Longrightarrow> access_safe d"
  by (simp add: access_safe_def)

lemma validate_access_ok:
  assumes "validate_access c = (c', None)"
  shows "access_safe c' \<and> rest_safe c' \<and> Server c' = Server c \<and> TLS c' = TLS c"
proof -
  from assms have a: "access_safe c" and r: "validate_rest c = (c', None)"
    by (auto simp: validate_access_def access_safe_def bad_proxy_None [symmetric] split: option.splits if_splits)
  with validate_rest_ok [OF r] show ?thesis
    using access_safe_cong [of c c'] by simp
qed

lemma validate_access_same: "access_safe c \<Longrightarrow> rest_safe c \<Longrightarrow> validate_access c = (c, None)"
  by (auto simp: validate_access_def access_safe_def bad_proxy_None [THEN iffD2] validate_rest_same
      split: option.splits)

lemma validate_ok:
  assumes "validate c = (c', None)"
  shows "config_safe c'"
proof -
  let ?s = "(Server c)\<lparr>MaxRooms_cfg := or_default 50 (MaxRooms_cfg (Server c)),
                       MaxConnections_cfg := or_default 200 (MaxConnections_cfg (Server c))\<rparr>"
  from assms have g: "Listen_cfg (Server c) \<noteq> ''''" "\<exists>u. HealthURL (HealthListen (Server c)) = Inr u"
    "1 \<le> MaxPeersPerRoom_cfg (Server c)" "MaxPeersPerRoom_cfg (Server c) \<le> MaxPeersPerRoom"
    and a: "validate_access (c\<lparr>Server := ?s\<rparr>) = (c', None)"
    by (auto simp: validate_def Let_def split: sum.splits if_splits)
  from validate_access_ok [OF a] g show ?thesis
    by (simp add: config_safe_def or_default_pos)
qed

lemma validate_same: "config_safe c \<Longrightarrow> validate c = (c, None)"
  by (auto simp: config_safe_def validate_def or_default_same validate_access_same Let_def)

section \<open>Properties of the configuration\<close>

lemma loopback_v4: "v ! 0 = 127 \<Longrightarrow> length v = 4 \<Longrightarrow> IsLoopback (v4InV6Prefix @ v)"
  by (simp add: IsLoopback_def)

lemma loopback_v6: "IsLoopback IPv6loopback"
proof -
  have "take 12 IPv6loopback = replicate 12 0"
    by (simp add: IPv6loopback_def)
  moreover have "last v4InV6Prefix \<noteq> last (replicate 12 0 :: byte list)"
    by (simp add: v4InV6Prefix_def)
  ultimately have "take 12 IPv6loopback \<noteq> v4InV6Prefix"
    by metis
  then show ?thesis
    by (simp add: IsLoopback_def To4_def) (simp add: IPv6loopback_def)
qed

lemma Default_health: "\<exists>u. HealthURL ''127.0.0.1:18901'' = Inr u"
  by (simp add: HealthURL_def text_eval loopback_v4)

lemma Default_loopback: "isLoopbackListen ''127.0.0.1:18900''"
proof -
  have "\<not> EqualFold ''127.0.0.1'' ''localhost''"
    by (rule notI, drule EqualFold_hd) (simp_all add: lower_byte_def)
  then show ?thesis
    by (simp add: isLoopbackListen_def text_eval loopback_v4 del: EqualFold.simps)
qed

lemma Default_safe: "config_safe Default"
  using Default_health Default_loopback
  by (auto simp: config_safe_def access_safe_def rest_safe_def rates_safe_def Default_def MaxPeersPerRoom_def)

text \<open>
  C37. Whatever the file says, a configuration that \<open>Load\<close> returns without an error is safe:
  listeners are set and the health listener is an explicit loopback, capacities and rate limits
  are positive, rooms hold at most eight peers, passwords fit bcrypt, every trusted proxy parses,
  and neither public plaintext WebSocket nor plaintext UDP is on unless the operator opted in.
  Loading is stable: validating the result again changes nothing.
\<close>

theorem loaded_config_is_safe:
  assumes "Load missing decode path = (c, None)"
  shows "config_safe c \<and> validate c = (c, None)"
proof -
  have "config_safe c"
    using assms Default_safe by (auto simp: Load_def validate_ok split: if_splits prod.splits bool.splits)
  then show ?thesis
    by (simp add: validate_same)
qed

theorem loaded_config_is_safe_witness:
  "config_safe Default \<and> validate Default = (Default, None)"
  by (rule loaded_config_is_safe [of "\<lambda>_. True" "\<lambda>p c. (c, False)" "''config.toml''"]) (simp add: Load_def)

lemma dots_chars: "(\<forall>x \<in> set xs. set x \<subseteq> A) \<Longrightarrow> set (intersperse_dots xs) \<subseteq> insert CHR ''.'' A"
  by (induction xs rule: intersperse_dots.induct) auto

lemma dotted_chars: "set (string4 bs) \<subseteq> insert CHR ''.'' {c. is_digit c}"
  unfolding string4_def using digits_of_digits by (intro dots_chars) (auto simp: list_all_iff)

lemma string4_head: "length v = 4 \<Longrightarrow> string4 v = digits_of (unat (v ! 0)) @ ''.'' @ string4 (tl v)"
  by (cases v; cases "tl v") (auto simp: string4_def)

lemma loopback_text:
  assumes "length ip = 16" "IsLoopback ip"
  shows "(HasPrefix (IP_String ip) ''127.'' \<and> set (IP_String ip) \<subseteq> insert CHR ''.'' {c. is_digit c}) \<or>
    IP_String ip = ''::1''"
proof (cases "To4 ip")
  case None
  with assms have "ip = IPv6loopback"
    by (auto simp: IsLoopback_def IP_Equal_def IPv6loopback_def)
  moreover have "IP_String IPv6loopback = ''::1''"
    by code_simp
  ultimately show ?thesis
    by simp
next
  case (Some v)
  then have v: "length v = 4" "v ! 0 = 127"
    using To4_shape [of ip v] assms by (auto simp: IsLoopback_def)
  have "digits_of 127 = ''127''"
    by code_simp
  with v have "string4 v = ''127.'' @ string4 (tl v)"
    by (simp add: string4_head)
  moreover have "IP_String ip = string4 v"
    using IP_String_v4 [OF Some] by (simp add: string4_def)
  ultimately show ?thesis
    using dotted_chars [of v] by (simp add: HasPrefix_def)
qed

text \<open>
  The URL the updater probes has a fixed scheme and path, its host is a literal of
  \<open>127.0.0.0/8\<close> or \<open>[::1]\<close>, its port is a plain number from 1 to 65535, and the authority has no
  byte outside digits, dots, colons and brackets, whatever the configured text was.
\<close>

lemma health_url_is_loopback:
  assumes "HealthURL listen = Inr u"
  shows "\<exists>host port. u = ''http://'' @ host @ '':'' @ digits_of port @ ''/healthz'' \<and>
    1 \<le> port \<and> port \<le> 65535 \<and>
    (host = ''[::1]'' \<or> HasPrefix host ''127.'' \<and> set host \<subseteq> insert CHR ''.'' {c. is_digit c})"
proof -
  from assms obtain h p ip n where ip: "ParseIP (Trim h ''[]'') = Some ip" "IsLoopback ip"
    and n: "1 \<le> n" "n \<le> 65535"
    and u: "u = ''http://'' @ JoinHostPort (IP_String ip) (show_int n) @ ''/healthz''"
    by (auto simp: HealthURL_def not_less simp del: append_Cons append_Nil split: option.splits prod.splits if_splits)
  have "show_int n = digits_of (nat n)"
    using n by (simp add: show_int_def)
  moreover have "JoinHostPort ''::1'' x = ''[::1]:'' @ x" for x
    by (simp add: JoinHostPort_def)
  moreover have "JoinHostPort s x = s @ '':'' @ x" if "set s \<subseteq> insert CHR ''.'' {c. is_digit c}" for s x
    using that by (auto simp: JoinHostPort_def is_digit_def)
  ultimately show ?thesis
    using loopback_text [OF ParseIP_length [OF ip(1)] ip(2)] n u
    by (elim disjE) (rule exI [of _ "IP_String ip"] exI [of _ "''[::1]''"], rule exI [of _ "nat n"], force)+
qed

lemma v6_one: "v6_loop ''1'' [] (Some 0) = Some (replicate 14 0 @ [0, 1])"
proof -
  have "hex_digit CHR ''1'' = Some 1"
    by (simp add: hex_digit_def)
  then show ?thesis
    by (subst v6_loop.simps) (simp add: Let_def v6_finish_def hex_value_def)
qed

lemma parse_one: "ParseIP ''::1'' = Some IPv6loopback"
proof -
  have "replicate 14 0 @ [0, 1] = IPv6loopback"
    by (simp add: IPv6loopback_def numeral_eq_Suc)
  then have "parse_v6 ''::1'' = Some (Addr6 IPv6loopback '''')"
    by (simp add: parse_v6_def IndexByte_def HasPrefix_def v6_one)
  then show ?thesis
    by (simp add: ParseIP_def ParseAddr_def)
qed

lemma health_url_is_loopback_instance:
  "\<exists>u. HealthURL ''[::1]:08080'' = Inr u \<and>
    (\<exists>host port. u = ''http://'' @ host @ '':'' @ digits_of port @ ''/healthz'' \<and> 1 \<le> port \<and> port \<le> 65535)"
proof -
  have "\<exists>u. HealthURL ''[::1]:08080'' = Inr u"
    by (simp add: HealthURL_def SplitHostPort_def LastIndexByte_def IndexByte_def Trim_def parse_one loopback_v6
        Atoi_def is_digit_def dec_value_def)
  then show ?thesis
    using health_url_is_loopback by blast
qed

text \<open>
  An accepted trusted proxy is a proper prefix in canonical form: it has no zone, it is masked,
  and some address of its own family is outside it, so no entry trusts everybody; an entry
  that is a single address trusts exactly that address.
\<close>

lemma trusted_proxy_is_proper:
  assumes "ParseTrustedProxy raw = Inr p"
  shows "Masked p = p \<and> addr_zone (pfx_addr p) = '''' \<and>
    (\<exists>a. addr_wf a \<and> Is4 a = Is4 (pfx_addr p) \<and> \<not> Contains p a) \<and>
    (\<forall>b. ParseAddr (TrimSpace raw) = Some b \<longrightarrow> {a. addr_wf a \<and> Contains p a} = {b})"
proof (cases "ParseAddr (TrimSpace raw)")
  case (Some b)
  with assms have p: "p = \<lparr>pfx_addr = Unmap b, pfx_bits = BitLen (Unmap b)\<rparr>"
    and b: "addr_zone b = ''''" "\<not> Is4In6 b"
    by (auto simp: ParseTrustedProxy_def Let_def split: if_splits)
  have wf: "addr_wf b"
    using ParseAddr_wf [OF Some] .
  from b have u: "Unmap b = b"
    by (simp add: Unmap_def)
  have "Masked p = p"
    using wf unfolding p u by (cases b) (auto simp: Masked_def BitLen_def with_bytes_def Let_def)
  moreover have "\<exists>a. addr_wf a \<and> Is4 a = Is4 (pfx_addr p) \<and> \<not> Contains p a"
    using wf by (intro prefix_is_proper) (simp_all add: p u BitLen_def)
  moreover have "{a. addr_wf a \<and> Contains p a} = {b}"
    using Contains_full [of _ p] wf b by (auto simp: p u)
  ultimately show ?thesis
    using Some b by (simp add: p u)
next
  case None
  with assms obtain q where q: "ParsePrefix (TrimSpace raw) = Some q" "0 < pfx_bits q" and p: "p = Masked q"
    by (auto simp: ParseTrustedProxy_def Let_def split: if_splits option.splits)
  show ?thesis
    using ParsePrefix_wf [OF q(1)] q(2) prefix_is_proper [of q] None
    by (simp add: p Masked_Masked Contains_Masked)
qed

lemma ten_masked:
  "Masked \<lparr>pfx_addr = Addr4 [10, 1, 2, 3], pfx_bits = 8\<rparr> = \<lparr>pfx_addr = Addr4 [10, 0, 0, 0], pfx_bits = 8\<rparr>"
  by (simp add: Masked_def BitLen_def be_value_def be_bytes_def with_bytes_def upt_rec)

lemma trusted_proxy_is_proper_instance:
  "\<exists>a. addr_wf a \<and> \<not> Contains \<lparr>pfx_addr = Addr4 [10, 0, 0, 0], pfx_bits = 8\<rparr> a"
proof -
  have "ParseTrustedProxy ''10.1.2.3/8'' = Inr \<lparr>pfx_addr = Addr4 [10, 0, 0, 0], pfx_bits = 8\<rparr>"
    by (simp add: ParseTrustedProxy_def TrimSpace_graphic graphic_def ParsePrefix_def text_eval ten_masked
        BitLen_def IsMulticast_def Unmap_def)
  from trusted_proxy_is_proper [OF this] show ?thesis
    by blast
qed

end
