(* ===== verification/Client_Ip.thy ===== *)
theory Client_Ip
  imports Netip
begin

text \<open>
  \<open>internal/ws/client_ip.go\<close>: the identity under which a client is rate limited.  The two
  forwarding headers are read only behind a trusted proxy, from the nearest hop outwards.
\<close>

section \<open>Values and quotes\<close>

abbreviation quote_char :: char where
  "quote_char \<equiv> CHR 0x22"

abbreviation backslash :: char where
  "backslash \<equiv> CHR 0x5C"

definition validPort :: "string \<Rightarrow> bool" where
  "validPort port = (case ParseUint 16 port of Some n \<Rightarrow> 0 < n | None \<Rightarrow> False)"

definition validOptionalPort :: "string \<Rightarrow> bool" where
  "validOptionalPort rest = (rest = '''' \<or> HasPrefix rest '':'' \<and> validPort (drop 1 rest))"

fun unquote_loop :: "string \<Rightarrow> string option" where
  "unquote_loop [] = Some []"
| "unquote_loop (c # s) =
     (if c = backslash then
        (case s of
           [] \<Rightarrow> None
         | d # s \<Rightarrow> if code d < 0x20 \<or> code d = 0x7F then None else map_option ((#) d) (unquote_loop s))
      else if c = quote_char then None
      else if code c < 0x20 \<or> code c = 0x7F then None
      else map_option ((#) c) (unquote_loop s))"

definition unquoteForwardedValue :: "string \<Rightarrow> string option" where
  "unquoteForwardedValue v =
     (if \<not> HasPrefix v [quote_char] then
        (if quote_char \<in> set v \<or> backslash \<in> set v then None else Some v)
      else if length v < 2 \<or> last v \<noteq> quote_char then None
      else unquote_loop (butlast (tl v)))"

text \<open>
  The loop of \<open>splitOutsideQuotes\<close>: \<open>cur\<close> is \<open>value[start:i]\<close>, and the result is what is appended
  to \<open>parts\<close> from here on.
\<close>

fun split_loop :: "char \<Rightarrow> string \<Rightarrow> bool \<Rightarrow> bool \<Rightarrow> string \<Rightarrow> string list option" where
  "split_loop sep cur quoted escaped [] =
     (if quoted \<or> escaped \<or> TrimSpace cur = '''' then None else Some [TrimSpace cur])"
| "split_loop sep cur quoted escaped (c # s) =
     (if escaped then split_loop sep (cur @ [c]) quoted False s
      else if quoted \<and> c = backslash then split_loop sep (cur @ [c]) quoted True s
      else if c = quote_char then split_loop sep (cur @ [c]) (\<not> quoted) False s
      else if c = sep \<and> \<not> quoted then
        (if TrimSpace cur = '''' then None
         else map_option ((#) (TrimSpace cur)) (split_loop sep [] quoted False s))
      else split_loop sep (cur @ [c]) quoted False s)"

definition splitOutsideQuotes :: "string \<Rightarrow> char \<Rightarrow> string list option" where
  "splitOutsideQuotes v sep = split_loop sep [] False False v"

section \<open>Forwarding headers\<close>

definition is_unknown :: "string \<Rightarrow> bool" where
  "is_unknown text = EqualFold text ''unknown''"

definition parseForwardedNode :: "string \<Rightarrow> Addr option" where
  "parseForwardedNode text =
     (let text = TrimSpace text
      in if text = '''' \<or> is_unknown text \<or> HasPrefix text ''_'' \<or> CHR ''%'' \<in> set text then None
         else case ParseAddr text of
           Some a \<Rightarrow> if addr_zone a = '''' then Some (Unmap a) else None
         | None \<Rightarrow>
             if HasPrefix text ''['' then
               (case IndexByte text CHR '']'' of
                  None \<Rightarrow> None
                | Some e \<Rightarrow>
                    (case ParseAddr (drop 1 (take e text)) of
                       None \<Rightarrow> None
                     | Some a \<Rightarrow>
                         if addr_zone a \<noteq> '''' \<or> \<not> validOptionalPort (drop (Suc e) text) then None
                         else Some (Unmap a)))
             else
               (case SplitHostPort text of
                  None \<Rightarrow> None
                | Some (host, port) \<Rightarrow>
                    if \<not> validPort port then None
                    else (case ParseAddr host of
                            None \<Rightarrow> None
                          | Some a \<Rightarrow> if addr_zone a \<noteq> '''' then None else Some (Unmap a))))"

definition is_for :: "string \<Rightarrow> bool" where
  "is_for key = EqualFold key ''for''"

text \<open>The inner loop of \<open>parseForwarded\<close>; \<open>found\<close> is the address it has appended for this element.\<close>

fun forwarded_params :: "string list \<Rightarrow> Addr option \<Rightarrow> Addr option" where
  "forwarded_params [] found = found"
| "forwarded_params (param # rest) found =
     (case Cut param CHR ''='' of
        None \<Rightarrow> None
      | Some (key, v) \<Rightarrow>
          if TrimSpace key = '''' then None
          else if \<not> is_for (TrimSpace key) then forwarded_params rest found
          else if found \<noteq> None then None
          else (case unquoteForwardedValue (TrimSpace v) of
                  None \<Rightarrow> None
                | Some text \<Rightarrow>
                    (case parseForwardedNode text of
                       None \<Rightarrow> None
                     | Some a \<Rightarrow> forwarded_params rest (Some a))))"

fun forwarded_elements :: "string list \<Rightarrow> Addr list option" where
  "forwarded_elements [] = Some []"
| "forwarded_elements (element # rest) =
     (case splitOutsideQuotes element CHR '';'' of
        None \<Rightarrow> None
      | Some params \<Rightarrow>
          (case forwarded_params params None of
             None \<Rightarrow> None
           | Some a \<Rightarrow> map_option ((#) a) (forwarded_elements rest)))"

definition parseForwarded :: "string list \<Rightarrow> Addr list option" where
  "parseForwarded values =
     (case splitOutsideQuotes (Join values '','') CHR '','' of
        None \<Rightarrow> None
      | Some elements \<Rightarrow> if elements = [] then None else forwarded_elements elements)"

fun xff_parts :: "string list \<Rightarrow> Addr list option" where
  "xff_parts [] = Some []"
| "xff_parts (part # rest) =
     (case parseForwardedNode (TrimSpace part) of
        None \<Rightarrow> None
      | Some a \<Rightarrow> map_option ((#) a) (xff_parts rest))"

definition parseXForwardedFor :: "string list \<Rightarrow> Addr list option" where
  "parseXForwardedFor values =
     (case xff_parts (Split CHR '','' (Join values '','')) of
        None \<Rightarrow> None
      | Some chain \<Rightarrow> if chain = [] then None else Some chain)"

section \<open>The client's identity\<close>

text \<open>What \<open>clientIP\<close> reads of an \<open>http.Request\<close>.\<close>

record request =
  RemoteAddr :: string
  Forwarded :: "string list"
  XForwardedFor :: "string list"

definition isTrustedProxy :: "netip_prefix list \<Rightarrow> Addr \<Rightarrow> bool" where
  "isTrustedProxy prefixes a = list_ex (\<lambda>p. Contains p (Unmap a)) prefixes"

definition parseRemoteIP :: "string \<Rightarrow> Addr option" where
  "parseRemoteIP remote =
     (let host = (case SplitHostPort remote of None \<Rightarrow> remote | Some (host, _) \<Rightarrow> host)
      in case ParseAddr (Trim host ''[]'') of
           None \<Rightarrow> None
         | Some a \<Rightarrow> if addr_zone a \<noteq> '''' then None else Some (Unmap a))"

text \<open>The walk from the nearest hop to the origin.\<close>

definition nearest_untrusted :: "netip_prefix list \<Rightarrow> Addr list \<Rightarrow> Addr" where
  "nearest_untrusted prefixes chain =
     (case find (\<lambda>a. \<not> isTrustedProxy prefixes a) (rev chain) of
        Some a \<Rightarrow> a
      | None \<Rightarrow> hd chain)"

definition forwarded_chain :: "request \<Rightarrow> Addr list option" where
  "forwarded_chain r =
     (if Forwarded r \<noteq> [] then parseForwarded (Forwarded r)
      else if XForwardedFor r \<noteq> [] then parseXForwardedFor (XForwardedFor r)
      else None)"

definition clientIP :: "netip_prefix list \<Rightarrow> request \<Rightarrow> string" where
  "clientIP prefixes r =
     (case parseRemoteIP (RemoteAddr r) of
        None \<Rightarrow> RemoteAddr r
      | Some direct \<Rightarrow>
          if \<not> isTrustedProxy prefixes direct then Addr_String direct
          else case forwarded_chain r of
              None \<Rightarrow> Addr_String direct
            | Some chain \<Rightarrow>
                if chain = [] then Addr_String direct
                else Addr_String (nearest_untrusted prefixes chain))"

section \<open>Splitting and quoting\<close>

text \<open>What splitting means when there are no quotes.\<close>

definition trimmed :: "string list \<Rightarrow> string list option" where
  "trimmed ps = (if '''' \<in> set (map TrimSpace ps) then None else Some (map TrimSpace ps))"

lemma trimmed_Cons:
  "trimmed (p # ps) = (if TrimSpace p = '''' then None else map_option ((#) (TrimSpace p)) (trimmed ps))"
  by (auto simp: trimmed_def)

lemma split_loop_plain:
  assumes "sep \<noteq> quote_char"
  shows "quote_char \<notin> set s \<Longrightarrow>
    split_loop sep cur False False s = trimmed ((cur @ hd (Split sep s)) # tl (Split sep s))"
proof (induction s arbitrary: cur)
  case (Cons c s)
  obtain p ps where "Split sep s = p # ps"
    by (cases "Split sep s") auto
  with Cons show ?case
    by (auto simp: trimmed_Cons)
qed (simp add: trimmed_def)

lemma split_plain:
  "sep \<noteq> quote_char \<Longrightarrow> quote_char \<notin> set v \<Longrightarrow> splitOutsideQuotes v sep = trimmed (Split sep v)"
  by (simp add: splitOutsideQuotes_def split_loop_plain)

lemma split_loop_unbalanced:
  "backslash \<notin> set t \<Longrightarrow> quoted \<noteq> odd (count_list t quote_char) \<Longrightarrow> split_loop sep cur quoted False t = None"
  by (induction t arbitrary: cur quoted) (auto split: if_splits)

text \<open>
  What follows a separator has its quotes balanced: then a prefix that leaves a quote open makes
  the whole value invalid, and a prefix that does not is split on its own.
\<close>

lemma split_loop_append:
  assumes "backslash \<notin> set t" "even (count_list t quote_char)" "sep \<noteq> quote_char" "sep \<noteq> backslash"
  shows "(escaped \<longrightarrow> quoted) \<Longrightarrow> split_loop sep cur quoted escaped (s @ sep # t) =
    (case split_loop sep cur quoted escaped s of
       None \<Rightarrow> None
     | Some ps \<Rightarrow> map_option ((@) ps) (splitOutsideQuotes t sep))"
  using assms
proof (induction s arbitrary: cur quoted escaped)
  case Nil
  then show ?case
    by (cases quoted) (auto simp: splitOutsideQuotes_def split_loop_unbalanced option.map_comp comp_def
        cong: map_option_cong)
next
  case (Cons c s)
  note IH = Cons.IH [OF _ assms]
  have push: "(@) (p # ps) = (\<lambda>qs. p # ps @ qs)" for p :: string and ps
    by (simp add: fun_eq_iff)
  consider "escaped" | "\<not> escaped" "quoted" "c = backslash" | "\<not> escaped" "\<not> (quoted \<and> c = backslash)" "c = quote_char"
    | "\<not> escaped" "\<not> (quoted \<and> c = backslash)" "c \<noteq> quote_char" "c = sep" "\<not> quoted"
    | "\<not> escaped" "\<not> (quoted \<and> c = backslash)" "c \<noteq> quote_char" "\<not> (c = sep \<and> \<not> quoted)"
    by blast
  then show ?case
    using Cons.prems by cases (auto simp: IH push option.map_comp comp_def split: option.splits)
qed

lemma splitOutsideQuotes_append:
  "backslash \<notin> set t \<Longrightarrow> even (count_list t quote_char) \<Longrightarrow> sep \<noteq> quote_char \<Longrightarrow> sep \<noteq> backslash \<Longrightarrow>
    splitOutsideQuotes (s @ sep # t) sep =
      (case splitOutsideQuotes s sep of None \<Rightarrow> None | Some ps \<Rightarrow> map_option ((@) ps) (splitOutsideQuotes t sep))"
  by (simp add: split_loop_append splitOutsideQuotes_def [of "s @ sep # t"] splitOutsideQuotes_def [of s])

lemma split_loop_skip:
  "sep \<notin> set s \<Longrightarrow> quote_char \<notin> set s \<Longrightarrow>
    split_loop sep cur False False (s @ t) = split_loop sep (cur @ s) False False t"
  by (induction s arbitrary: cur) auto

lemma split_loop_inside:
  "backslash \<notin> set s \<Longrightarrow> quote_char \<notin> set s \<Longrightarrow>
    split_loop sep cur True False (s @ t) = split_loop sep (cur @ s) True False t"
  by (induction s arbitrary: cur) auto

lemma unquote_loop_plain:
  "list_all (\<lambda>c. 0x20 \<le> code c \<and> code c \<noteq> 0x7F) s \<Longrightarrow> backslash \<notin> set s \<Longrightarrow> quote_char \<notin> set s \<Longrightarrow> unquote_loop s = Some s"
  by (induction s) auto

section \<open>Forwarded elements as proxies write them\<close>

text \<open>
  A parameter is a key, whether its value is quoted, and the value; an element is a list of
  parameters, written after any number of spaces.  An element a proxy appends has exactly one
  \<open>for\<close> parameter, any others (\<open>proto\<close>, \<open>by\<close>, \<open>host\<close>) around it, and no backslash; what is quoted
  may hold separators, as in \<open>for="[2001:db8::1]:4711";proto=https\<close>.
\<close>

type_synonym param = "string \<times> bool \<times> string"

definition value_text :: "bool \<Rightarrow> string \<Rightarrow> string" where
  "value_text quoted v = (if quoted then [quote_char] @ v @ [quote_char] else v)"

definition write_param :: "param \<Rightarrow> string" where
  "write_param p = (case p of (key, quoted, v) \<Rightarrow> key @ ''='' @ value_text quoted v)"

definition write_element :: "nat \<times> param list \<Rightarrow> string" where
  "write_element e = replicate (fst e) CHR '' '' @ Join (map write_param (snd e)) '';''"

definition ends_graphic :: "string \<Rightarrow> bool" where
  "ends_graphic s \<longleftrightarrow> s \<noteq> [] \<and> graphic (hd s) \<and> graphic (last s)"

definition plain_param :: "param \<Rightarrow> bool" where
  "plain_param p \<longleftrightarrow>
     (case p of (key, quoted, v) \<Rightarrow>
        ends_graphic key \<and> set key \<inter> {CHR '','', CHR '';'', CHR ''='', quote_char, backslash} = {} \<and>
        set v \<inter> {quote_char, backslash} = {} \<and>
        (if quoted then list_all (\<lambda>c. 0x20 \<le> code c \<and> code c \<noteq> 0x7F) v
         else ends_graphic v \<and> set v \<inter> {CHR '','', CHR '';''} = {}))"

definition for_params :: "nat \<times> param list \<Rightarrow> param list" where
  "for_params e = filter (\<lambda>p. is_for (fst p)) (snd e)"

definition plain_element :: "nat \<times> param list \<Rightarrow> bool" where
  "plain_element e \<longleftrightarrow> list_all plain_param (snd e) \<and> length (for_params e) = 1"

definition element_node :: "nat \<times> param list \<Rightarrow> string" where
  "element_node e = snd (snd (hd (for_params e)))"

lemma ends_graphic_trim: "ends_graphic s \<Longrightarrow> TrimSpace s = s"
  by (simp add: ends_graphic_def TrimSpace_graphic)

lemma ends_graphic_append: "ends_graphic a \<Longrightarrow> ends_graphic b \<Longrightarrow> ends_graphic (a @ m @ b)"
  by (simp add: ends_graphic_def)

lemma value_text_ends:
  "plain_param (key, quoted, v) \<Longrightarrow> ends_graphic (value_text quoted v)"
  by (auto simp: plain_param_def value_text_def ends_graphic_def graphic_def)

lemma write_param_ends: "plain_param p \<Longrightarrow> ends_graphic (write_param p)"
  using value_text_ends
  by (cases p) (auto simp: write_param_def plain_param_def intro: ends_graphic_append [of _ _ "''=''", simplified])

lemma Cut_at: "c \<notin> set k \<Longrightarrow> Cut (k @ c # v) c = Some (k, v)"
proof -
  assume "c \<notin> set k"
  then have "takeWhile (\<lambda>x. x \<noteq> c) (k @ c # v) = k"
    by (induction k) auto
  then show ?thesis
    by (simp add: Cut_def IndexByte_def)
qed

lemma unquote_value: "plain_param (key, quoted, v) \<Longrightarrow> unquoteForwardedValue (value_text quoted v) = Some v"
proof -
  assume p: "plain_param (key, quoted, v)"
  then have "quote_char \<notin> set v" "backslash \<notin> set v"
    by (auto simp: plain_param_def)
  moreover from this have "\<not> HasPrefix v [quote_char]"
    by (metis HasPrefix_hd hd_in_set list.sel(1) not_Cons_self2)
  ultimately show ?thesis
    using p by (auto simp: unquoteForwardedValue_def value_text_def plain_param_def HasPrefix_def unquote_loop_plain)
qed

lemma params_step:
  "plain_param (key, quoted, v) \<Longrightarrow> forwarded_params (write_param (key, quoted, v) # ps) found =
    (if \<not> is_for key then forwarded_params ps found
     else if found \<noteq> None then None
     else (case parseForwardedNode v of None \<Rightarrow> None | Some a \<Rightarrow> forwarded_params ps (Some a)))"
proof -
  assume p: "plain_param (key, quoted, v)"
  then have k: "CHR ''='' \<notin> set key" "TrimSpace key = key" "key \<noteq> []"
    by (auto simp: plain_param_def ends_graphic_trim ends_graphic_def)
  from Cut_at [OF k(1)] have "Cut (write_param (key, quoted, v)) CHR ''='' = Some (key, value_text quoted v)"
    by (simp add: write_param_def)
  with k show ?thesis
    by (simp add: unquote_value [OF p] ends_graphic_trim [OF value_text_ends [OF p]])
qed

lemma params_without_for:
  "list_all plain_param ps \<Longrightarrow> filter (\<lambda>p. is_for (fst p)) ps = [] \<Longrightarrow> forwarded_params (map write_param ps) found = found"
proof (induction ps)
  case (Cons p ps)
  then show ?case
    by (cases p) (auto simp: params_step simp del: forwarded_params.simps split: if_splits)
qed simp

lemma params_with_for:
  "list_all plain_param ps \<Longrightarrow> filter (\<lambda>p. is_for (fst p)) ps = [(key, quoted, v)] \<Longrightarrow>
    forwarded_params (map write_param ps) None = parseForwardedNode v"
proof (induction ps)
  case (Cons p ps)
  obtain k q u where p: "p = (k, q, u)"
    by (cases p)
  show ?case
  proof (cases "is_for k")
    case True
    with Cons.prems p have "plain_param p" "list_all plain_param ps" "u = v" "filter (\<lambda>p. is_for (fst p)) ps = []"
      by auto
    with True p show ?thesis
      by (simp add: params_step params_without_for del: forwarded_params.simps split: option.split)
  next
    case False
    with Cons p show ?thesis
      by (simp add: params_step del: forwarded_params.simps)
  qed
qed simp

lemma split_loop_param:
  assumes "plain_param p" "sep \<in> {CHR '','', CHR '';''}"
  shows "split_loop sep cur False False (write_param p @ t) = split_loop sep (cur @ write_param p) False False t"
proof -
  obtain k q v where p: "p = (k, q, v)"
    by (cases p)
  have k: "sep \<notin> set (k @ ''='')" "quote_char \<notin> set (k @ ''='')"
    using assms by (auto simp: p plain_param_def)
  show ?thesis
  proof (cases q)
    case True
    have v: "backslash \<notin> set v" "quote_char \<notin> set v"
      using assms by (auto simp: p plain_param_def)
    show ?thesis
      using split_loop_skip [OF k, of cur "value_text q v @ t"] True
        split_loop_inside [OF v, of sep "cur @ k @ ''='' @ [quote_char]" "quote_char # t"]
      by (simp add: p write_param_def value_text_def)
  next
    case False
    have "sep \<notin> set v" "quote_char \<notin> set v"
      using assms False by (auto simp: p plain_param_def)
    with k have w: "sep \<notin> set (write_param p)" "quote_char \<notin> set (write_param p)"
      using False by (auto simp: p write_param_def value_text_def)
    show ?thesis
      by (rule split_loop_skip [OF w])
  qed
qed

section \<open>Splitting what proxies append\<close>

lemma split_loop_element:
  assumes "list_all plain_param ps"
  shows "split_loop CHR '','' cur False False (Join (map write_param ps) '';'' @ t) =
    split_loop CHR '','' (cur @ Join (map write_param ps) '';'') False False t"
  using assms
proof (induction ps arbitrary: cur)
  case (Cons p ps)
  then show ?case
    by (cases "ps = []") (simp_all add: split_loop_param Join_Cons)
qed simp

lemma element_ends: "ps \<noteq> [] \<Longrightarrow> list_all plain_param ps \<Longrightarrow> ends_graphic (Join (map write_param ps) '';'')"
proof (induction ps)
  case (Cons p ps)
  then show ?case
    using write_param_ends [of p] ends_graphic_append [of "write_param p" _ "'';''", simplified]
    by (cases "ps = []") (simp_all add: Join_Cons)
qed simp

lemma TrimSpace_spaces: "TrimSpace (replicate n CHR '' '' @ s) = TrimSpace s"
proof (induction n)
  case (Suc n)
  have sp: "list_all (\<lambda>e. e \<noteq> [] \<and> hd e = CHR '' '' \<longrightarrow> e = '' '') spaces" "'' '' \<in> set spaces"
    by code_simp+
  have "find (\<lambda>e. e \<noteq> [] \<and> HasPrefix (CHR '' '' # t) e) spaces = Some '' ''" for t
  proof (cases "find (\<lambda>e. e \<noteq> [] \<and> HasPrefix (CHR '' '' # t) e) spaces")
    case None
    with sp(2) show ?thesis
      by (auto simp: find_None_iff HasPrefix_def)
  next
    case (Some e)
    then have "e \<in> set spaces" "e \<noteq> []" "hd e = CHR '' ''"
      using HasPrefix_hd [of "CHR '' '' # t" e] by (auto simp: find_Some_iff)
    with sp(1) Some show ?thesis
      by (simp add: list_all_iff)
  qed
  then have "trim_left spaces (CHR '' '' # t) = trim_left spaces t" for t
    by (subst trim_left.simps) simp
  with Suc show ?case
    by (simp add: TrimSpace_def)
qed simp

lemma plain_element_nonempty: "plain_element e \<Longrightarrow> snd e \<noteq> [] \<and> list_all plain_param (snd e)"
  by (auto simp: plain_element_def for_params_def)

lemma element_split:
  assumes "plain_element e"
  shows "splitOutsideQuotes (write_element e) CHR '','' = Some [Join (map write_param (snd e)) '';'']"
proof -
  note e = plain_element_nonempty [OF assms] and ends = element_ends [of "snd e"]
  have "split_loop CHR '','' [] False False (replicate (fst e) CHR '' '' @ Join (map write_param (snd e)) '';'') =
      split_loop CHR '','' (write_element e) False False []"
    using split_loop_skip [of "CHR '',''" "replicate (fst e) CHR '' ''"] split_loop_element [of "snd e" _ "[]"] e
    by (auto simp: write_element_def)
  moreover have "TrimSpace (write_element e) = Join (map write_param (snd e)) '';''"
    using e ends by (simp add: write_element_def TrimSpace_spaces ends_graphic_trim)
  ultimately show ?thesis
    using e ends by (simp add: splitOutsideQuotes_def write_element_def ends_graphic_def)
qed

lemma params_split:
  "ps \<noteq> [] \<Longrightarrow> list_all plain_param ps \<Longrightarrow>
    splitOutsideQuotes (Join (map write_param ps) '';'') CHR '';'' = Some (map write_param ps)"
proof (induction ps)
  case (Cons p ps)
  then have "TrimSpace (write_param p) = write_param p" "write_param p \<noteq> []"
    using write_param_ends [of p] by (simp_all add: ends_graphic_trim ends_graphic_def)
  moreover have "split_loop CHR '';'' cur False False (write_param p @ t) =
      split_loop CHR '';'' (cur @ write_param p) False False t" for cur t
    using Cons.prems by (simp add: split_loop_param)
  from this [of "[]" "[]"] this [of "[]"] have "split_loop CHR '';'' [] False False (write_param p) =
      split_loop CHR '';'' (write_param p) False False []"
    "\<And>t. split_loop CHR '';'' [] False False (write_param p @ t) = split_loop CHR '';'' (write_param p) False False t"
    by simp_all
  ultimately show ?case
    using Cons by (cases "ps = []") (simp_all add: splitOutsideQuotes_def Join_Cons)
qed simp

lemma element_reads:
  assumes "plain_element e"
  shows "forwarded_elements [Join (map write_param (snd e)) '';''] = map_option (\<lambda>a. [a]) (parseForwardedNode (element_node e))"
proof -
  from assms obtain key quoted v where f: "for_params e = [(key, quoted, v)]"
    by (auto simp: plain_element_def length_Suc_conv)
  have "forwarded_params (map write_param (snd e)) None = parseForwardedNode v"
    using params_with_for [of "snd e"] plain_element_nonempty [OF assms] f by (simp add: for_params_def)
  with f show ?thesis
    using params_split [of "snd e"] plain_element_nonempty [OF assms]
    by (simp add: element_node_def split: option.split)
qed

text \<open>What a proxy appends keeps the quotes balanced and has no backslash.\<close>

lemma param_balanced: "plain_param p \<Longrightarrow> backslash \<notin> set (write_param p) \<and> even (count_list (write_param p) quote_char)"
  by (cases p) (auto simp: plain_param_def write_param_def value_text_def count_notin)

lemma element_balanced:
  "list_all plain_param ps \<Longrightarrow> backslash \<notin> set (Join (map write_param ps) '';'') \<and>
    even (count_list (Join (map write_param ps) '';'') quote_char)"
proof (induction ps)
  case (Cons p ps)
  then show ?case
    using param_balanced [of p] by (cases "ps = []") (simp_all add: Join_Cons)
qed simp

lemma write_element_balanced:
  "plain_element e \<Longrightarrow> backslash \<notin> set (write_element e) \<and> even (count_list (write_element e) quote_char)"
  using element_balanced [of "snd e"] plain_element_nonempty [of e]
  by (auto simp: write_element_def count_notin)

lemma append_fun [simp]: "(@) [] = (\<lambda>ys. ys)" "(@) (x # xs) = (\<lambda>ys. x # xs @ ys)"
  by (simp_all add: fun_eq_iff)

lemma forwarded_elements_append:
  "forwarded_elements (es @ fs) =
    (case forwarded_elements es of None \<Rightarrow> None | Some c \<Rightarrow> map_option ((@) c) (forwarded_elements fs))"
  by (induction es) (auto simp: option.map_comp comp_def option.map_ident split: option.splits)

lemma xff_parts_append:
  "xff_parts (es @ fs) = (case xff_parts es of None \<Rightarrow> None | Some c \<Rightarrow> map_option ((@) c) (xff_parts fs))"
  by (induction es) (auto simp: option.map_comp comp_def option.map_ident split: option.splits)

lemma xff_parts_length: "xff_parts ps = Some c \<Longrightarrow> length c = length ps"
  by (induction ps arbitrary: c) (auto split: option.splits)

lemma parseXForwardedFor_alt: "parseXForwardedFor vs = xff_parts (Split CHR '','' (Join vs '',''))"
proof (cases "xff_parts (Split CHR '','' (Join vs '',''))")
  case (Some c)
  then have "c \<noteq> []"
    using xff_parts_length [OF Some] by auto
  with Some show ?thesis
    by (simp add: parseXForwardedFor_def)
qed (simp add: parseXForwardedFor_def)

lemma splitOutsideQuotes_nonempty: "splitOutsideQuotes v sep = Some es \<Longrightarrow> es \<noteq> []"
proof -
  have "split_loop sep cur q e s = Some es \<Longrightarrow> es \<noteq> []" for cur q e s
    by (induction s arbitrary: cur q e es) (auto split: if_splits)
  then show "splitOutsideQuotes v sep = Some es \<Longrightarrow> es \<noteq> []"
    by (simp add: splitOutsideQuotes_def)
qed

lemma parseForwarded_alt:
  "parseForwarded vs =
    (case splitOutsideQuotes (Join vs '','') CHR '','' of None \<Rightarrow> None | Some es \<Rightarrow> forwarded_elements es)"
  by (auto simp: parseForwarded_def dest: splitOutsideQuotes_nonempty split: option.splits)

text \<open>The addresses that a list of nodes names.\<close>

fun addresses :: "string list \<Rightarrow> Addr list option" where
  "addresses [] = Some []"
| "addresses (h # hs) =
     (case parseForwardedNode h of None \<Rightarrow> None | Some a \<Rightarrow> map_option ((#) a) (addresses hs))"

lemma addresses_append:
  "addresses (hs @ ks) = (case addresses hs of None \<Rightarrow> None | Some c \<Rightarrow> map_option ((@) c) (addresses ks))"
  by (induction hs) (auto simp: option.map_comp comp_def option.map_ident split: option.splits)

lemma addresses_empty: "addresses hs = Some c \<Longrightarrow> hs = [] \<longleftrightarrow> c = []"
  by (cases hs) (auto split: option.splits)

lemma node_trim: "parseForwardedNode (TrimSpace h) = parseForwardedNode h"
  by (simp add: parseForwardedNode_def)

lemma xff_snoc:
  assumes "CHR '','' \<notin> set h"
  shows "parseXForwardedFor (vs @ [h]) =
    (case (if vs = [] then Some [] else parseXForwardedFor vs) of
       None \<Rightarrow> None
     | Some c \<Rightarrow> map_option (\<lambda>a. c @ [a]) (parseForwardedNode h))"
  using assms Split_append_sep [of "CHR '',''" "Join vs '',''" h]
  by (auto simp: parseXForwardedFor_alt Join_append xff_parts_append Split_none node_trim option.map_comp comp_def
      split: option.splits)

lemma forwarded_snoc:
  assumes e: "plain_element e"
  shows "parseForwarded (vs @ [write_element e]) =
    (case (if vs = [] then Some [] else parseForwarded vs) of
       None \<Rightarrow> None
     | Some c \<Rightarrow> map_option (\<lambda>a. c @ [a]) (parseForwardedNode (element_node e)))"
proof (cases "vs = []")
  case True
  then show ?thesis
    by (simp add: parseForwarded_alt element_split [OF e] element_reads [OF e] del: forwarded_elements.simps)
next
  case False
  note b = write_element_balanced [OF e]
  have "splitOutsideQuotes (Join (vs @ [write_element e]) '','') CHR '','' =
    (case splitOutsideQuotes (Join vs '','') CHR '','' of None \<Rightarrow> None
     | Some ps \<Rightarrow> Some (ps @ [Join (map write_param (snd e)) '';'']))"
    using splitOutsideQuotes_append [of "write_element e" "CHR '',''" "Join vs '',''"] b False
    by (simp add: Join_append element_split [OF e] split: option.splits)
  with False show ?thesis
    using element_reads [OF e]
    by (simp add: parseForwarded_alt forwarded_elements_append option.map_comp comp_def
        del: forwarded_elements.simps split: option.splits)
qed

section \<open>Header formats\<close>

text \<open>
  What a header format promises.  A hop that a proxy appends is read as the last link of the
  chain, and whatever came before it is either a valid chain or invalidates the header; and only
  the header's joined text counts, so a proxy may as well append to the last line.
\<close>

locale hop_header =
  fixes parse :: "string list \<Rightarrow> Addr list option"
    and wr :: "'h \<Rightarrow> string"
    and node :: "'h \<Rightarrow> string"
    and ok :: "'h \<Rightarrow> bool"
  assumes snoc: "ok h \<Longrightarrow> parse (vs @ [wr h]) =
    (case (if vs = [] then Some [] else parse vs) of
       None \<Rightarrow> None
     | Some c \<Rightarrow> map_option (\<lambda>a. c @ [a]) (parseForwardedNode (node h)))"
    and lines: "Join vs '','' = Join ws '','' \<Longrightarrow> parse vs = parse ws"
begin

lemma hops:
  "list_all ok hs \<Longrightarrow> vs \<noteq> [] \<or> hs \<noteq> [] \<Longrightarrow> parse (vs @ map wr hs) =
    (case (if vs = [] then Some [] else parse vs) of
       None \<Rightarrow> None
     | Some c \<Rightarrow> map_option ((@) c) (addresses (map node hs)))"
proof (induction hs rule: rev_induct)
  case Nil
  then show ?case
    by (simp split: option.splits)
next
  case (snoc h hs)
  have step: "parse ((vs @ map wr hs) @ [wr h]) =
    (case (if vs @ map wr hs = [] then Some [] else parse (vs @ map wr hs)) of
       None \<Rightarrow> None
     | Some c \<Rightarrow> map_option (\<lambda>a. c @ [a]) (parseForwardedNode (node h)))"
    using snoc.prems by (intro hop_header.snoc [OF hop_header_axioms]) simp
  show ?case
  proof (cases "vs = [] \<and> hs = []")
    case True
    with step snoc.prems show ?thesis
      by (simp add: option.map_comp comp_def split: option.splits)
  next
    case False
    with snoc step show ?thesis
      by (auto simp: addresses_append option.map_comp comp_def split: option.splits)
  qed
qed

text \<open>The chain of a header whose last links the proxies appended.\<close>

lemma chain_ends:
  assumes "list_all ok hs" "addresses (map node hs) = Some link" "link \<noteq> []"
    and "Join vs '','' = Join (sent @ map wr hs) '',''"
  shows "parse vs = None \<and> sent \<noteq> [] \<or> (\<exists>c. parse vs = Some (c @ link) \<and> (sent = [] \<longrightarrow> c = []))"
  using hops [of hs sent] assms addresses_empty [OF assms(2)] lines [OF assms(4)] by (auto split: option.splits)

lemma from_proxies: "list_all ok hs \<Longrightarrow> hs \<noteq> [] \<Longrightarrow> parse (map wr hs) = addresses (map node hs)"
  using hops [of hs "[]"] by (simp add: option.map_ident)

end

interpretation xff: hop_header parseXForwardedFor "\<lambda>h. h" "\<lambda>h. h" "\<lambda>h. CHR '','' \<notin> set h"
  by unfold_locales (rule xff_snoc, assumption, simp add: parseXForwardedFor_def)

interpretation fwd: hop_header parseForwarded write_element element_node plain_element
  by unfold_locales (rule forwarded_snoc, assumption, simp add: parseForwarded_def)

lemma nearest_untrusted_ends:
  "\<not> isTrustedProxy ps client \<Longrightarrow> list_all (isTrustedProxy ps) proxies \<Longrightarrow>
    nearest_untrusted ps (c @ client # proxies) = client"
proof -
  assume u: "\<not> isTrustedProxy ps client" and t: "list_all (isTrustedProxy ps) proxies"
  have "find (\<lambda>a. \<not> isTrustedProxy ps a) (xs @ client # ys) = Some client"
    if "list_all (isTrustedProxy ps) xs" for xs ys
    using that u by (induction xs) auto
  from this [of "rev proxies" "rev c"] t show ?thesis
    by (simp add: nearest_untrusted_def list_all_iff)
qed

section \<open>Properties of the client identity\<close>

text \<open>
  Forwarding headers count only behind a trusted proxy: when the TCP peer is not one, or its
  address does not parse, the identity is the same whatever the headers say.
\<close>

lemma untrusted_headers_ignored:
  assumes "\<And>d. parseRemoteIP (RemoteAddr r) = Some d \<Longrightarrow> \<not> isTrustedProxy prefixes d"
  shows "clientIP prefixes (r\<lparr>Forwarded := f, XForwardedFor := x\<rparr>) = clientIP prefixes r"
  using assms by (auto simp: clientIP_def split: option.splits)

text \<open>
  C31.  Whose word the identity is, behind a trusted proxy.  The server reads \<open>Forwarded\<close> when the
  request has one and \<open>X-Forwarded-For\<close> otherwise.  If the trusted proxies append what they see (the
  client's address, then their own hops) to the header that is read, in any mix of plain and quoted
  nodes and further parameters, on lines of their own or on the client's, then the identity is the
  client's address as they saw it, or the proxy's own if what the client wrote before makes the
  header invalid, and never anything the client wrote.  The protection is the read header's only:
  once a request has a \<open>Forwarded\<close> header, \<open>X-Forwarded-For\<close> has no influence at all.
\<close>

theorem identity_is_the_appended_address:
  assumes direct: "parseRemoteIP (RemoteAddr r) = Some d" "isTrustedProxy prefixes d"
    and trust: "\<not> isTrustedProxy prefixes client" "list_all (isTrustedProxy prefixes) proxies"
  shows "(Forwarded r \<noteq> [] \<and> Join (Forwarded r) '','' = Join (sent @ map write_element hops) '','' \<and>
      list_all plain_element hops \<and> addresses (map element_node hops) = Some (client # proxies) \<longrightarrow>
      clientIP prefixes r \<in> {Addr_String client, Addr_String d} \<and>
      (sent = [] \<longrightarrow> clientIP prefixes r = Addr_String client)) \<and>
    (Forwarded r = [] \<and> XForwardedFor r \<noteq> [] \<and> Join (XForwardedFor r) '','' = Join (sent @ entries) '','' \<and>
      list_all (\<lambda>e. CHR '','' \<notin> set e) entries \<and> addresses entries = Some (client # proxies) \<longrightarrow>
      clientIP prefixes r \<in> {Addr_String client, Addr_String d} \<and>
      (sent = [] \<longrightarrow> clientIP prefixes r = Addr_String client)) \<and>
    (Forwarded r \<noteq> [] \<longrightarrow> clientIP prefixes (r\<lparr>XForwardedFor := x\<rparr>) = clientIP prefixes r)"
proof (intro conjI)
  have ends: "nearest_untrusted prefixes (c @ client # proxies) = client" for c
    by (rule nearest_untrusted_ends [OF trust])
  have read: "clientIP prefixes r \<in> {Addr_String client, Addr_String d} \<and>
      (sent = [] \<longrightarrow> clientIP prefixes r = Addr_String client)"
    if "forwarded_chain r = None \<and> sent \<noteq> [] \<or>
      (\<exists>c. forwarded_chain r = Some (c @ client # proxies) \<and> (sent = [] \<longrightarrow> c = []))"
    using that direct ends ends [of "[]"] by (auto simp: clientIP_def)
  show "Forwarded r \<noteq> [] \<and> Join (Forwarded r) '','' = Join (sent @ map write_element hops) '','' \<and>
      list_all plain_element hops \<and> addresses (map element_node hops) = Some (client # proxies) \<longrightarrow>
      clientIP prefixes r \<in> {Addr_String client, Addr_String d} \<and>
      (sent = [] \<longrightarrow> clientIP prefixes r = Addr_String client)"
    using fwd.chain_ends [of hops "client # proxies" "Forwarded r" sent]
    by (intro impI read) (simp add: forwarded_chain_def)
  show "Forwarded r = [] \<and> XForwardedFor r \<noteq> [] \<and> Join (XForwardedFor r) '','' = Join (sent @ entries) '','' \<and>
      list_all (\<lambda>e. CHR '','' \<notin> set e) entries \<and> addresses entries = Some (client # proxies) \<longrightarrow>
      clientIP prefixes r \<in> {Addr_String client, Addr_String d} \<and>
      (sent = [] \<longrightarrow> clientIP prefixes r = Addr_String client)"
    using xff.chain_ends [of entries "client # proxies" "XForwardedFor r" sent]
    by (intro impI read) (simp add: forwarded_chain_def)
  show "Forwarded r \<noteq> [] \<longrightarrow> clientIP prefixes (r\<lparr>XForwardedFor := x\<rparr>) = clientIP prefixes r"
    by (auto simp: clientIP_def forwarded_chain_def split: option.split)
qed

text \<open>
  The two header formats agree: the same hops written as \<open>Forwarded\<close> elements or as
  \<open>X-Forwarded-For\<close> entries are the same chain, or are both refused.
\<close>

lemma header_formats_agree:
  assumes "list_all plain_element hops" "hops \<noteq> []" "list_all (\<lambda>e. CHR '','' \<notin> set (element_node e)) hops"
  shows "parseForwarded (map write_element hops) = parseXForwardedFor (map element_node hops)"
  using fwd.from_proxies [OF assms(1,2)] xff.from_proxies [of "map element_node hops"] assms
  by (simp add: list.pred_map comp_def)

section \<open>Quoted values\<close>

fun escape :: "string \<Rightarrow> string" where
  "escape [] = []"
| "escape (c # s) = (if c = quote_char \<or> c = backslash then [backslash, c] else [c]) @ escape s"

definition quote :: "string \<Rightarrow> string" where
  "quote s = [quote_char] @ escape s @ [quote_char]"

definition printable :: "string \<Rightarrow> bool" where
  "printable s \<longleftrightarrow> list_all (\<lambda>c. 0x20 \<le> code c \<and> code c \<noteq> 0x7F) s"

lemma unquote_escape: "printable s \<Longrightarrow> unquote_loop (escape s) = Some s"
  by (induction s) (auto simp: printable_def)

lemma split_loop_escape:
  "split_loop sep cur True False (escape s @ quote_char # t) = split_loop sep (cur @ escape s @ [quote_char]) False False t"
  by (induction s arbitrary: cur) auto

lemma TrimSpace_quote: "TrimSpace (quote s) = quote s"
  by (rule TrimSpace_graphic) (simp_all add: quote_def graphic_def)

lemma split_loop_quote:
  assumes "sep \<noteq> quote_char" "sep \<noteq> backslash"
  shows "ss \<noteq> [] \<Longrightarrow> split_loop sep [] False False (Join (map quote ss) [sep]) = Some (map quote ss)"
proof (induction ss)
  case (Cons s ss)
  have q: "split_loop sep [] False False (quote s @ t) = split_loop sep (quote s) False False t" for t
    using split_loop_escape [of sep "[quote_char]" s t] by (simp add: quote_def)
  have ne: "quote s \<noteq> []"
    by (simp add: quote_def)
  show ?case
  proof (cases "ss = []")
    case True
    then show ?thesis
      using q [of "[]"] ne by (simp add: TrimSpace_quote)
  next
    case False
    then show ?thesis
      using Cons.IH q [of "sep # Join (map quote ss) [sep]"] ne assms
      by (simp add: Join_Cons TrimSpace_quote)
  qed
qed simp

text \<open>
  Quoting protects any printable text, separators, quotes and backslashes included: a list of
  quoted values splits at exactly the separators between them, and each unquotes to its text.
\<close>

lemma quoted_values_roundtrip:
  assumes "sep \<noteq> quote_char" "sep \<noteq> backslash" "ss \<noteq> []" "list_all printable ss"
  shows "splitOutsideQuotes (Join (map quote ss) [sep]) sep = Some (map quote ss) \<and>
    map unquoteForwardedValue (map quote ss) = map Some ss"
proof -
  have "unquoteForwardedValue (quote s) = Some s" if "printable s" for s
    using that by (simp add: unquoteForwardedValue_def quote_def HasPrefix_def unquote_escape butlast_append)
  then have "map unquoteForwardedValue (map quote ss) = map Some ss"
    using assms(4) by (simp add: list_all_iff)
  then show ?thesis
    using split_loop_quote assms by (simp add: splitOutsideQuotes_def)
qed

section \<open>Witnesses\<close>

text \<open>The trusted networks: loopback, 10.0.0.0/8 and 2001:db8::/32.\<close>

definition demo_prefixes :: "netip_prefix list" where
  "demo_prefixes =
     [\<lparr>pfx_addr = Addr4 [127, 0, 0, 0], pfx_bits = 8\<rparr>, \<lparr>pfx_addr = Addr4 [10, 0, 0, 0], pfx_bits = 8\<rparr>,
      \<lparr>pfx_addr = Addr6 [0x20, 1, 0x0D, 0xB8, 0, 0, 0, 0, 0, 0, 0, 0, 0, 0, 0, 0] '''', pfx_bits = 32\<rparr>]"

text \<open>
  The client at 198.51.100.7 comes through a hop whose element quotes a comma and an IPv6 address
  with a port: \<open>for=198.51.100.7;proto=https\<close>, then \<open>by="_edge, 2";For="[2001:db8::1]:4711"\<close>.
\<close>

definition demo_elements :: "(nat \<times> param list) list" where
  "demo_elements =
     [(1, [(''for'', False, ''198.51.100.7''), (''proto'', False, ''https'')]),
      (0, [(''by'', True, ''_edge, 2''), (''For'', True, ''[2001:db8::1]:4711'')])]"

definition demo_request :: "string list \<Rightarrow> string list \<Rightarrow> request" where
  "demo_request forwarded xff = \<lparr>RemoteAddr = ''127.0.0.1:54321'', Forwarded = forwarded, XForwardedFor = xff\<rparr>"

definition demo_client :: Addr where
  "demo_client = Addr4 [198, 51, 100, 7]"

definition demo_hop :: Addr where
  "demo_hop = Addr6 [0x20, 1, 0x0D, 0xB8, 0, 0, 0, 0, 0, 0, 0, 0, 0, 0, 0, 1] ''''"

lemma demo_elements_plain: "list_all plain_element demo_elements"
  by code_simp

lemma node_v4:
  assumes "TrimSpace s = s" "s \<noteq> []" "\<not> is_unknown s" "hd s \<noteq> CHR ''_''" "CHR ''%'' \<notin> set s" "ParseAddr s = Some (Addr4 b)"
  shows "parseForwardedNode s = Some (Addr4 b)"
  using assms HasPrefix_hd [of s "''_''"] by (auto simp: parseForwardedNode_def Unmap_def)

lemma demo_port: "validOptionalPort '':4711''"
  by (simp add: validOptionalPort_def validPort_def ParseUint_def text_eval)

lemma demo_v4:
  "parseForwardedNode ''198.51.100.7'' = Some demo_client"
  "parseForwardedNode ''10.1.2.3'' = Some (Addr4 [10, 1, 2, 3])"
proof -
  show "parseForwardedNode ''198.51.100.7'' = Some demo_client"
    unfolding demo_client_def by (rule node_v4, simp add: TrimSpace_graphic graphic_def) code_simp+
  show "parseForwardedNode ''10.1.2.3'' = Some (Addr4 [10, 1, 2, 3])"
    by (rule node_v4, simp add: TrimSpace_graphic graphic_def) code_simp+
qed

lemma demo_v6: "parseForwardedNode ''[2001:db8::1]:4711'' = Some demo_hop"
proof -
  have 1: "TrimSpace ''[2001:db8::1]:4711'' = ''[2001:db8::1]:4711''" "\<not> is_unknown ''[2001:db8::1]:4711''"
    by (simp add: TrimSpace_graphic graphic_def) code_simp
  have 2: "ParseAddr ''[2001:db8::1]:4711'' = None" "ParseAddr ''2001:db8::1'' = Some demo_hop"
    by code_simp+
  have 3: "IndexByte ''[2001:db8::1]:4711'' CHR '']'' = Some 12" "addr_zone demo_hop = ''''"
    by code_simp+
  have 4: "Unmap demo_hop = demo_hop"
    by (simp add: Unmap_def demo_hop_def To4_def v4InV6Prefix_def)
  from 1 2 3 4 show ?thesis
    using demo_port by (simp add: parseForwardedNode_def HasPrefix_def)
qed

lemma demo_addresses:
  "addresses (map element_node demo_elements) = Some (demo_client # [demo_hop])"
  "addresses ['' 198.51.100.7'', ''10.1.2.3''] = Some (demo_client # [Addr4 [10, 1, 2, 3]])"
proof -
  have "map element_node demo_elements = [''198.51.100.7'', ''[2001:db8::1]:4711'']"
    by code_simp
  then show "addresses (map element_node demo_elements) = Some (demo_client # [demo_hop])"
    using demo_v4 demo_v6 by simp
  have "TrimSpace '' 198.51.100.7'' = ''198.51.100.7''"
    using TrimSpace_spaces [of 1 "''198.51.100.7''"] by (simp add: TrimSpace_graphic graphic_def)
  then have "parseForwardedNode '' 198.51.100.7'' = Some demo_client"
    using node_trim [of "'' 198.51.100.7''"] demo_v4 by simp
  with demo_v4 show "addresses ['' 198.51.100.7'', ''10.1.2.3''] = Some (demo_client # [Addr4 [10, 1, 2, 3]])"
    by simp
qed

lemma demo_trust:
  "\<not> isTrustedProxy demo_prefixes demo_client" "list_all (isTrustedProxy demo_prefixes) [demo_hop]"
  "list_all (isTrustedProxy demo_prefixes) [Addr4 [10, 1, 2, 3]]" "isTrustedProxy demo_prefixes (Addr4 [127, 0, 0, 1])"
  by (simp_all add: isTrustedProxy_def demo_prefixes_def Contains_def Unmap_def net_part_def BitLen_def be_value_def
      demo_client_def demo_hop_def To4_def v4InV6Prefix_def)

lemma demo_remote: "parseRemoteIP (RemoteAddr (demo_request fs xs)) = Some (Addr4 [127, 0, 0, 1])"
  by (simp add: demo_request_def parseRemoteIP_def text_eval Unmap_def)

lemma demo_text: "Addr_String demo_client = ''198.51.100.7''" "Addr_String (Addr4 [127, 0, 0, 1]) = ''127.0.0.1''"
  by code_simp+

theorem identity_is_the_appended_address_witness:
  "clientIP demo_prefixes (demo_request [Join (''for=1.1.1.1'' # map write_element demo_elements) '',''] [])
     \<in> {''198.51.100.7'', ''127.0.0.1''} \<and>
   clientIP demo_prefixes (demo_request (map write_element demo_elements) [''1.1.1.1'']) = ''198.51.100.7'' \<and>
   clientIP demo_prefixes (demo_request [] [''1.1.1.1, 198.51.100.7'', ''10.1.2.3'']) \<in> {''198.51.100.7'', ''127.0.0.1''}"
proof -
  note claim = identity_is_the_appended_address [OF demo_remote demo_trust(4,1)]
  have "clientIP demo_prefixes (demo_request [Join (''for=1.1.1.1'' # map write_element demo_elements) '',''] [])
      \<in> {''198.51.100.7'', ''127.0.0.1''}"
    using claim [OF demo_trust(2), of "[Join (''for=1.1.1.1'' # map write_element demo_elements) '','']" "[]"
        "[''for=1.1.1.1'']" demo_elements] demo_elements_plain demo_addresses(1)
    unfolding demo_text by (simp add: demo_request_def)
  moreover have "clientIP demo_prefixes (demo_request (map write_element demo_elements) [''1.1.1.1'']) = ''198.51.100.7''"
    using claim [OF demo_trust(2), of "map write_element demo_elements" "[''1.1.1.1'']" "[]" demo_elements]
      demo_elements_plain demo_addresses(1)
    unfolding demo_text by (simp add: demo_request_def) (simp add: demo_elements_def)
  moreover have "clientIP demo_prefixes (demo_request [] [''1.1.1.1, 198.51.100.7'', ''10.1.2.3'']) \<in> {''198.51.100.7'', ''127.0.0.1''}"
    using claim [OF demo_trust(3), of "[]" "[''1.1.1.1, 198.51.100.7'', ''10.1.2.3'']" "[''1.1.1.1'']" "[]"
        "['' 198.51.100.7'', ''10.1.2.3'']"] demo_addresses(2)
    unfolding demo_text by (simp add: demo_request_def)
  ultimately show ?thesis
    by blast
qed

text \<open>
  Where the protection ends: the proxy appends the client's address to \<open>X-Forwarded-For\<close> only and
  lets the client's \<open>Forwarded\<close> header through, and the identity is what the client wrote.
\<close>

lemma passed_on_header_is_believed:
  "clientIP demo_prefixes (demo_request [''for=1.1.1.1''] [''198.51.100.7'']) = ''1.1.1.1''"
proof -
  have "parseForwardedNode ''1.1.1.1'' = Some (Addr4 [1, 1, 1, 1])"
    by (rule node_v4, simp add: TrimSpace_graphic graphic_def) code_simp+
  then have "addresses (map element_node [(0, [(''for'', False, ''1.1.1.1'')])]) = Some (Addr4 [1, 1, 1, 1] # [])"
    by (simp add: element_node_def for_params_def is_for_def)
  moreover have "list_all plain_element [(0, [(''for'', False, ''1.1.1.1'')])]"
    by code_simp
  moreover have "\<not> isTrustedProxy demo_prefixes (Addr4 [1, 1, 1, 1])"
    by (simp add: isTrustedProxy_def demo_prefixes_def Contains_def Unmap_def net_part_def BitLen_def be_value_def)
  moreover have "Addr_String (Addr4 [1, 1, 1, 1]) = ''1.1.1.1''"
    by code_simp
  ultimately show ?thesis
    using fwd.from_proxies [of "[(0, [(''for'', False, ''1.1.1.1'')])]"] nearest_untrusted_ends [of demo_prefixes _ "[]" "[]"]
      demo_remote [of "[''for=1.1.1.1'']" "[''198.51.100.7'']"] demo_trust(4)
    by (simp add: clientIP_def forwarded_chain_def demo_request_def write_element_def write_param_def value_text_def)
qed

end
