(* ===== verification/Ratelimit.thy ===== *)
theory Ratelimit
  imports Prelude
begin

text \<open>
  The fixed-window limiter of \<open>internal/ratelimit/limiter.go\<close>.  The clock reading is an
  argument of the operations (\<open>l.now()\<close>); an operation returns the new limiter and its
  verdict.  Each operation runs under the limiter's mutex, so it is one step.
\<close>

section \<open>State and operations\<close>

record entry =
  resetAt :: time
  count :: int

record limiter =
  entries :: "(string \<times> entry) list"
  calls :: u64
  maxEntries :: nat

definition defaultMaxEntries :: nat where
  "defaultMaxEntries = 65536"

definition New :: limiter where
  "New = \<lparr>entries = [], calls = 0, maxEntries = defaultMaxEntries\<rparr>"

definition normalizeKey :: "string \<Rightarrow> string" where
  "normalizeKey key = (if key = '''' then ''unknown'' else key)"

definition currentEntry :: "limiter \<Rightarrow> string \<Rightarrow> time \<Rightarrow> duration \<Rightarrow> limiter \<times> entry \<times> bool" where
  "currentEntry l key now window =
     (let fresh = \<lparr>resetAt = now + window, count = 0\<rparr> in
      case map_of (entries l) key of
        Some e \<Rightarrow>
          if \<not> now < resetAt e then (l\<lparr>entries := AList.delete key (entries l)\<rparr>, fresh, False)
          else (l, e, True)
      | None \<Rightarrow> (l, fresh, False))"

definition cleanupExpired :: "limiter \<Rightarrow> time \<Rightarrow> limiter" where
  "cleanupExpired l now = l\<lparr>entries := filter (\<lambda>kv. now < resetAt (snd kv)) (entries l)\<rparr>"

definition ensureCapacity :: "limiter \<Rightarrow> time \<Rightarrow> nat \<Rightarrow> limiter \<times> bool" where
  "ensureCapacity l now needed =
     (if needed = 0 \<or> length (entries l) + needed \<le> maxEntries l then (l, True)
      else let l = cleanupExpired l now in (l, length (entries l) + needed \<le> maxEntries l))"

definition afterConsume :: "limiter \<Rightarrow> time \<Rightarrow> limiter" where
  "afterConsume l now =
     (let l = l\<lparr>calls := calls l + 1\<rparr> in
      if calls l mod 1024 = 0 then cleanupExpired l now else l)"

text \<open>\<open>e.count++; l.entries[key] = e\<close>.\<close>

definition charge :: "limiter \<Rightarrow> string \<Rightarrow> entry \<Rightarrow> limiter" where
  "charge l key e = l\<lparr>entries := AList.update key (e\<lparr>count := count e + 1\<rparr>) (entries l)\<rparr>"

definition Allow :: "limiter \<Rightarrow> string \<Rightarrow> int \<Rightarrow> duration \<Rightarrow> time \<Rightarrow> limiter \<times> bool" where
  "Allow l key limit window now =
     (if limit \<le> 0 then (l, True)
      else
        let key = normalizeKey key;
            (l, e, exists) = currentEntry l key now window;
            (l, fits) = (if exists then (l, True) else ensureCapacity l now 1)
        in if \<not> fits then (l, False)
           else if count e \<ge> limit then (l, False)
           else (afterConsume (charge l key e) now, True))"

definition AllowPair ::
  "limiter \<Rightarrow> string \<Rightarrow> string \<Rightarrow> int \<Rightarrow> duration \<Rightarrow> time \<Rightarrow> limiter \<times> bool" where
  "AllowPair l first second limit window now =
     (if limit \<le> 0 then (l, True)
      else
        let first = normalizeKey first;
            second = normalizeKey second;
            (l, a, aExists) = currentEntry l first now window
        in if first = second then
             if count a \<ge> limit then (l, False)
             else
               let (l, fits) = (if aExists then (l, True) else ensureCapacity l now 1)
               in if \<not> fits then (l, False) else (afterConsume (charge l first a) now, True)
           else
             let (l, b, bExists) = currentEntry l second now window
             in if count a \<ge> limit \<or> count b \<ge> limit then (l, False)
                else
                  let needed = (if aExists then 0 else 1) + (if bExists then 0 else 1);
                      (l, fits) = ensureCapacity l now needed
                  in if \<not> fits then (l, False)
                     else (afterConsume (charge (charge l first a) second b) now, True))"

section \<open>The budgets a limiter stands for\<close>

text \<open>
  The abstract limiter is its table of live budgets: the entries whose window has not ended.
  Expired entries, their cleanup and the call counter are invisible in it.
\<close>

definition live :: "limiter \<Rightarrow> time \<Rightarrow> string \<Rightarrow> entry option" where
  "live l now k =
     (case map_of (entries l) k of
        None \<Rightarrow> None
      | Some e \<Rightarrow> if now < resetAt e then Some e else None)"

definition spent :: "limiter \<Rightarrow> time \<Rightarrow> string \<Rightarrow> int" where
  "spent l now k = (case live l now k of None \<Rightarrow> 0 | Some e \<Rightarrow> count e)"

definition live_entries :: "limiter \<Rightarrow> time \<Rightarrow> (string \<times> entry) list" where
  "live_entries l now = filter (\<lambda>kv. now < resetAt (snd kv)) (entries l)"

definition capacity :: "limiter \<Rightarrow> time \<Rightarrow> nat \<Rightarrow> bool" where
  "capacity l now needed \<longleftrightarrow> needed = 0 \<or> length (live_entries l now) + needed \<le> maxEntries l"

definition wf_limiter :: "limiter \<Rightarrow> bool" where
  "wf_limiter l \<longleftrightarrow> wf_map (entries l) \<and> length (entries l) \<le> maxEntries l \<and>
     (\<forall>e \<in> snd ` set (entries l). 1 \<le> count e)"

text \<open>The abstract operation: a granted unit is added to the key's live budget.\<close>

definition charged :: "entry option \<Rightarrow> time \<Rightarrow> duration \<Rightarrow> entry" where
  "charged eo now window =
     (case eo of None \<Rightarrow> \<lparr>resetAt = now + window, count = 1\<rparr>
      | Some e \<Rightarrow> e\<lparr>count := count e + 1\<rparr>)"

definition still :: "time \<Rightarrow> entry option \<Rightarrow> entry option" where
  "still t eo = (case eo of None \<Rightarrow> None | Some e \<Rightarrow> if t < resetAt e then Some e else None)"

lemma live_later: "now \<le> t \<Longrightarrow> live l t k = still t (live l now k)"
  by (auto simp: live_def still_def split: option.splits)

lemma still_still: "now \<le> t \<Longrightarrow> still t (still now eo) = still t eo"
  by (auto simp: still_def split: option.splits)

lemma live_cleanup [simp]: "wf_map (entries l) \<Longrightarrow> now \<le> t \<Longrightarrow> live (cleanupExpired l now) t k = live l t k"
  by (auto simp: live_def cleanupExpired_def map_of_filter_snd [where P = "\<lambda>e. now < resetAt e"]
      split: option.splits)

lemma cleanup_entries: "entries (cleanupExpired l now) = live_entries l now"
  by (simp add: cleanupExpired_def live_entries_def)

lemma live_entries_cleanup [simp]: "live_entries (cleanupExpired l now) now = live_entries l now"
  by (simp add: live_entries_def cleanupExpired_def)

lemma wf_cleanup [simp]: "wf_limiter l \<Longrightarrow> wf_limiter (cleanupExpired l now)"
  by (auto simp: wf_limiter_def cleanupExpired_def wf_filter intro: order_trans [OF length_filter_le])

lemma max_cleanup [simp]: "maxEntries (cleanupExpired l now) = maxEntries l"
  by (simp add: cleanupExpired_def)

lemma wf_limiter_map [simp]: "wf_limiter l \<Longrightarrow> wf_map (entries l)"
  by (simp add: wf_limiter_def)

subsection \<open>Each internal step keeps the budgets\<close>

definition same_budgets :: "time \<Rightarrow> limiter \<Rightarrow> limiter \<Rightarrow> bool" where
  "same_budgets now l l' \<longleftrightarrow> wf_limiter l' \<and> maxEntries l' = maxEntries l \<and>
     (\<forall>t k. now \<le> t \<longrightarrow> live l' t k = live l t k) \<and> live_entries l' now = live_entries l now"

lemma same_budgets_refl: "wf_limiter l \<Longrightarrow> same_budgets now l l"
  by (simp add: same_budgets_def)

lemma same_budgets_trans: "same_budgets now l l' \<Longrightarrow> same_budgets now l' l'' \<Longrightarrow> same_budgets now l l''"
  by (simp add: same_budgets_def)

lemma same_budgets_wf: "same_budgets now l l' \<Longrightarrow> wf_limiter l'"
  by (simp add: same_budgets_def)

lemma same_budgets_live: "same_budgets now l l' \<Longrightarrow> now \<le> t \<Longrightarrow> live l' t k = live l t k"
  by (simp add: same_budgets_def)

lemma same_budgets_capacity: "same_budgets now l l' \<Longrightarrow> capacity l' now n = capacity l now n"
  by (simp add: same_budgets_def capacity_def)

lemma same_budgets_cleanup: "wf_limiter l \<Longrightarrow> same_budgets now l (cleanupExpired l now)"
  by (simp add: same_budgets_def)

lemma same_budgets_delete:
  assumes wf: "wf_limiter l" and e: "map_of (entries l) key = Some e" "\<not> now < resetAt e"
  shows "same_budgets now l (l\<lparr>entries := AList.delete key (entries l)\<rparr>)"
proof -
  have m: "wf_map (entries l)" using wf by simp
  have "filter (\<lambda>kv. now < resetAt (snd kv)) (AList.delete key (entries l)) =
      filter (\<lambda>kv. now < resetAt (snd kv)) (entries l)"
    using e unfolding AList.delete_eq filter_filter
    by (intro filter_cong) (auto dest: map_of_is_SomeI [OF m])
  moreover have "live (l\<lparr>entries := AList.delete key (entries l)\<rparr>) t k = live l t k" if "now \<le> t" for t k
    using e that by (auto simp: live_def go_map)
  ultimately show ?thesis
    using wf by (auto simp: same_budgets_def wf_limiter_def live_entries_def go_map set_delete
        intro: order_trans [OF AList.length_delete_le])
qed

lemma currentEntry_budgets:
  assumes wf: "wf_limiter l" and run: "currentEntry l key now window = (l', e, found)"
  shows "same_budgets now l l'"
    and "found \<longleftrightarrow> live l now key \<noteq> None"
    and "e\<lparr>count := count e + 1\<rparr> = charged (live l now key) now window"
    and "count e = spent l now key"
    and "\<not> found \<Longrightarrow> map_of (entries l') key = None"
    and "found \<Longrightarrow> map_of (entries l') key = Some e"
proof -
  have "same_budgets now l l' \<and> (found \<longleftrightarrow> live l now key \<noteq> None) \<and>
      e\<lparr>count := count e + 1\<rparr> = charged (live l now key) now window \<and> count e = spent l now key \<and>
      (\<not> found \<longrightarrow> map_of (entries l') key = None) \<and> (found \<longrightarrow> map_of (entries l') key = Some e)"
    using run wf by (auto simp: currentEntry_def Let_def live_def charged_def spent_def go_map
        intro: same_budgets_refl same_budgets_delete split: option.splits if_splits)
  then show "same_budgets now l l'" "found \<longleftrightarrow> live l now key \<noteq> None"
    "e\<lparr>count := count e + 1\<rparr> = charged (live l now key) now window" "count e = spent l now key"
    "\<not> found \<Longrightarrow> map_of (entries l') key = None" "found \<Longrightarrow> map_of (entries l') key = Some e"
    by blast+
qed

lemma ensureCapacity_budgets:
  assumes wf: "wf_limiter l" and run: "ensureCapacity l now n = (l', fits)"
  shows "same_budgets now l l'" and "fits \<longleftrightarrow> capacity l now n"
    and "fits \<Longrightarrow> n = 0 \<or> length (entries l') + n \<le> maxEntries l'"
    and "map_of (entries l) k = None \<Longrightarrow> map_of (entries l') k = None"
    and "live l now k \<noteq> None \<Longrightarrow> map_of (entries l') k = map_of (entries l) k"
proof -
  have le: "length (live_entries l now) \<le> length (entries l)"
    by (simp add: live_entries_def)
  have map: "map_of (live_entries l now) k = live l now k"
    using wf by (auto simp: live_entries_def live_def
        map_of_filter_snd [where P = "\<lambda>e. now < resetAt e"] split: option.splits)
  have "same_budgets now l l' \<and> (fits \<longleftrightarrow> capacity l now n) \<and>
      (fits \<longrightarrow> n = 0 \<or> length (entries l') + n \<le> maxEntries l') \<and>
      (map_of (entries l) k = None \<longrightarrow> map_of (entries l') k = None) \<and>
      (live l now k \<noteq> None \<longrightarrow> map_of (entries l') k = map_of (entries l) k)"
    using run wf le by (auto simp: ensureCapacity_def Let_def capacity_def cleanup_entries map live_def
        intro: same_budgets_refl same_budgets_cleanup split: option.splits if_splits)
  then show "same_budgets now l l'" "fits \<longleftrightarrow> capacity l now n"
    "fits \<Longrightarrow> n = 0 \<or> length (entries l') + n \<le> maxEntries l'"
    "map_of (entries l) k = None \<Longrightarrow> map_of (entries l') k = None"
    "live l now k \<noteq> None \<Longrightarrow> map_of (entries l') k = map_of (entries l) k"
    by blast+
qed

lemma afterConsume_budgets: "wf_limiter l \<Longrightarrow> same_budgets now l (afterConsume l now)"
proof -
  assume wf: "wf_limiter l"
  let ?l = "l\<lparr>calls := calls l + 1\<rparr>"
  have "same_budgets now l ?l"
    using wf by (simp add: same_budgets_def wf_limiter_def live_def live_entries_def)
  then show ?thesis
    unfolding afterConsume_def Let_def
    by (auto intro: same_budgets_trans same_budgets_cleanup same_budgets_wf)
qed

lemma live_charge: "live (charge l key e) t =
    (live l t)(key := still t (Some (e\<lparr>count := count e + 1\<rparr>)))"
  by (rule ext) (simp add: live_def charge_def still_def go_map)

lemma wf_charge:
  "wf_limiter l \<Longrightarrow> 0 \<le> count e \<Longrightarrow> map_of (entries l) key \<noteq> None \<or> length (entries l) < maxEntries l \<Longrightarrow>
    wf_limiter (charge l key e)"
  by (auto simp: wf_limiter_def charge_def go_map set_update length_update)

section \<open>The operations refine the table of budgets\<close>

text \<open>
  The abstract limiter grants a unit on a set of keys when each has budget left and the keys
  without a live budget fit in the table, and then charges all of them; otherwise none.
\<close>

definition grantable :: "limiter \<Rightarrow> time \<Rightarrow> int \<Rightarrow> string set \<Rightarrow> bool" where
  "grantable l now limit K \<longleftrightarrow> (\<forall>k \<in> K. spent l now k < limit) \<and>
     capacity l now (card {k \<in> K. live l now k = None})"

definition granted :: "limiter \<Rightarrow> time \<Rightarrow> duration \<Rightarrow> string set \<Rightarrow> time \<Rightarrow> string \<Rightarrow> entry option" where
  "granted l now window K t =
     (\<lambda>k. if k \<in> K then still t (Some (charged (live l now k) now window)) else live l t k)"

definition refines :: "limiter \<Rightarrow> time \<Rightarrow> int \<Rightarrow> duration \<Rightarrow> string set \<Rightarrow> limiter \<times> bool \<Rightarrow> bool" where
  "refines l now limit window K r \<longleftrightarrow> wf_limiter (fst r) \<and> maxEntries (fst r) = maxEntries l \<and>
     (snd r \<longleftrightarrow> grantable l now limit K) \<and>
     (\<forall>t \<ge> now. live (fst r) t = (if snd r then granted l now window K t else live l t))"

lemma pending_keys:
  "{k \<in> {a}. P k} = (if P a then {a} else {})"
  "{k \<in> {a, b}. P k} = (if P a then {a} else {}) \<union> (if P b then {b} else {})"
  by auto

lemma capacity_0 [simp]: "capacity l now 0"
  by (simp add: capacity_def)

text \<open>Charging consecutively and finishing with the periodic cleanup.\<close>

lemma consume_refines:
  assumes "same_budgets now l l2" "grantable l now limit K" "wf_limiter l3"
    and "\<And>t. now \<le> t \<Longrightarrow> live l3 t = granted l2 now window K t"
    and "maxEntries l3 = maxEntries l2"
  shows "refines l now limit window K (afterConsume l3 now, True)"
proof -
  note after = afterConsume_budgets [OF assms(3), of now]
  have "granted l2 now window K t = granted l now window K t" if "now \<le> t" for t
    using that same_budgets_live [OF assms(1)] by (auto simp: granted_def fun_eq_iff)
  then have "live (afterConsume l3 now) t = granted l now window K t" if "now \<le> t" for t
    using that same_budgets_live [OF after] assms(4) by (auto simp: fun_eq_iff)
  then show ?thesis
    using assms after by (auto simp: refines_def same_budgets_def)
qed

lemma reject_refines:
  "same_budgets now l l2 \<Longrightarrow> \<not> grantable l now limit K \<Longrightarrow> refines l now limit window K (l2, False)"
  by (auto simp: refines_def same_budgets_def)

lemma live_count: "wf_limiter l \<Longrightarrow> live l now k = Some e \<Longrightarrow> 1 \<le> count e"
  by (force simp: wf_limiter_def live_def split: option.splits if_splits dest!: map_of_SomeD)

lemma spent_nonneg: "wf_limiter l \<Longrightarrow> 0 \<le> spent l now k"
  using live_count [of l now k] by (force simp: spent_def split: option.splits)

lemma Allow_refines:
  assumes wf: "wf_limiter l" and limit: "0 < limit"
  shows "refines l now limit window {normalizeKey key} (Allow l key limit window now)"
proof -
  define k where "k = normalizeKey key"
  obtain l1 e found where ce: "currentEntry l k now window = (l1, e, found)"
    by (metis prod_cases3)
  note c = currentEntry_budgets [OF wf ce]
  obtain l2 fits where ec: "(if found then (l1, True) else ensureCapacity l1 now 1) = (l2, fits)"
    by (metis surj_pair)
  have wf1: "wf_limiter l1" using c(1) by (rule same_budgets_wf)
  have b: "same_budgets now l l2" and fits: "fits \<longleftrightarrow> found \<or> capacity l now 1"
    and room: "fits \<Longrightarrow> map_of (entries l2) k \<noteq> None \<or> length (entries l2) < maxEntries l2"
    using ec c(1,6) ensureCapacity_budgets(1,2,3) [OF wf1, of now 1 l2 fits]
    by (auto simp: same_budgets_capacity split: if_splits intro: same_budgets_trans)
  have ok: "grantable l now limit {k} \<longleftrightarrow> fits \<and> count e < limit"
    using fits c(2,4) unfolding grantable_def pending_keys by auto
  have run: "Allow l key limit window now =
      (if fits \<and> count e < limit then (afterConsume (charge l2 k e) now, True) else (l2, False))"
    using limit ce ec by (auto simp: Allow_def k_def [symmetric] Let_def split: if_splits prod.splits)
  have "refines l now limit window {k} (afterConsume (charge l2 k e) now, True)" if "fits \<and> count e < limit"
  proof (rule consume_refines [OF b])
    show "grantable l now limit {k}" using ok that by simp
    show "wf_limiter (charge l2 k e)"
      using room that spent_nonneg [OF wf, of now k] c(4) by (intro wf_charge same_budgets_wf [OF b]) auto
    show "live (charge l2 k e) t = granted l2 now window {k} t" for t
      using same_budgets_live [OF b order_refl] by (auto simp: live_charge granted_def c(3))
    show "maxEntries (charge l2 k e) = maxEntries l2" by (simp add: charge_def)
  qed
  then show ?thesis
    unfolding k_def [symmetric] run using b ok by (auto intro: reject_refines)
qed

lemma Allow_disabled: "limit \<le> 0 \<Longrightarrow> Allow l key limit window now = (l, True)"
  by (simp add: Allow_def)

lemma AllowPair_same: "normalizeKey first = normalizeKey second \<Longrightarrow>
    snd (AllowPair l first second limit window now) = snd (Allow l first limit window now)"
  by (auto simp: AllowPair_def Allow_def Let_def split: prod.splits)

lemma AllowPair_refines_same:
  assumes wf: "wf_limiter l" and limit: "0 < limit" and same: "normalizeKey second = normalizeKey first"
  shows "refines l now limit window {normalizeKey first} (AllowPair l first second limit window now)"
proof (cases "AllowPair l first second limit window now = Allow l first limit window now")
  case True
  then show ?thesis using Allow_refines [OF wf limit] by simp
next
  case False
  define k where "k = normalizeKey first"
  obtain l1 e found where ce: "currentEntry l k now window = (l1, e, found)"
    by (metis prod_cases3)
  note c = currentEntry_budgets [OF wf ce]
  have full: "limit \<le> count e" and run: "AllowPair l first second limit window now = (l1, False)"
    using False limit ce same
    by (auto simp: AllowPair_def Allow_def k_def [symmetric] Let_def split: if_splits prod.splits)
  then show ?thesis
    using c(1,4) by (auto simp: grantable_def k_def [symmetric] intro!: reject_refines)
qed

lemma live_mapped: "live l now k \<noteq> None \<Longrightarrow> map_of (entries l) k \<noteq> None"
  by (auto simp: live_def split: option.splits)

lemma AllowPair_refines_distinct:
  assumes wf: "wf_limiter l" and limit: "0 < limit"
    and diff: "normalizeKey first \<noteq> normalizeKey second"
  shows "refines l now limit window {normalizeKey first, normalizeKey second}
    (AllowPair l first second limit window now)"
proof -
  define k m where "k = normalizeKey first" and "m = normalizeKey second"
  obtain l1 a f where ce1: "currentEntry l k now window = (l1, a, f)"
    by (metis prod_cases3)
  note c1 = currentEntry_budgets [OF wf ce1]
  obtain l2 b g where ce2: "currentEntry l1 m now window = (l2, b, g)"
    by (metis prod_cases3)
  note c2 = currentEntry_budgets [OF same_budgets_wf [OF c1(1)] ce2]
  define n :: nat where "n = (if f then 0 else 1) + (if g then 0 else 1)"
  obtain l3 fits where ec: "ensureCapacity l2 now n = (l3, fits)"
    by (metis surj_pair)
  note c3 = ensureCapacity_budgets [OF same_budgets_wf [OF c2(1)] ec]
  have b2: "same_budgets now l l2" using c1(1) c2(1) by (rule same_budgets_trans)
  then have b3: "same_budgets now l l3" using c3(1) by (rule same_budgets_trans)
  have lv: "live l1 now m = live l now m" "live l3 now k = live l now k" "live l3 now m = live l now m"
    using c1(1) b3 by (simp_all add: same_budgets_live)
  have sp: "count b = spent l now m"
    using c2(4) lv(1) by (simp add: spent_def)
  have km: "k \<noteq> m" using diff by (simp add: k_def m_def)
  have n: "card {x \<in> {k, m}. live l now x = None} = n"
    using c1(2) c2(2) lv(1) km unfolding pending_keys n_def by (auto simp: card_insert_if)
  have ok: "grantable l now limit {k, m} \<longleftrightarrow> count a < limit \<and> count b < limit \<and> fits"
    unfolding grantable_def n c3(2) same_budgets_capacity [OF b2] using c1(4) sp by auto
  have run: "AllowPair l first second limit window now =
      (if limit \<le> count a \<or> limit \<le> count b then (l2, False)
       else if fits then (afterConsume (charge (charge l3 k a) m b) now, True) else (l3, False))"
    using limit km ce1 ce2 ec
    by (auto simp: AllowPair_def k_def [symmetric] m_def [symmetric] n_def Let_def split: prod.splits)
  have "refines l now limit window {k, m} (afterConsume (charge (charge l3 k a) m b) now, True)"
    if g1: "grantable l now limit {k, m}"
  proof (rule consume_refines [OF b3 g1])
    have "f \<Longrightarrow> map_of (entries l3) k \<noteq> None" "g \<Longrightarrow> map_of (entries l3) m \<noteq> None"
      using live_mapped [of l3 now k] live_mapped [of l3 now m] c1(2) c2(2) lv by simp_all
    moreover have "n = 0 \<or> length (entries l3) + n \<le> maxEntries l3"
      using c3(3) ok g1 by simp
    moreover have "0 \<le> count a" "0 \<le> count b"
      using spent_nonneg [OF wf] c1(4) sp by simp_all
    ultimately show "wf_limiter (charge (charge l3 k a) m b)"
      using km by (intro wf_charge same_budgets_wf [OF b3])
        (auto simp: charge_def go_map length_update n_def split: if_splits)
    show "live (charge (charge l3 k a) m b) t = granted l3 now window {k, m} t" for t
      using km lv by (auto simp: live_charge granted_def c1(3) c2(3))
    show "maxEntries (charge (charge l3 k a) m b) = maxEntries l3" by (simp add: charge_def)
  qed
  then show ?thesis
    unfolding k_def [symmetric] m_def [symmetric] run using b2 b3 ok by (auto intro: reject_refines)
qed

lemma AllowPair_refines:
  assumes "wf_limiter l" "0 < limit"
  shows "refines l now limit window {normalizeKey first, normalizeKey second}
    (AllowPair l first second limit window now)"
  using AllowPair_refines_same [OF assms] AllowPair_refines_distinct [OF assms]
  by (cases "normalizeKey second = normalizeKey first") auto

lemma AllowPair_disabled: "limit \<le> 0 \<Longrightarrow> AllowPair l first second limit window now = (l, True)"
  by (simp add: AllowPair_def)

lemma New_wf [simp]: "wf_limiter New"
  by (simp add: New_def wf_limiter_def)

section \<open>Sequences of requests\<close>

text \<open>
  A request asks for one unit on one key or on a pair of keys.  A run serves timed requests
  in order; \<open>grants k P l rs\<close> counts the granted units charged to \<open>k\<close> at the times in \<open>P\<close>.
\<close>

datatype request =
    One string int duration
  | Pair string string int duration

fun serve :: "limiter \<Rightarrow> time \<Rightarrow> request \<Rightarrow> limiter \<times> bool" where
  "serve l now (One key limit window) = Allow l key limit window now"
| "serve l now (Pair a b limit window) = AllowPair l a b limit window now"

fun keys :: "request \<Rightarrow> string set" where
  "keys (One key limit window) = {normalizeKey key}"
| "keys (Pair a b limit window) = {normalizeKey a, normalizeKey b}"

fun limit_of :: "request \<Rightarrow> int" where
  "limit_of (One key limit window) = limit"
| "limit_of (Pair a b limit window) = limit"

fun window_of :: "request \<Rightarrow> duration" where
  "window_of (One key limit window) = window"
| "window_of (Pair a b limit window) = window"

fun serve_all :: "limiter \<Rightarrow> (time \<times> request) list \<Rightarrow> limiter" where
  "serve_all l [] = l"
| "serve_all l ((t, q) # rs) = serve_all (fst (serve l t q)) rs"

fun grants :: "string \<Rightarrow> (time \<Rightarrow> bool) \<Rightarrow> limiter \<Rightarrow> (time \<times> request) list \<Rightarrow> int" where
  "grants k P l [] = 0"
| "grants k P l ((t, q) # rs) =
     (if snd (serve l t q) \<and> k \<in> keys q \<and> P t then 1 else 0) + grants k P (fst (serve l t q)) rs"

lemma serve_refines:
  "wf_limiter l \<Longrightarrow> 0 < limit_of q \<Longrightarrow>
    refines l t (limit_of q) (window_of q) (keys q) (serve l t q)"
  by (cases q) (simp_all add: Allow_refines AllowPair_refines)

lemma serve_disabled: "limit_of q \<le> 0 \<Longrightarrow> serve l t q = (l, True)"
  by (cases q) (simp_all add: Allow_disabled AllowPair_disabled)

lemma serve_wf: "wf_limiter l \<Longrightarrow> wf_limiter (fst (serve l t q))"
  by (cases "0 < limit_of q") (auto simp: serve_disabled refines_def dest: serve_refines [of l q t])

lemma serve_max: "wf_limiter l \<Longrightarrow> maxEntries (fst (serve l t q)) = maxEntries l"
  by (cases "0 < limit_of q") (auto simp: serve_disabled refines_def dest: serve_refines [of l q t])

lemma serve_all_wf:
  "wf_limiter l \<Longrightarrow> wf_limiter (serve_all l rs) \<and> maxEntries (serve_all l rs) = maxEntries l"
  by (induction rs arbitrary: l) (auto simp: serve_wf serve_max)

text \<open>The requests that name \<open>k\<close> share one policy, and the clock does not go back.\<close>

definition policy :: "string \<Rightarrow> int \<Rightarrow> duration \<Rightarrow> (time \<times> request) list \<Rightarrow> bool" where
  "policy k limit window rs \<longleftrightarrow>
     (\<forall>(t, q) \<in> set rs. k \<in> keys q \<longrightarrow> limit_of q = limit \<and> window_of q = window)"

definition chronological :: "time \<Rightarrow> (time \<times> request) list \<Rightarrow> bool" where
  "chronological now rs \<longleftrightarrow> sorted (map fst rs) \<and> (\<forall>(t, q) \<in> set rs. now \<le> t)"

lemma policy_Cons [simp]: "policy k limit window ((t, q) # rs) \<longleftrightarrow>
    (k \<in> keys q \<longrightarrow> limit_of q = limit \<and> window_of q = window) \<and> policy k limit window rs"
  by (simp add: policy_def)

lemma chronological_Cons [simp]:
  "chronological now ((t, q) # rs) \<longleftrightarrow> now \<le> t \<and> chronological t rs"
  by (auto simp: chronological_def)

text \<open>What one request does to the budget of \<open>k\<close>.\<close>

lemma serve_budget:
  assumes wf: "wf_limiter l" and lim: "0 < limit" and pol: "policy k limit window [(t, q)]"
  shows "live (fst (serve l t q)) t k =
      (if snd (serve l t q) \<and> k \<in> keys q then still t (Some (charged (live l t k) t window)) else live l t k)"
    and "snd (serve l t q) \<Longrightarrow> k \<in> keys q \<Longrightarrow> spent l t k < limit"
proof -
  have same: "still t (live l t k) = live l t k"
    by (auto simp: still_def live_def split: option.splits)
  show "live (fst (serve l t q)) t k =
      (if snd (serve l t q) \<and> k \<in> keys q then still t (Some (charged (live l t k) t window)) else live l t k)"
    using serve_refines [OF wf, of q t] serve_disabled [of q l t] lim pol
    by (cases "0 < limit_of q") (auto simp: refines_def granted_def policy_def)
  show "snd (serve l t q) \<Longrightarrow> k \<in> keys q \<Longrightarrow> spent l t k < limit"
    using serve_refines [OF wf, of q t] lim pol by (auto simp: refines_def grantable_def policy_def)
qed

lemma grants_late: "chronological now rs \<Longrightarrow> hi \<le> now \<Longrightarrow> grants k (\<lambda>t. t < hi) l rs = 0"
  by (induction rs arbitrary: l now) (auto simp: not_less)

lemma grants_mono:
  assumes "\<And>t. P t \<Longrightarrow> Q t"
  shows "grants k P l rs \<le> grants k Q l rs"
proof (induction rs arbitrary: l)
  case (Cons a rs)
  obtain t q where a: "a = (t, q)" by (cases a)
  have "grants k P (fst (serve l t q)) rs \<le> grants k Q (fst (serve l t q)) rs"
    by (rule Cons)
  moreover have "P t \<Longrightarrow> Q t" by (rule assms)
  ultimately show ?case by (auto simp: a)
qed simp

text \<open>Until its window ends, a live budget grants at most what is left of it.\<close>

lemma grants_window:
  assumes "wf_limiter l" "0 < limit" "0 < window" "policy k limit window rs" "chronological now rs"
    and "live l now k = Some e" "count e \<le> limit"
  shows "grants k (\<lambda>t. t < resetAt e) l rs \<le> limit - count e"
  using assms
proof (induction rs arbitrary: l now e)
  case (Cons a rs)
  obtain t q where a: "a = (t, q)" by (cases a)
  have t: "now \<le> t" "chronological t rs" and pol: "policy k limit window [(t, q)]" "policy k limit window rs"
    using Cons.prems by (auto simp: a policy_def)
  note wf = serve_wf [OF Cons.prems(1), of t q]
  show ?case
  proof (cases "t < resetAt e")
    case False
    then show ?thesis
      using grants_late [OF t(2), of "resetAt e"] Cons.prems(7) by (simp add: a)
  next
    case True
    then have lt: "live l t k = Some e"
      using live_later [OF t(1), of l k] Cons.prems(6) by (simp add: still_def)
    note b = serve_budget [OF Cons.prems(1,2) pol(1)]
    show ?thesis
    proof (cases "snd (serve l t q) \<and> k \<in> keys q")
      case True
      let ?e = "e\<lparr>count := count e + 1\<rparr>"
      have "live (fst (serve l t q)) t k = Some ?e"
        using b(1) True lt \<open>t < resetAt e\<close> by (simp add: still_def charged_def)
      moreover have "count e < limit"
        using b(2) True lt by (simp add: spent_def)
      ultimately show ?thesis
        using Cons.IH [OF wf Cons.prems(2,3) pol(2) t(2), of ?e] True by (simp add: a)
    next
      case False
      then have "live (fst (serve l t q)) t k = Some e"
        using b(1) lt False by auto
      then show ?thesis
        using Cons.IH [OF wf Cons.prems(2,3) pol(2) t(2)] False Cons.prems(7) by (auto simp: a)
    qed
  qed
qed simp

text \<open>With no live budget, a whole window from now on grants at most the limit.\<close>

lemma grants_fresh:
  assumes "wf_limiter l" "0 < limit" "0 < window" "policy k limit window rs" "chronological now rs"
    and "live l now k = None" "hi \<le> now + window"
  shows "grants k (\<lambda>t. t < hi) l rs \<le> limit"
  using assms
proof (induction rs arbitrary: l now)
  case (Cons a rs)
  obtain t q where a: "a = (t, q)" by (cases a)
  have t: "now \<le> t" "chronological t rs" and pol: "policy k limit window [(t, q)]" "policy k limit window rs"
    using Cons.prems by (auto simp: a policy_def)
  note wf = serve_wf [OF Cons.prems(1), of t q]
  note b = serve_budget [OF Cons.prems(1,2) pol(1)]
  have lt: "live l t k = None"
    using live_later [OF t(1), of l k] Cons.prems(6) by (simp add: still_def)
  show ?case
  proof (cases "snd (serve l t q) \<and> k \<in> keys q")
    case True
    let ?e = "\<lparr>resetAt = t + window, count = 1\<rparr>"
    have "live (fst (serve l t q)) t k = Some ?e"
      using b(1) True lt Cons.prems(3) by (simp add: still_def charged_def)
    then have "grants k (\<lambda>s. s < t + window) (fst (serve l t q)) rs \<le> limit - 1"
      using grants_window [OF wf Cons.prems(2,3) pol(2) t(2), of ?e] Cons.prems(2) by simp
    moreover have "grants k (\<lambda>s. s < hi) (fst (serve l t q)) rs \<le>
        grants k (\<lambda>s. s < t + window) (fst (serve l t q)) rs"
      using t(1) Cons.prems(7) by (intro grants_mono) simp
    ultimately show ?thesis using True by (simp add: a)
  next
    case False
    then have "live (fst (serve l t q)) t k = None"
      using b(1) lt False by auto
    then show ?thesis
      using Cons.IH [OF wf Cons.prems(2,3) pol(2) t(2)] False t(1) Cons.prems(7) by (auto simp: a)
  qed
qed simp

text \<open>In general an interval sees the end of one window and the start of the next.\<close>

lemma grants_split:
  "grants k (\<lambda>t. t < hi) l rs =
    grants k (\<lambda>t. t < hi \<and> t < r) l rs + grants k (\<lambda>t. r \<le> t \<and> t < hi) l rs"
  by (induction rs arbitrary: l) auto

lemma spent_later: "wf_limiter l \<Longrightarrow> now \<le> t \<Longrightarrow> spent l t k \<le> spent l now k"
  using spent_nonneg [of l now k] by (auto simp: spent_def live_later still_def split: option.splits)

lemma serve_spent:
  assumes "wf_limiter l" "0 < limit" "policy k limit window [(t, q)]" "spent l t k \<le> limit"
  shows "spent (fst (serve l t q)) t k \<le> limit"
proof (cases "snd (serve l t q) \<and> k \<in> keys q")
  case True
  then show ?thesis
    using serve_budget [OF assms(1-3)] assms(2,4)
    by (auto simp: spent_def still_def charged_def split: option.splits)
next
  case False
  then have "live (fst (serve l t q)) t k = live l t k"
    using serve_budget(1) [OF assms(1-3)] by auto
  then show ?thesis using assms(4) by (simp add: spent_def)
qed

lemma grants_after:
  assumes "wf_limiter l" "0 < limit" "0 < window" "policy k limit window rs" "chronological now rs"
    and "live l now k = Some e" "resetAt e = r" "hi \<le> now + window"
  shows "grants k (\<lambda>t. r \<le> t \<and> t < hi) l rs \<le> limit"
  using assms
proof (induction rs arbitrary: l now e)
  case (Cons a rs)
  obtain t q where a: "a = (t, q)" by (cases a)
  have t: "now \<le> t" "chronological t rs" and pol: "policy k limit window [(t, q)]" "policy k limit window rs"
    using Cons.prems by (auto simp: a policy_def)
  note wf = serve_wf [OF Cons.prems(1), of t q]
  show ?case
  proof (cases "t < r")
    case True
    then have lt: "live l t k = Some e"
      using live_later [OF t(1), of l k] Cons.prems(6,7) by (simp add: still_def)
    obtain e' where "live (fst (serve l t q)) t k = Some e'" "resetAt e' = r"
      using serve_budget(1) [OF Cons.prems(1,2) pol(1)] lt True Cons.prems(7)
      by (auto simp: still_def charged_def split: if_splits)
    then show ?thesis
      using Cons.IH [OF wf Cons.prems(2,3) pol(2) t(2)] t(1) Cons.prems(8) True by (simp add: a)
  next
    case False
    then have "live l t k = None"
      using live_later [OF t(1), of l k] Cons.prems(6,7) by (simp add: still_def)
    then have "grants k (\<lambda>t. t < hi) l (a # rs) \<le> limit"
      using Cons.prems t by (intro grants_fresh [where now = t and window = window]) (auto simp: a)
    moreover have "grants k (\<lambda>t. r \<le> t \<and> t < hi) l (a # rs) \<le> grants k (\<lambda>t. t < hi) l (a # rs)"
      by (rule grants_mono) simp
    ultimately show ?thesis by simp
  qed
qed simp

lemma grants_two:
  assumes "wf_limiter l" "0 < limit" "0 < window" "policy k limit window rs" "chronological now rs"
    and "spent l now k \<le> limit" "hi \<le> now + window"
  shows "grants k (\<lambda>t. t < hi) l rs \<le> 2 * limit - 1"
proof (cases "live l now k")
  case None
  then show ?thesis using grants_fresh [OF assms(1-5) None assms(7)] assms(2) by simp
next
  case (Some e)
  have "count e \<le> limit" using assms(6) Some by (simp add: spent_def)
  then have "grants k (\<lambda>t. t < resetAt e) l rs \<le> limit - 1"
    using grants_window [OF assms(1-5) Some] live_count [OF assms(1) Some] by simp
  moreover have "grants k (\<lambda>t. t < hi \<and> t < resetAt e) l rs \<le> grants k (\<lambda>t. t < resetAt e) l rs"
    by (rule grants_mono) simp
  moreover have "grants k (\<lambda>t. resetAt e \<le> t \<and> t < hi) l rs \<le> limit"
    using grants_after [OF assms(1-5) Some refl assms(7)] .
  ultimately show ?thesis by (subst grants_split [where r = "resetAt e"]) simp
qed

lemma grants_interval:
  assumes "wf_limiter l" "0 < limit" "0 < window" "policy k limit window rs" "chronological now rs"
    and "spent l now k \<le> limit"
  shows "grants k (\<lambda>t. lo \<le> t \<and> t < lo + window) l rs \<le> 2 * limit - 1"
  using assms
proof (induction rs arbitrary: l now)
  case (Cons a rs)
  obtain t q where a: "a = (t, q)" by (cases a)
  have t: "now \<le> t" "chronological t rs" and pol: "policy k limit window [(t, q)]" "policy k limit window rs"
    using Cons.prems by (auto simp: a policy_def)
  have sp: "spent l t k \<le> limit"
    using spent_later [OF Cons.prems(1) t(1), of k] Cons.prems(6) by simp
  show ?case
  proof (cases "lo \<le> t")
    case True
    have "grants k (\<lambda>t. t < lo + window) l (a # rs) \<le> 2 * limit - 1"
      using Cons.prems t sp True by (intro grants_two [where now = t and window = window]) (auto simp: a)
    moreover have "grants k (\<lambda>t. lo \<le> t \<and> t < lo + window) l (a # rs) \<le> grants k (\<lambda>t. t < lo + window) l (a # rs)"
      by (rule grants_mono) simp
    ultimately show ?thesis by simp
  next
    case False
    then show ?thesis
      using Cons.IH [OF serve_wf [OF Cons.prems(1)] Cons.prems(2,3) pol(2) t(2)
          serve_spent [OF Cons.prems(1,2) pol(1) sp]] by (simp add: a)
  qed
qed simp

section \<open>The contract the servers rely on\<close>

text \<open>The number of grants among \<open>n\<close> requests at one instant.\<close>

primrec burst :: "('l \<Rightarrow> 'l \<times> bool) \<Rightarrow> nat \<Rightarrow> 'l \<Rightarrow> int" where
  "burst f 0 l = 0"
| "burst f (Suc n) l = (if snd (f l) then 1 else 0) + burst f n (fst (f l))"

locale rate_limiter =
  fixes allow :: "'l \<Rightarrow> string \<Rightarrow> int \<Rightarrow> duration \<Rightarrow> time \<Rightarrow> 'l \<times> bool"
    and used :: "'l \<Rightarrow> time \<Rightarrow> string \<Rightarrow> int"
    and ok :: "'l \<Rightarrow> bool"
  assumes allow_ok: "ok l \<Longrightarrow> ok (fst (allow l k limit window t))"
    and unlimited: "limit \<le> 0 \<Longrightarrow> allow l k limit window t = (l, True)"
    and exhausted: "ok l \<Longrightarrow> 0 < limit \<Longrightarrow> limit \<le> used l t (normalizeKey k) \<Longrightarrow>
      \<not> snd (allow l k limit window t)"
    and other_key: "ok l \<Longrightarrow> k' \<noteq> normalizeKey k \<Longrightarrow> t \<le> t' \<Longrightarrow>
      used (fst (allow l k limit window t)) t' k' = used l t' k'"
    and denied: "ok l \<Longrightarrow> \<not> snd (allow l k limit window t) \<Longrightarrow> t \<le> t' \<Longrightarrow>
      used (fst (allow l k limit window t)) t' k' = used l t' k'"
    and consumed: "ok l \<Longrightarrow> 0 < limit \<Longrightarrow> 0 < window \<Longrightarrow> snd (allow l k limit window t) \<Longrightarrow>
      used (fst (allow l k limit window t)) t (normalizeKey k) = used l t (normalizeKey k) + 1"
begin

lemma burst_bound:
  assumes "ok l" "0 < limit" "0 < window" "used l t (normalizeKey k) \<le> limit"
  shows "burst (\<lambda>l. allow l k limit window t) n l \<le> limit - used l t (normalizeKey k)"
  using assms
proof (induction n arbitrary: l)
  case (Suc n)
  let ?l = "fst (allow l k limit window t)"
  show ?case
  proof (cases "snd (allow l k limit window t)")
    case True
    then have "used ?l t (normalizeKey k) = used l t (normalizeKey k) + 1"
      by (rule consumed [OF Suc.prems(1-3)])
    moreover have "\<not> limit \<le> used l t (normalizeKey k)"
      using exhausted [OF Suc.prems(1,2)] True by blast
    ultimately show ?thesis
      using Suc.IH [OF allow_ok [OF Suc.prems(1), of k limit window t] Suc.prems(2,3)] True by simp
  next
    case False
    then have "used ?l t (normalizeKey k) = used l t (normalizeKey k)"
      using denied [OF Suc.prems(1)] by simp
    then show ?thesis
      using Suc.IH [OF allow_ok [OF Suc.prems(1), of k limit window t] Suc.prems(2,3)] Suc.prems(4) False
      by simp
  qed
qed simp

end

lemma spent_granted:
  "refines l now limit window K r \<Longrightarrow> now \<le> t \<Longrightarrow> k \<notin> K \<or> \<not> snd r \<Longrightarrow> spent (fst r) t k = spent l t k"
  by (auto simp: refines_def spent_def granted_def)

lemma spent_consumed:
  "refines l now limit window K r \<Longrightarrow> 0 < window \<Longrightarrow> k \<in> K \<Longrightarrow> snd r \<Longrightarrow>
    spent (fst r) now k = spent l now k + 1"
  by (auto simp: refines_def spent_def granted_def charged_def still_def live_def split: option.splits if_splits)

interpretation fixed_window: rate_limiter Allow spent wf_limiter
proof
  fix l k limit window t
  assume wf: "wf_limiter l"
  note r = Allow_refines [OF wf, where limit = limit and window = window and key = k and now = t]
  show "wf_limiter (fst (Allow l k limit window t))"
    using wf r Allow_disabled [of limit l k window t] by (cases "0 < limit") (auto simp: refines_def)
  show "\<not> snd (Allow l k limit window t)" if "0 < limit" "limit \<le> spent l t (normalizeKey k)"
    using r [OF that(1)] that(2) by (auto simp: refines_def grantable_def)
  show "spent (fst (Allow l k limit window t)) t' k' = spent l t' k'"
    if "k' \<noteq> normalizeKey k" "t \<le> t'" for k' t'
    using spent_granted [OF r that(2)] that Allow_disabled [of limit l k window t] by (cases "0 < limit") auto
  show "spent (fst (Allow l k limit window t)) t' k' = spent l t' k'"
    if "\<not> snd (Allow l k limit window t)" "t \<le> t'" for k' t'
    using spent_granted [OF r that(2)] that Allow_disabled [of limit l k window t] by (cases "0 < limit") auto
  show "spent (fst (Allow l k limit window t)) t (normalizeKey k) = spent l t (normalizeKey k) + 1"
    if "0 < limit" "0 < window" "snd (Allow l k limit window t)"
    using spent_consumed [OF r [OF that(1)] that(2)] that(3) by simp
qed (rule Allow_disabled)

text \<open>Concrete runs evaluate by these equations.\<close>

lemmas limiter_eval = Allow_def AllowPair_def Let_def currentEntry_def ensureCapacity_def
  cleanupExpired_def afterConsume_def charge_def normalizeKey_def New_def defaultMaxEntries_def
  live_def spent_def live_entries_def

section \<open>Properties of the limiter\<close>

text \<open>
  C34. Refinement: a request with a positive limit is granted exactly when every key it names
  has budget left and the keys without a live budget fit in the table; a grant charges each of
  those keys and nothing else, a refusal charges nothing, now and at every later time.  Expiry,
  opportunistic deletion and the periodic cleanup are invisible.
\<close>

theorem limiter_refines_budgets:
  assumes "wf_limiter l" "0 < limit"
  shows "refines l now limit window {normalizeKey key} (Allow l key limit window now) \<and>
    refines l now limit window {normalizeKey first, normalizeKey second}
      (AllowPair l first second limit window now)"
  using Allow_refines [OF assms] AllowPair_refines [OF assms] by blast

theorem limiter_refines_budgets_witness:
  "refines New 5 2 10 {''peer'', ''unknown''} (AllowPair New ''peer'' '''' 2 10 5)"
  using limiter_refines_budgets [of New 2 5 10 "''peer''" "''peer''" "''''"]
  by (simp add: normalizeKey_def)

text \<open>
  A pair is charged atomically: either both keys pay one unit, or neither budget changes
  at any later time, and a third key is never affected.
\<close>

lemma pair_is_all_or_nothing:
  assumes "wf_limiter l" "0 < limit" "0 < window" "AllowPair l first second limit window now = (l', ok)"
  shows "if ok
    then spent l' now (normalizeKey first) = spent l now (normalizeKey first) + 1 \<and>
      spent l' now (normalizeKey second) = spent l now (normalizeKey second) + 1 \<and>
      (\<forall>k t. now \<le> t \<and> k \<notin> {normalizeKey first, normalizeKey second} \<longrightarrow> spent l' t k = spent l t k)
    else \<forall>k t. now \<le> t \<longrightarrow> spent l' t k = spent l t k"
proof -
  have "refines l now limit window {normalizeKey first, normalizeKey second} (l', ok)"
    using AllowPair_refines [OF assms(1,2), of now window first second] assms(4) by simp
  from spent_granted [OF this] spent_consumed [OF this assms(3)] show ?thesis by auto
qed

text \<open>
  C35. The rate: as long as the requests naming a key share one limit and one window and the
  clock does not go back, no interval as long as the window contains more than twice the limit
  less one grants for that key, whatever other keys, pairs and cleanups happen in between.
\<close>

theorem rate_bound:
  assumes "0 < limit" "0 < window" "policy k limit window rs" "chronological now rs"
    and "wf_limiter l" "spent l now k \<le> limit"
  shows "grants k (\<lambda>t. lo \<le> t \<and> t < lo + window) l rs \<le> 2 * limit - 1"
  using grants_interval assms by blast

text \<open>The bound is attained: three of these four requests fall into the interval from 9 to 18.\<close>

theorem rate_bound_witness:
  "grants ''a'' (\<lambda>t. 9 \<le> t \<and> t < 9 + 10) New
     [(0, One ''a'' 2 10), (9, Pair ''a'' ''b'' 2 10), (10, One ''a'' 2 10), (11, One ''a'' 2 10)]
   = 2 * 2 - 1"
proof -
  let ?rs = "[(0, One ''a'' 2 10), (9, Pair ''a'' ''b'' 2 10), (10, One ''a'' 2 10), (11, One ''a'' 2 10)]"
  have "grants ''a'' (\<lambda>t. 9 \<le> t \<and> t < 9 + 10) New ?rs \<le> 2 * 2 - 1"
    by (rule rate_bound [where now = 0])
      (simp_all add: policy_def chronological_def spent_def live_def New_def normalizeKey_def wf_limiter_def)
  moreover have "3 \<le> grants ''a'' (\<lambda>t. 9 \<le> t \<and> t < 9 + 10) New ?rs"
    by (simp add: limiter_eval)
  ultimately show ?thesis by simp
qed

text \<open>
  C36. Memory: however many distinct keys are presented, the table never holds more than
  \<open>maxEntries\<close> entries; and once all windows have ended a new key is served again.
\<close>

theorem cardinality_bounded_and_recovers:
  assumes "wf_limiter l" "0 < maxEntries l" "0 < limit"
    and "\<And>k. live (serve_all l rs) now k = None"
  shows "length (entries (serve_all l rs)) \<le> maxEntries l \<and>
    snd (Allow (serve_all l rs) key limit window now)"
proof -
  let ?l = "serve_all l rs"
  have wf: "wf_limiter ?l" and m: "maxEntries ?l = maxEntries l"
    using serve_all_wf [OF assms(1)] by blast+
  have "live_entries ?l now = []"
  proof (rule ccontr)
    assume "live_entries ?l now \<noteq> []"
    then obtain k e where "(k, e) \<in> set (live_entries ?l now)"
      by (metis list.set_intros(1) neq_Nil_conv surj_pair)
    then have "(k, e) \<in> set (entries ?l)" "now < resetAt e"
      by (auto simp: live_entries_def)
    then have "live ?l now k = Some e"
      using map_of_set_iff [of "entries ?l" k e] wf by (simp add: live_def)
    then show False using assms(4) by simp
  qed
  then have "grantable ?l now limit {normalizeKey key}"
    using assms(2-4) m unfolding grantable_def pending_keys by (simp add: capacity_def spent_def)
  then show ?thesis
    using Allow_refines [OF wf assms(3), of now window key] wf m
    by (simp add: refines_def wf_limiter_def)
qed

theorem cardinality_bounded_and_recovers_witness:
  "snd (Allow (serve_all (New\<lparr>maxEntries := 2\<rparr>)
      [(0, One ''spoof1'' 1 60), (1, One ''spoof2'' 1 60), (2, One ''spoof3'' 1 60)]) ''legitimate'' 1 60 61)"
proof -
  let ?l = "New\<lparr>maxEntries := 2\<rparr>"
  let ?rs = "[(0, One ''spoof1'' 1 60), (1, One ''spoof2'' 1 60), (2, One ''spoof3'' 1 60)]"
  have "live_entries (serve_all ?l ?rs) 61 = []"
    by (simp add: limiter_eval)
  then have "live (serve_all ?l ?rs) 61 k = None" for k
    by (auto simp: live_def live_entries_def filter_empty_conv dest!: map_of_SomeD split: option.splits)
  moreover have "wf_limiter ?l" by (simp add: wf_limiter_def New_def)
  ultimately show ?thesis
    using cardinality_bounded_and_recovers [of ?l 1 ?rs 61 "''legitimate''" 60]
    by (simp add: New_def)
qed

end
