(* ===== verification/Metrics.thy ===== *)
theory Metrics
  imports Prelude "HOL-Library.List_Lexorder" "HOL-Library.Char_ord"
begin

text \<open>
  The metrics registry of \<open>internal/metrics/metrics.go\<close>: named counters, gauges and counter
  families with one label.  Looking a metric up creates it (the second look-up under the write
  lock makes the whole operation one get-or-create step), counters are unsigned 64-bit and wrap,
  gauges are the same bits read as signed.
\<close>

section \<open>State and operations\<close>

record labeledFamily =
  familyCounters :: "(string \<times> u64) list"
  labelKey :: string

record metrics =
  counters :: "(string \<times> u64) list"
  gauges :: "(string \<times> u64) list"
  families :: "(string \<times> labeledFamily) list"

definition NewMetrics :: metrics where
  "NewMetrics = \<lparr>counters = [], gauges = [], families = []\<rparr>"

definition get_or_create :: "string \<Rightarrow> 'v \<Rightarrow> (string \<times> 'v) list \<Rightarrow> (string \<times> 'v) list" where
  "get_or_create name fresh m = (case map_of m name of Some _ \<Rightarrow> m | None \<Rightarrow> AList.update name fresh m)"

definition modify :: "string \<Rightarrow> ('v \<Rightarrow> 'v) \<Rightarrow> (string \<times> 'v) list \<Rightarrow> (string \<times> 'v) list" where
  "modify name f m = (case map_of m name of Some v \<Rightarrow> AList.update name (f v) m | None \<Rightarrow> m)"

definition Counter :: "string \<Rightarrow> metrics \<Rightarrow> metrics" where
  "Counter name m = m\<lparr>counters := get_or_create name 0 (counters m)\<rparr>"

definition Gauge :: "string \<Rightarrow> metrics \<Rightarrow> metrics" where
  "Gauge name m = m\<lparr>gauges := get_or_create name 0 (gauges m)\<rparr>"

definition LabeledCounter :: "string \<Rightarrow> string \<Rightarrow> metrics \<Rightarrow> metrics" where
  "LabeledCounter name key m =
     m\<lparr>families := get_or_create name \<lparr>familyCounters = [], labelKey = key\<rparr> (families m)\<rparr>"

text \<open>\<open>m.Counter(name).Add(n)\<close>, \<open>m.Gauge(name).Set(n)\<close> and \<open>m.Gauge(name).Add(n)\<close>.\<close>

definition counter_add :: "string \<Rightarrow> u64 \<Rightarrow> metrics \<Rightarrow> metrics" where
  "counter_add name n m =
     (let m = Counter name m in m\<lparr>counters := modify name (\<lambda>v. v + n) (counters m)\<rparr>)"

definition gauge_set :: "string \<Rightarrow> u64 \<Rightarrow> metrics \<Rightarrow> metrics" where
  "gauge_set name n m =
     (let m = Gauge name m in m\<lparr>gauges := modify name (\<lambda>_. n) (gauges m)\<rparr>)"

definition gauge_add :: "string \<Rightarrow> u64 \<Rightarrow> metrics \<Rightarrow> metrics" where
  "gauge_add name n m =
     (let m = Gauge name m in m\<lparr>gauges := modify name (\<lambda>v. v + n) (gauges m)\<rparr>)"

abbreviation counter_inc :: "string \<Rightarrow> metrics \<Rightarrow> metrics" where
  "counter_inc name \<equiv> counter_add name 1"

abbreviation gauge_inc :: "string \<Rightarrow> metrics \<Rightarrow> metrics" where
  "gauge_inc name \<equiv> gauge_add name 1"

abbreviation gauge_dec :: "string \<Rightarrow> metrics \<Rightarrow> metrics" where
  "gauge_dec name \<equiv> gauge_add name (- 1)"

definition family_inc :: "string \<Rightarrow> labeledFamily \<Rightarrow> labeledFamily" where
  "family_inc labelValue f =
     f\<lparr>familyCounters := modify labelValue (\<lambda>v. v + 1) (get_or_create labelValue 0 (familyCounters f))\<rparr>"

text \<open>\<open>m.LabeledCounter(name, key).Inc(value)\<close>.\<close>

definition labeled_inc :: "string \<Rightarrow> string \<Rightarrow> string \<Rightarrow> metrics \<Rightarrow> metrics" where
  "labeled_inc name key value m =
     (let m = LabeledCounter name key m in m\<lparr>families := modify name (family_inc value) (families m)\<rparr>)"

section \<open>Reading values back\<close>

definition counter_value :: "metrics \<Rightarrow> string \<Rightarrow> u64" where
  "counter_value m name = (case map_of (counters m) name of None \<Rightarrow> 0 | Some v \<Rightarrow> v)"

definition gauge_value :: "metrics \<Rightarrow> string \<Rightarrow> u64" where
  "gauge_value m name = (case map_of (gauges m) name of None \<Rightarrow> 0 | Some v \<Rightarrow> v)"

definition labeled_value :: "metrics \<Rightarrow> string \<Rightarrow> string \<Rightarrow> u64" where
  "labeled_value m name value =
     (case map_of (families m) name of None \<Rightarrow> 0
      | Some f \<Rightarrow> (case map_of (familyCounters f) value of None \<Rightarrow> 0 | Some v \<Rightarrow> v))"

definition wf_metrics :: "metrics \<Rightarrow> bool" where
  "wf_metrics m \<longleftrightarrow> wf_map (counters m) \<and> wf_map (gauges m) \<and> wf_map (families m) \<and>
     (\<forall>f \<in> snd ` set (families m). wf_map (familyCounters f))"

lemma map_of_get_or_create [go_map]:
  "map_of (get_or_create name fresh m) k =
    (if k = name \<and> map_of m name = None then Some fresh else map_of m k)"
  by (auto simp: get_or_create_def go_map split: option.splits)

lemma map_of_modify [go_map]:
  "map_of (modify name f m) k = (if k = name then map_option f (map_of m name) else map_of m k)"
  by (auto simp: modify_def go_map split: option.splits)

lemma wf_get_or_create [go_map, intro]: "wf_map m \<Longrightarrow> wf_map (get_or_create name fresh m)"
  by (auto simp: get_or_create_def go_map split: option.splits)

lemma wf_modify [go_map, intro]: "wf_map m \<Longrightarrow> wf_map (modify name f m)"
  by (auto simp: modify_def go_map split: option.splits)

lemma counter_value_add [simp]:
  "counter_value (counter_add name n m) k = counter_value m k + (if k = name then n else 0)"
  by (auto simp: counter_value_def counter_add_def Counter_def Let_def go_map split: option.splits)

lemma gauge_value_add [simp]:
  "gauge_value (gauge_add name n m) k = gauge_value m k + (if k = name then n else 0)"
  by (auto simp: gauge_value_def gauge_add_def Gauge_def Let_def go_map split: option.splits)

lemma gauge_value_set [simp]:
  "gauge_value (gauge_set name n m) k = (if k = name then n else gauge_value m k)"
  by (auto simp: gauge_value_def gauge_set_def Gauge_def Let_def go_map split: option.splits)

lemma labeled_value_inc [simp]:
  "labeled_value (labeled_inc name key value m) n' v' =
    labeled_value m n' v' + (if n' = name \<and> v' = value then 1 else 0)"
  by (auto simp: labeled_value_def labeled_inc_def LabeledCounter_def family_inc_def Let_def go_map
      split: option.splits if_splits)

lemma metrics_frames [simp]:
  "counter_value (gauge_add name n m) = counter_value m"
  "counter_value (gauge_set name n m) = counter_value m"
  "counter_value (labeled_inc name key value m) = counter_value m"
  "gauge_value (counter_add name n m) = gauge_value m"
  "gauge_value (labeled_inc name key value m) = gauge_value m"
  "labeled_value (counter_add name n m) = labeled_value m"
  "labeled_value (gauge_add name n m) = labeled_value m"
  "labeled_value (gauge_set name n m) = labeled_value m"
  by (simp_all add: fun_eq_iff counter_value_def gauge_value_def labeled_value_def counter_add_def
      gauge_add_def gauge_set_def labeled_inc_def Counter_def Gauge_def LabeledCounter_def Let_def)

section \<open>The text exposition\<close>

abbreviation nl :: string where
  "nl \<equiv> [CHR 0x0A]"

definition lookup :: "(string \<times> 'v) list \<Rightarrow> 'v \<Rightarrow> string \<Rightarrow> 'v" where
  "lookup m d k = (case map_of m k of None \<Rightarrow> d | Some v \<Rightarrow> v)"

text \<open>
  \<open>WriteText\<close> collects the keys of each Go map, sorts them and prints in that order; \<open>quote\<close> is
  the formatting verb \<open>%q\<close>.
\<close>

definition write_counter :: "metrics \<Rightarrow> string \<Rightarrow> string" where
  "write_counter m k = ''# TYPE '' @ k @ '' counter'' @ nl @ k @ '' '' @
     digits_of (unat (lookup (counters m) 0 k)) @ nl"

definition write_gauge :: "metrics \<Rightarrow> string \<Rightarrow> string" where
  "write_gauge m k = ''# TYPE '' @ k @ '' gauge'' @ nl @ k @ '' '' @
     show_int (sint (lookup (gauges m) 0 k)) @ nl"

definition write_family :: "(string \<Rightarrow> string) \<Rightarrow> metrics \<Rightarrow> string \<Rightarrow> string" where
  "write_family quote m name =
     (let fam = lookup (families m) \<lparr>familyCounters = [], labelKey = ''''\<rparr> name;
          labels = sort (map fst (familyCounters fam))
      in ''# TYPE '' @ name @ '' counter'' @ nl @
         concat (map (\<lambda>lv. name @ ''{'' @ labelKey fam @ ''='' @ quote lv @ ''} '' @
           digits_of (unat (lookup (familyCounters fam) 0 lv)) @ nl) labels))"

definition WriteText :: "(string \<Rightarrow> string) \<Rightarrow> metrics \<Rightarrow> string" where
  "WriteText quote m =
     concat (map (write_counter m) (sort (map fst (counters m)))) @
     concat (map (write_gauge m) (sort (map fst (gauges m)))) @
     concat (map (write_family quote m) (sort (map fst (families m))))"

text \<open>Two registries with the same contents, whatever order their maps are walked in.\<close>

definition same_map :: "(string \<times> 'v) list \<Rightarrow> (string \<times> 'v) list \<Rightarrow> bool" where
  "same_map m m' \<longleftrightarrow> wf_map m \<and> wf_map m' \<and> map_of m = map_of m'"

lemma same_map_keys: "same_map m m' \<Longrightarrow> sort (map fst m) = sort (map fst m')"
proof -
  assume s: "same_map m m'"
  then have "fst ` set m = fst ` set m'"
    by (metis dom_map_of_conv_image_fst same_map_def)
  with s show ?thesis
    by (intro sorted_distinct_set_unique) (simp_all add: same_map_def)
qed

lemma same_map_lookup: "same_map m m' \<Longrightarrow> lookup m d k = lookup m' d k"
  by (simp add: same_map_def lookup_def)

definition same_families :: "(string \<times> labeledFamily) list \<Rightarrow> (string \<times> labeledFamily) list \<Rightarrow> bool" where
  "same_families m m' \<longleftrightarrow> wf_map m \<and> wf_map m' \<and> dom (map_of m) = dom (map_of m') \<and>
     (\<forall>f f'. \<forall>name \<in> set (map fst m). map_of m name = Some f \<longrightarrow> map_of m' name = Some f' \<longrightarrow>
        labelKey f = labelKey f' \<and> same_map (familyCounters f) (familyCounters f'))"

definition same_metrics :: "metrics \<Rightarrow> metrics \<Rightarrow> bool" where
  "same_metrics m m' \<longleftrightarrow> same_map (counters m) (counters m') \<and> same_map (gauges m) (gauges m') \<and>
     same_families (families m) (families m')"

lemma write_counter_same: "same_map (counters m) (counters m') \<Longrightarrow> write_counter m k = write_counter m' k"
  by (simp add: write_counter_def same_map_lookup [of "counters m" "counters m'"])

lemma write_gauge_same: "same_map (gauges m) (gauges m') \<Longrightarrow> write_gauge m k = write_gauge m' k"
  by (simp add: write_gauge_def same_map_lookup [of "gauges m" "gauges m'"])

lemma same_families_keys: "same_families m m' \<Longrightarrow> sort (map fst m) = sort (map fst m')"
  by (intro sorted_distinct_set_unique) (simp_all add: same_families_def dom_map_of_conv_image_fst)

lemma write_family_same:
  assumes "same_families (families m) (families m')" and "k \<in> set (map fst (families m))"
  shows "write_family quote m k = write_family quote m' k"
proof -
  from assms obtain f f' where f: "map_of (families m) k = Some f" "map_of (families m') k = Some f'"
    unfolding same_families_def by (metis domIff map_of_eq_None_iff not_None_eq set_map)
  with assms have "labelKey f = labelKey f'" "same_map (familyCounters f) (familyCounters f')"
    unfolding same_families_def by blast+
  with f show ?thesis
    using same_map_keys [of "familyCounters f" "familyCounters f'"]
      same_map_lookup [of "familyCounters f" "familyCounters f'"]
    by (simp add: write_family_def lookup_def [of "families m"] lookup_def [of "families m'"] Let_def)
qed

section \<open>Sequences of updates\<close>

text \<open>The updates the server performs, in any order.\<close>

datatype metric_op =
    CounterAdd string u64
  | GaugeAdd string u64
  | GaugeSet string u64
  | LabeledInc string string string

fun apply_op :: "metric_op \<Rightarrow> metrics \<Rightarrow> metrics" where
  "apply_op (CounterAdd name n) m = counter_add name n m"
| "apply_op (GaugeAdd name n) m = gauge_add name n m"
| "apply_op (GaugeSet name n) m = gauge_set name n m"
| "apply_op (LabeledInc name key value) m = labeled_inc name key value m"

fun added :: "string \<Rightarrow> metric_op \<Rightarrow> u64" where
  "added name (CounterAdd n v) = (if n = name then v else 0)"
| "added name _ = 0"

fun is_labeled :: "string \<Rightarrow> string \<Rightarrow> metric_op \<Rightarrow> bool" where
  "is_labeled name value (LabeledInc n _ v) \<longleftrightarrow> n = name \<and> v = value"
| "is_labeled name value _ \<longleftrightarrow> False"

lemma families_of_labeled_inc:
  "families (labeled_inc name key value m) =
    modify name (family_inc value) (get_or_create name \<lparr>familyCounters = [], labelKey = key\<rparr> (families m))"
  by (simp add: labeled_inc_def LabeledCounter_def Let_def)

lemma wf_metrics_alt:
  "wf_metrics m \<longleftrightarrow> wf_map (counters m) \<and> wf_map (gauges m) \<and> wf_map (families m) \<and>
    (\<forall>name f. map_of (families m) name = Some f \<longrightarrow> wf_map (familyCounters f))"
  unfolding wf_metrics_def by (force simp: map_of_set_iff)

lemma wf_apply_op: "wf_metrics m \<Longrightarrow> wf_metrics (apply_op c m)"
  by (cases c)
    (auto simp: wf_metrics_alt counter_add_def gauge_add_def gauge_set_def Counter_def Gauge_def Let_def
      families_of_labeled_inc family_inc_def go_map labeled_inc_def LabeledCounter_def split: if_splits)

lemma counter_value_apply: "counter_value (apply_op c m) name = counter_value m name + added name c"
  by (cases c) auto

lemma labeled_value_apply:
  "labeled_value (apply_op c m) name value = labeled_value m name value + of_bool (is_labeled name value c)"
  by (cases c) auto

lemma wf_run: "wf_metrics m \<Longrightarrow> wf_metrics (fold apply_op ops m)"
  by (induction ops arbitrary: m) (simp_all add: wf_apply_op)

lemma counter_value_run:
  "counter_value (fold apply_op ops m) name = counter_value m name + sum_list (map (added name) ops)"
  by (induction ops arbitrary: m) (simp_all add: counter_value_apply)

lemma labeled_value_run:
  "labeled_value (fold apply_op ops m) name value =
    labeled_value m name value + of_nat (length (filter (is_labeled name value) ops))"
  by (induction ops arbitrary: m) (simp_all add: labeled_value_apply)

lemma wf_NewMetrics: "wf_metrics NewMetrics"
  by (simp add: wf_metrics_def NewMetrics_def)

lemma new_values: "counter_value NewMetrics name = 0" "labeled_value NewMetrics name value = 0"
  by (simp_all add: counter_value_def labeled_value_def NewMetrics_def)

text \<open>
  Nothing is lost in the registry: starting from \<open>NewRegistry\<close>, after any sequence of
  updates every counter holds the sum of what was added to it (mod 2 to the 64), every labelled
  counter the number of its increments, whatever other metrics were created or changed in
  between, and every name and every label value is registered once.
\<close>

lemma metrics_count_exactly:
  "counter_value (fold apply_op ops NewMetrics) name = sum_list (map (added name) ops) \<and>
   labeled_value (fold apply_op ops NewMetrics) name value =
     of_nat (length (filter (is_labeled name value) ops)) \<and>
   wf_metrics (fold apply_op ops NewMetrics)"
  by (simp_all add: counter_value_run labeled_value_run wf_run wf_NewMetrics new_values)

text \<open>
  The text exposition is a function of the metrics alone: two registries with the same
  contents print the same text, in whatever order Go walks their maps.
\<close>

lemma exposition_is_deterministic:
  assumes "same_metrics m m'"
  shows "WriteText quote m = WriteText quote m'"
proof -
  note s = assms [unfolded same_metrics_def]
  have "map (write_family quote m) (sort (map fst (families m))) =
      map (write_family quote m') (sort (map fst (families m')))"
    using s by (auto simp: same_families_keys [symmetric] intro!: map_cong write_family_same)
  moreover have "write_counter m = write_counter m'" "write_gauge m = write_gauge m'"
    using s by (auto simp: fun_eq_iff intro: write_counter_same write_gauge_same)
  ultimately show ?thesis
    using s by (simp add: WriteText_def same_map_keys [of "counters m" "counters m'"]
        same_map_keys [of "gauges m" "gauges m'"])
qed

end
