(* ===== verification/Peers.thy ===== *)
theory Peers
  imports Net
begin

text \<open>
  A participant (\<open>internal/room/peer.go\<close>).  Peers and rooms are shared by pointer, so they live in
  a heap and are named by references.  The atomics and the mutex of a peer guard one field each:
  every operation below is one atomic step.

  The callbacks are kept as what they capture: \<open>send\<close> is the WebSocket connection the callback
  writes to, \<open>udpSend\<close> tells whether the UDP sender of this peer is attached (the UDP layer only
  ever attaches \<open>makeUdpSender(p)\<close> to \<open>p\<close>).
\<close>

type_synonym peer_ref = nat
type_synonym room_ref = nat
type_synonym conn_ref = nat

record peer =
  peerID :: uuid
  Username :: string
  Role :: string
  JoinedAt :: time
  RemoteIP :: string
  muted :: bool
  subscribed :: "uuid set option"
  send :: "conn_ref option"
  udpSend :: bool
  udpAddr :: "UDPAddr option"
  curRoom :: "room_ref option"

text \<open>\<open>uuid.New\<close> and \<open>time.Now\<close> are arguments; every other field is Go's zero value.\<close>

definition NewPeer :: "uuid \<Rightarrow> string \<Rightarrow> string \<Rightarrow> time \<Rightarrow> peer" where
  "NewPeer uid username role now =
     \<lparr>peerID = uid, Username = username, Role = role, JoinedAt = now, RemoteIP = '''',
      muted = False, subscribed = None, send = None, udpSend = False, udpAddr = None, curRoom = None\<rparr>"

definition SetMuted :: "bool \<Rightarrow> peer \<Rightarrow> peer" where
  "SetMuted v p = p\<lparr>muted := v\<rparr>"

definition IsSubscribed :: "peer \<Rightarrow> uuid \<Rightarrow> bool" where
  "IsSubscribed p src = (case subscribed p of None \<Rightarrow> True | Some subs \<Rightarrow> src \<in> subs)"

text \<open>A nil slice is \<open>None\<close>: subscribe to everybody; an empty one subscribes to nobody.\<close>

definition SetSubscribed :: "uuid list option \<Rightarrow> peer \<Rightarrow> peer" where
  "SetSubscribed ids p =
     (case ids of None \<Rightarrow> p\<lparr>subscribed := None\<rparr>
      | Some ids \<Rightarrow> p\<lparr>subscribed := Some (fold insert ids {})\<rparr>)"

definition AttachSender :: "conn_ref \<Rightarrow> peer \<Rightarrow> peer" where
  "AttachSender s p = p\<lparr>send := Some s\<rparr>"

definition DetachSender :: "peer \<Rightarrow> peer" where
  "DetachSender p = p\<lparr>send := None\<rparr>"

definition AttachUdpSender :: "bool \<Rightarrow> peer \<Rightarrow> peer" where
  "AttachUdpSender s p = p\<lparr>udpSend := s\<rparr>"

definition SetUdpAddr :: "UDPAddr option \<Rightarrow> peer \<Rightarrow> peer" where
  "SetUdpAddr addr p = p\<lparr>udpAddr := addr\<rparr>"

definition setRoom :: "room_ref option \<Rightarrow> peer \<Rightarrow> peer" where
  "setRoom r p = p\<lparr>curRoom := r\<rparr>"

text \<open>
  The two sends run the attached callbacks on a state \<open>'s\<close> of the transports: \<open>ws\<close> writes a
  payload to a connection and reports success, \<open>udp\<close> is the UDP sender.  A detached peer
  is not an error.
\<close>

definition SendText ::
  "(conn_ref \<Rightarrow> byte list \<Rightarrow> bool \<Rightarrow> 's \<Rightarrow> 's \<times> bool) \<Rightarrow> peer \<Rightarrow> byte list \<Rightarrow> 's \<Rightarrow> 's \<times> bool" where
  "SendText ws p payload s =
     (case send p of None \<Rightarrow> (s, True) | Some c \<Rightarrow> ws c payload False s)"

definition SendBinary ::
  "(byte list \<Rightarrow> 's \<Rightarrow> 's \<times> bool) \<Rightarrow> (conn_ref \<Rightarrow> byte list \<Rightarrow> bool \<Rightarrow> 's \<Rightarrow> 's \<times> bool) \<Rightarrow>
    peer \<Rightarrow> byte list \<Rightarrow> 's \<Rightarrow> 's \<times> bool" where
  "SendBinary udp ws p payload s =
     (let (s, sent) = (if udpSend p then udp payload s else (s, False))
      in if sent then (s, True)
         else case send p of None \<Rightarrow> (s, True) | Some c \<Rightarrow> ws c payload True s)"

lemmas peer_ops [simp] =
  SetMuted_def AttachSender_def DetachSender_def AttachUdpSender_def SetUdpAddr_def setRoom_def

lemma IsSubscribed_Set [simp]:
  "IsSubscribed (SetSubscribed (Some ids) p) src \<longleftrightarrow> src \<in> set ids"
  "IsSubscribed (SetSubscribed None p) src"
  by (simp_all add: IsSubscribed_def SetSubscribed_def union_set_fold [symmetric])

lemma SetSubscribed_frame [simp]:
  "peerID (SetSubscribed ids p) = peerID p" "curRoom (SetSubscribed ids p) = curRoom p"
  "udpAddr (SetSubscribed ids p) = udpAddr p" "muted (SetSubscribed ids p) = muted p"
  by (simp_all add: SetSubscribed_def split: option.splits)

lemma NewPeer_fields [simp]:
  "peerID (NewPeer uid u r t) = uid" "curRoom (NewPeer uid u r t) = None"
  "udpAddr (NewPeer uid u r t) = None" "udpSend (NewPeer uid u r t) = False"
  "send (NewPeer uid u r t) = None" "muted (NewPeer uid u r t) = False"
  "subscribed (NewPeer uid u r t) = None"
  by (simp_all add: NewPeer_def)

end
