(* ===== verification/Lobby.thy ===== *)
theory Lobby
  imports Peers Proto
begin

text \<open>
  Rooms and their registry (\<open>internal/room/room.go\<close>, \<open>internal/room/registry.go\<close>).  One state
  holds the registry, the heap of rooms, the heap of peers and the armed timers of the runtime.
  Every critical section of the sources is one definition; the methods compose them.
\<close>

section \<open>State\<close>

type_synonym timer_ref = nat

text \<open>\<open>Done\<close> is kept as the identity of the buffer it gives back.\<close>

record frame =
  frameSource :: uuid
  framePayload :: "byte list"
  frameDone :: "nat option"

record room =
  roomID :: uuid
  Name :: string
  NameLower :: string
  Visibility :: string
  HasPassword :: bool
  passwordHash :: "byte list option"
  MaxPeers :: int
  CreatedAt :: time
  peers :: "(uuid \<times> peer_ref) list"
  audioCh :: "frame list"
  closeCh :: bool
  destroyTimer :: "timer_ref option"
  destroyGeneration :: u64
  destroyed :: bool
  registry :: bool

record RoomListEntry =
  entryName :: string
  entryPeerCount :: int
  entryMaxPeers :: int
  entryHasPassword :: bool
  entryCreatedAt :: time

record RoomListDelta =
  deltaAdded :: "RoomListEntry list"
  deltaRemoved :: "string list"
  deltaUpdated :: "RoomListEntry list"

record PeerSnapshot =
  snapID :: uuid
  snapUsername :: string
  snapRole :: string
  snapMuted :: bool
  snapJoinedAt :: time

text \<open>
  An armed \<open>time.AfterFunc\<close>: the call \<open>r.registry.destroy(r, generation)\<close> it will make, and when.
\<close>

record timer =
  timerRoom :: room_ref
  timerGeneration :: u64
  timerAt :: time

text \<open>
  The deltas are the calls of the listener so far, oldest first; \<open>released\<close> are the calls of
  \<open>Done\<close>, oldest first.
\<close>

record lobby =
  maxRooms :: int
  maxPeersPerRoom :: int
  rooms :: "(string \<times> room_ref) list"
  notifyCb :: bool
  deltas :: "RoomListDelta list"
  room_at :: "room_ref \<Rightarrow> room"
  next_room :: room_ref
  peer_at :: "peer_ref \<Rightarrow> peer"
  next_peer :: peer_ref
  timers :: "(timer_ref \<times> timer) list"
  next_timer :: timer_ref
  clock :: time
  released :: "nat list"

datatype room_error =
    ErrRoomFull | ErrBadPassword | ErrRoomNotFound | ErrRoomNameTaken | ErrServerFull | ErrEmptyName

definition audioChBuffer :: nat where
  "audioChBuffer = 512"

definition roomEmptyDestroyDur :: duration where
  "roomEmptyDestroyDur = 30 * Second"

definition roomIdleNoJoinDur :: duration where
  "roomIdleNoJoinDur = 60 * Second"

definition upd_room :: "room_ref \<Rightarrow> (room \<Rightarrow> room) \<Rightarrow> lobby \<Rightarrow> lobby" where
  "upd_room r f L = L\<lparr>room_at := (room_at L)(r := f (room_at L r))\<rparr>"

definition upd_peer :: "peer_ref \<Rightarrow> (peer \<Rightarrow> peer) \<Rightarrow> lobby \<Rightarrow> lobby" where
  "upd_peer p f L = L\<lparr>peer_at := (peer_at L)(p := f (peer_at L p))\<rparr>"

lemma upd_room_get [simp]:
  "room_at (upd_room r f L) r' = (if r' = r then f (room_at L r) else room_at L r')"
  "peer_at (upd_room r f L) = peer_at L" "rooms (upd_room r f L) = rooms L"
  "timers (upd_room r f L) = timers L" "next_room (upd_room r f L) = next_room L"
  "next_peer (upd_room r f L) = next_peer L" "next_timer (upd_room r f L) = next_timer L"
  "clock (upd_room r f L) = clock L" "deltas (upd_room r f L) = deltas L"
  "maxRooms (upd_room r f L) = maxRooms L" "maxPeersPerRoom (upd_room r f L) = maxPeersPerRoom L"
  "notifyCb (upd_room r f L) = notifyCb L" "released (upd_room r f L) = released L"
  by (simp_all add: upd_room_def)

lemma upd_peer_get [simp]:
  "peer_at (upd_peer p f L) p' = (if p' = p then f (peer_at L p) else peer_at L p')"
  "room_at (upd_peer p f L) = room_at L" "rooms (upd_peer p f L) = rooms L"
  "timers (upd_peer p f L) = timers L" "next_room (upd_peer p f L) = next_room L"
  "next_peer (upd_peer p f L) = next_peer L" "next_timer (upd_peer p f L) = next_timer L"
  "clock (upd_peer p f L) = clock L" "deltas (upd_peer p f L) = deltas L"
  "maxRooms (upd_peer p f L) = maxRooms L" "maxPeersPerRoom (upd_peer p f L) = maxPeersPerRoom L"
  "notifyCb (upd_peer p f L) = notifyCb L" "released (upd_peer p f L) = released L"
  by (simp_all add: upd_peer_def)

section \<open>Rooms\<close>

definition snapshot_of :: "peer \<Rightarrow> PeerSnapshot" where
  "snapshot_of p =
     \<lparr>snapID = peerID p, snapUsername = Username p, snapRole = Role p, snapMuted = muted p,
      snapJoinedAt = JoinedAt p\<rparr>"

definition Snapshot :: "room_ref \<Rightarrow> lobby \<Rightarrow> PeerSnapshot list" where
  "Snapshot r L = map (\<lambda>(_, p). snapshot_of (peer_at L p)) (peers (room_at L r))"

definition PeerCount :: "room_ref \<Rightarrow> lobby \<Rightarrow> int" where
  "PeerCount r L = int (length (peers (room_at L r)))"

text \<open>\<open>bcrypt.CompareHashAndPassword\<close> and \<open>bcrypt.GenerateFromPassword\<close> are parameters.\<close>

definition CheckPassword :: "(byte list \<Rightarrow> string \<Rightarrow> bool) \<Rightarrow> room \<Rightarrow> string \<Rightarrow> room_error option" where
  "CheckPassword compare r plain =
     (if \<not> HasPassword r then None
      else if length plain > MaxPasswordBytes then Some ErrBadPassword
      else if \<not> compare (case passwordHash r of None \<Rightarrow> [] | Some h \<Rightarrow> h) plain then Some ErrBadPassword
      else None)"

datatype hash_result = NoPassword | Hashed "byte list" | HashFailed

definition HashPassword :: "(string \<Rightarrow> byte list option) \<Rightarrow> string \<Rightarrow> hash_result" where
  "HashPassword generate plain =
     (if plain = '''' then NoPassword
      else if length plain > MaxPasswordBytes then HashFailed
      else case generate plain of None \<Rightarrow> HashFailed | Some h \<Rightarrow> Hashed h)"

text \<open>
  \<open>Stop\<close> prevents the call of a timer that has not started it; a started call is no longer in
  \<open>timers\<close> and runs.
\<close>

definition stop_timer :: "timer_ref \<Rightarrow> lobby \<Rightarrow> lobby" where
  "stop_timer t L = L\<lparr>timers := AList.delete t (timers L)\<rparr>"

definition cancel_destroy :: "room_ref \<Rightarrow> lobby \<Rightarrow> lobby" where
  "cancel_destroy r L =
     (case destroyTimer (room_at L r) of
        None \<Rightarrow> L
      | Some t \<Rightarrow> upd_room r (\<lambda>rm. rm\<lparr>destroyTimer := None, destroyGeneration := destroyGeneration rm + 1\<rparr>)
          (stop_timer t L))"

text \<open>\<open>Add\<close> up to the release of its locks, then the whole method.\<close>

definition Add_locked :: "room_ref \<Rightarrow> peer_ref \<Rightarrow> lobby \<Rightarrow> lobby \<times> (room_error + PeerSnapshot list)" where
  "Add_locked r p L =
     (let rm = room_at L r; pid = peerID (peer_at L p) in
      if registry rm \<and> map_of (rooms L) (NameLower rm) \<noteq> Some r then (L, Inl ErrRoomNotFound)
      else if destroyed rm then (L, Inl ErrRoomNotFound)
      else if int (length (peers rm)) \<ge> MaxPeers rm then (L, Inl ErrRoomFull)
      else
        let L = upd_room r (\<lambda>rm. rm\<lparr>peers := AList.update pid p (peers rm)\<rparr>) L;
            L = cancel_destroy r L;
            others = map (\<lambda>(_, q). snapshot_of (peer_at L q))
              (filter (\<lambda>(_, q). peerID (peer_at L q) \<noteq> pid) (peers (room_at L r)))
        in (L, Inr others))"

definition Add :: "room_ref \<Rightarrow> peer_ref \<Rightarrow> lobby \<Rightarrow> lobby \<times> (room_error + PeerSnapshot list)" where
  "Add r p L =
     (case Add_locked r p L of
        (L, Inl e) \<Rightarrow> (L, Inl e)
      | (L, Inr others) \<Rightarrow> (upd_peer p (setRoom (Some r)) L, Inr others))"

text \<open>One identified timer per room; emptiness is checked again under the lock.\<close>

definition scheduleDestroyIfEmpty :: "room_ref \<Rightarrow> duration \<Rightarrow> lobby \<Rightarrow> lobby" where
  "scheduleDestroyIfEmpty r delay L =
     (let rm = room_at L r in
      if \<not> registry rm \<or> destroyed rm \<or> length (peers rm) \<noteq> 0 \<or> destroyTimer rm \<noteq> None then L
      else
        let generation = destroyGeneration rm + 1; t = next_timer L in
        upd_room r (\<lambda>rm. rm\<lparr>destroyGeneration := generation, destroyTimer := Some t\<rparr>)
          (L\<lparr>timers := AList.update t \<lparr>timerRoom = r, timerGeneration = generation,
                timerAt = clock L + delay\<rparr> (timers L), next_timer := t + 1\<rparr>))"

text \<open>\<open>Remove\<close> up to the release of its lock: the peer taken out and whether the room is now empty.\<close>

definition Remove_locked :: "room_ref \<Rightarrow> uuid \<Rightarrow> lobby \<Rightarrow> lobby \<times> (peer_ref \<times> bool) option" where
  "Remove_locked r pid L =
     (case map_of (peers (room_at L r)) pid of
        None \<Rightarrow> (L, None)
      | Some p \<Rightarrow>
          let L = upd_room r (\<lambda>rm. rm\<lparr>peers := AList.delete pid (peers rm)\<rparr>) L
          in (L, Some (p, length (peers (room_at L r)) = 0)))"

definition Remove :: "room_ref \<Rightarrow> uuid \<Rightarrow> lobby \<Rightarrow> lobby" where
  "Remove r pid L =
     (case Remove_locked r pid L of
        (L, None) \<Rightarrow> L
      | (L, Some (p, emptied)) \<Rightarrow>
          let L = upd_peer p (setRoom None) L
          in if emptied \<and> registry (room_at L r) then scheduleDestroyIfEmpty r roomEmptyDestroyDur L else L)"

section \<open>The forwarder\<close>

definition release :: "frame \<Rightarrow> lobby \<Rightarrow> lobby" where
  "release f L = (case frameDone f of None \<Rightarrow> L | Some d \<Rightarrow> L\<lparr>released := released L @ [d]\<rparr>)"

text \<open>A send on the buffered channel that never blocks.\<close>

definition Forward :: "room_ref \<Rightarrow> frame \<Rightarrow> lobby \<Rightarrow> lobby \<times> bool" where
  "Forward r f L =
     (if length (audioCh (room_at L r)) < audioChBuffer
      then (upd_room r (\<lambda>rm. rm\<lparr>audioCh := audioCh rm @ [f]\<rparr>) L, True)
      else (release f L, False))"

text \<open>
  The peers a frame goes to, in the order the map is walked; \<open>None\<close> when the source has left or
  is muted.  Both are decided under the room lock.
\<close>

definition recipients :: "room_ref \<Rightarrow> frame \<Rightarrow> lobby \<Rightarrow> peer_ref list option" where
  "recipients r f L =
     (let ps = peers (room_at L r) in
      case map_of ps (frameSource f) of
        None \<Rightarrow> None
      | Some src \<Rightarrow>
          if muted (peer_at L src) then None
          else Some (filter (\<lambda>p. peerID (peer_at L p) \<noteq> frameSource f \<and>
                               IsSubscribed (peer_at L p) (frameSource f)) (map snd ps)))"

text \<open>One turn of \<open>forwardLoop\<close> on a pending frame, and the drain after \<open>close\<close>.\<close>

definition take_frame :: "room_ref \<Rightarrow> lobby \<Rightarrow> lobby \<times> frame option" where
  "take_frame r L =
     (case audioCh (room_at L r) of
        [] \<Rightarrow> (L, None)
      | f # fs \<Rightarrow> (upd_room r (\<lambda>rm. rm\<lparr>audioCh := fs\<rparr>) L, Some f))"

primrec release_all :: "frame list \<Rightarrow> lobby \<Rightarrow> lobby" where
  "release_all [] L = L"
| "release_all (f # fs) L = release_all fs (release f L)"

definition drain :: "room_ref \<Rightarrow> lobby \<Rightarrow> lobby" where
  "drain r L = release_all (audioCh (room_at L r)) (upd_room r (\<lambda>rm. rm\<lparr>audioCh := []\<rparr>) L)"

text \<open>\<open>close\<close> shuts the channel once and waits for the loop, which drains before it returns.\<close>

definition close_room :: "room_ref \<Rightarrow> lobby \<Rightarrow> lobby" where
  "close_room r L = drain r (upd_room r (\<lambda>rm. rm\<lparr>closeCh := True\<rparr>) L)"

section \<open>The registry\<close>

definition NewRegistry :: "int \<Rightarrow> int \<Rightarrow> lobby" where
  "NewRegistry max_rooms max_peers =
     \<lparr>maxRooms = max_rooms, maxPeersPerRoom = max_peers, rooms = [], notifyCb = False, deltas = [],
      room_at = (\<lambda>_. \<lparr>roomID = of_bytes [], Name = '''', NameLower = '''', Visibility = '''',
        HasPassword = False, passwordHash = None, MaxPeers = 0, CreatedAt = 0, peers = [], audioCh = [],
        closeCh = False, destroyTimer = None, destroyGeneration = 0, destroyed = False, registry = False\<rparr>),
      next_room = 0, peer_at = (\<lambda>_. NewPeer (of_bytes []) '''' '''' 0), next_peer = 0, timers = [],
      next_timer = 0, clock = 0, released = []\<rparr>"

definition SetDeltaListener :: "bool \<Rightarrow> lobby \<Rightarrow> lobby" where
  "SetDeltaListener cb L = L\<lparr>notifyCb := cb\<rparr>"

text \<open>
  \<open>strings.ToLower\<close>: ASCII letters by themselves; a string with other runes goes through the
  Unicode tables, which are a parameter.
\<close>

definition lower_ascii :: "char \<Rightarrow> char" where
  "lower_ascii c = (if 65 \<le> (of_char c :: nat) \<and> of_char c \<le> (90 :: nat) then char_of (of_char c + (32 :: nat)) else c)"

definition ToLower :: "(string \<Rightarrow> string) \<Rightarrow> string \<Rightarrow> string" where
  "ToLower unicode s =
     (if \<forall>c \<in> set s. of_char c < (128 :: nat) then map lower_ascii s else unicode s)"

definition entryOf :: "room_ref \<Rightarrow> lobby \<Rightarrow> RoomListEntry" where
  "entryOf r L =
     \<lparr>entryName = Name (room_at L r), entryPeerCount = PeerCount r L, entryMaxPeers = MaxPeers (room_at L r),
      entryHasPassword = HasPassword (room_at L r), entryCreatedAt = CreatedAt (room_at L r)\<rparr>"

definition notify :: "RoomListDelta \<Rightarrow> lobby \<Rightarrow> lobby" where
  "notify d L = L\<lparr>deltas := deltas L @ [d]\<rparr>"

text \<open>The critical section of \<open>Create\<close>; \<open>uid\<close> is \<open>uuid.New\<close>.\<close>

definition Create_locked ::
  "(string \<Rightarrow> string) \<Rightarrow> uuid \<Rightarrow> string \<Rightarrow> string \<Rightarrow> byte list option \<Rightarrow> lobby \<Rightarrow> lobby \<times> (room_error + room_ref)" where
  "Create_locked unicode uid name visibility hash L =
     (if name = '''' then (L, Inl ErrEmptyName)
      else
        let nameLower = ToLower unicode name in
        if map_of (rooms L) nameLower \<noteq> None then (L, Inl ErrRoomNameTaken)
        else if int (length (rooms L)) \<ge> maxRooms L then (L, Inl ErrServerFull)
        else
          let r = next_room L;
              rm = \<lparr>roomID = uid, Name = name, NameLower = nameLower, Visibility = visibility,
                HasPassword = (hash \<noteq> None), passwordHash = hash, MaxPeers = maxPeersPerRoom L,
                CreatedAt = clock L, peers = [], audioCh = [], closeCh = False, destroyTimer = None,
                destroyGeneration = 0, destroyed = False, registry = True\<rparr>
          in (L\<lparr>rooms := AList.update nameLower r (rooms L), room_at := (room_at L)(r := rm),
                next_room := r + 1\<rparr>, Inr r))"

definition Create ::
  "(string \<Rightarrow> string) \<Rightarrow> uuid \<Rightarrow> string \<Rightarrow> string \<Rightarrow> byte list option \<Rightarrow> lobby \<Rightarrow> lobby \<times> (room_error + room_ref)" where
  "Create unicode uid name visibility hash L =
     (let cb = notifyCb L in
      case Create_locked unicode uid name visibility hash L of
        (L, Inl e) \<Rightarrow> (L, Inl e)
      | (L, Inr r) \<Rightarrow>
          let L = scheduleDestroyIfEmpty r roomIdleNoJoinDur L;
              L = (if visibility = ''public'' \<and> cb
                   then notify \<lparr>deltaAdded = [entryOf r L], deltaRemoved = [], deltaUpdated = []\<rparr> L else L)
          in (L, Inr r))"

definition Find :: "(string \<Rightarrow> string) \<Rightarrow> string \<Rightarrow> lobby \<Rightarrow> room_ref option" where
  "Find unicode name L = map_of (rooms L) (ToLower unicode name)"

text \<open>The part of \<open>destroy\<close> under both locks: whether the room was taken down.\<close>

definition destroy_locked :: "room_ref \<Rightarrow> u64 \<Rightarrow> lobby \<Rightarrow> lobby \<times> bool" where
  "destroy_locked r generation L =
     (let rm = room_at L r in
      if map_of (rooms L) (NameLower rm) \<noteq> Some r then (L, False)
      else if destroyed rm \<or> destroyTimer rm = None \<or> destroyGeneration rm \<noteq> generation \<or>
        length (peers rm) \<noteq> 0 then (L, False)
      else
        (upd_room r (\<lambda>rm. rm\<lparr>destroyed := True, destroyTimer := None,
            destroyGeneration := destroyGeneration rm + 1\<rparr>)
          (L\<lparr>rooms := AList.delete (NameLower rm) (rooms L)\<rparr>), True))"

definition destroy :: "room_ref \<Rightarrow> u64 \<Rightarrow> lobby \<Rightarrow> lobby" where
  "destroy r generation L =
     (let cb = notifyCb L in
      case destroy_locked r generation L of
        (L, False) \<Rightarrow> L
      | (L, True) \<Rightarrow>
          let L = close_room r L
          in if Visibility (room_at L r) = ''public'' \<and> cb
             then notify \<lparr>deltaAdded = [], deltaRemoved = [Name (room_at L r)], deltaUpdated = []\<rparr> L else L)"

definition PublicList :: "lobby \<Rightarrow> RoomListEntry list" where
  "PublicList L =
     map (\<lambda>r. entryOf r L) (filter (\<lambda>r. Visibility (room_at L r) = ''public'') (map snd (rooms L)))"

definition PublishUpdate :: "room_ref \<Rightarrow> lobby \<Rightarrow> lobby" where
  "PublishUpdate r L =
     (if Visibility (room_at L r) = ''public'' \<and> notifyCb L
      then notify \<lparr>deltaAdded = [], deltaRemoved = [], deltaUpdated = [entryOf r L]\<rparr> L else L)"

definition CountRooms :: "lobby \<Rightarrow> int" where
  "CountRooms L = int (length (rooms L))"

definition CountPeers :: "lobby \<Rightarrow> int" where
  "CountPeers L = fold (\<lambda>(_, r) n. n + PeerCount r L) (rooms L) 0"

section \<open>What each operation leaves behind\<close>

text \<open>Reads of the state after an operation, in terms of the state before it.\<close>

lemma cancel_destroy_get [simp]:
  "room_at (cancel_destroy r L) r' =
     (if r' = r \<and> destroyTimer (room_at L r) \<noteq> None
      then (room_at L r)\<lparr>destroyTimer := None, destroyGeneration := destroyGeneration (room_at L r) + 1\<rparr>
      else room_at L r')"
  "timers (cancel_destroy r L) =
     (case destroyTimer (room_at L r) of None \<Rightarrow> timers L | Some t \<Rightarrow> AList.delete t (timers L))"
  "peer_at (cancel_destroy r L) = peer_at L" "rooms (cancel_destroy r L) = rooms L"
  "next_room (cancel_destroy r L) = next_room L" "next_peer (cancel_destroy r L) = next_peer L"
  "next_timer (cancel_destroy r L) = next_timer L" "clock (cancel_destroy r L) = clock L"
  "deltas (cancel_destroy r L) = deltas L" "maxRooms (cancel_destroy r L) = maxRooms L"
  "maxPeersPerRoom (cancel_destroy r L) = maxPeersPerRoom L" "notifyCb (cancel_destroy r L) = notifyCb L"
  "released (cancel_destroy r L) = released L"
  by (auto simp: cancel_destroy_def stop_timer_def upd_room_def split: option.splits)

definition schedules :: "room_ref \<Rightarrow> lobby \<Rightarrow> bool" where
  "schedules r L \<longleftrightarrow> registry (room_at L r) \<and> \<not> destroyed (room_at L r) \<and> peers (room_at L r) = [] \<and>
     destroyTimer (room_at L r) = None"

lemma schedule_get [simp]:
  "room_at (scheduleDestroyIfEmpty r delay L) r' =
     (if r' = r \<and> schedules r L
      then (room_at L r)\<lparr>destroyGeneration := destroyGeneration (room_at L r) + 1, destroyTimer := Some (next_timer L)\<rparr>
      else room_at L r')"
  "timers (scheduleDestroyIfEmpty r delay L) =
     (if schedules r L
      then AList.update (next_timer L) \<lparr>timerRoom = r, timerGeneration = destroyGeneration (room_at L r) + 1,
             timerAt = clock L + delay\<rparr> (timers L)
      else timers L)"
  "next_timer (scheduleDestroyIfEmpty r delay L) = next_timer L + of_bool (schedules r L)"
  "peer_at (scheduleDestroyIfEmpty r delay L) = peer_at L"
  "rooms (scheduleDestroyIfEmpty r delay L) = rooms L"
  "next_room (scheduleDestroyIfEmpty r delay L) = next_room L"
  "next_peer (scheduleDestroyIfEmpty r delay L) = next_peer L"
  "clock (scheduleDestroyIfEmpty r delay L) = clock L"
  "deltas (scheduleDestroyIfEmpty r delay L) = deltas L"
  "maxRooms (scheduleDestroyIfEmpty r delay L) = maxRooms L"
  "maxPeersPerRoom (scheduleDestroyIfEmpty r delay L) = maxPeersPerRoom L"
  "notifyCb (scheduleDestroyIfEmpty r delay L) = notifyCb L"
  "released (scheduleDestroyIfEmpty r delay L) = released L"
  by (auto simp: scheduleDestroyIfEmpty_def schedules_def Let_def)

lemma release_get [simp]:
  "room_at (release f L) = room_at L" "peer_at (release f L) = peer_at L" "rooms (release f L) = rooms L"
  "timers (release f L) = timers L" "next_room (release f L) = next_room L"
  "next_peer (release f L) = next_peer L" "next_timer (release f L) = next_timer L"
  "clock (release f L) = clock L" "deltas (release f L) = deltas L" "maxRooms (release f L) = maxRooms L"
  "maxPeersPerRoom (release f L) = maxPeersPerRoom L" "notifyCb (release f L) = notifyCb L"
  "released (release f L) = released L @ (case frameDone f of None \<Rightarrow> [] | Some d \<Rightarrow> [d])"
  by (auto simp: release_def split: option.splits)

lemma release_all_get [simp]:
  "room_at (release_all fs L) = room_at L" "peer_at (release_all fs L) = peer_at L"
  "rooms (release_all fs L) = rooms L"
  "timers (release_all fs L) = timers L" "next_room (release_all fs L) = next_room L"
  "next_peer (release_all fs L) = next_peer L" "next_timer (release_all fs L) = next_timer L"
  "clock (release_all fs L) = clock L" "deltas (release_all fs L) = deltas L"
  "maxRooms (release_all fs L) = maxRooms L"
  "maxPeersPerRoom (release_all fs L) = maxPeersPerRoom L" "notifyCb (release_all fs L) = notifyCb L"
  "released (release_all fs L) = released L @ List.map_filter frameDone fs"
  by (induction fs arbitrary: L) (auto simp: List.map_filter_def split: option.splits)

lemma close_room_get [simp]:
  "room_at (close_room r L) r' =
     (if r' = r then (room_at L r)\<lparr>audioCh := [], closeCh := True\<rparr> else room_at L r')"
  "peer_at (close_room r L) = peer_at L" "rooms (close_room r L) = rooms L"
  "timers (close_room r L) = timers L" "next_room (close_room r L) = next_room L"
  "next_peer (close_room r L) = next_peer L" "next_timer (close_room r L) = next_timer L"
  "clock (close_room r L) = clock L" "deltas (close_room r L) = deltas L"
  "maxRooms (close_room r L) = maxRooms L"
  "maxPeersPerRoom (close_room r L) = maxPeersPerRoom L" "notifyCb (close_room r L) = notifyCb L"
  "released (close_room r L) = released L @ List.map_filter frameDone (audioCh (room_at L r))"
  by (simp_all add: close_room_def drain_def)

lemma notify_get [simp]:
  "room_at (notify d L) = room_at L" "peer_at (notify d L) = peer_at L" "rooms (notify d L) = rooms L"
  "timers (notify d L) = timers L" "next_room (notify d L) = next_room L"
  "next_peer (notify d L) = next_peer L" "next_timer (notify d L) = next_timer L"
  "clock (notify d L) = clock L" "deltas (notify d L) = deltas L @ [d]" "maxRooms (notify d L) = maxRooms L"
  "maxPeersPerRoom (notify d L) = maxPeersPerRoom L" "notifyCb (notify d L) = notifyCb L"
  "released (notify d L) = released L"
  by (simp_all add: notify_def)

lemma listener_get [simp]:
  "room_at (SetDeltaListener cb L) = room_at L" "peer_at (SetDeltaListener cb L) = peer_at L"
  "rooms (SetDeltaListener cb L) = rooms L" "timers (SetDeltaListener cb L) = timers L"
  "next_room (SetDeltaListener cb L) = next_room L" "next_peer (SetDeltaListener cb L) = next_peer L"
  "next_timer (SetDeltaListener cb L) = next_timer L" "clock (SetDeltaListener cb L) = clock L"
  "deltas (SetDeltaListener cb L) = deltas L" "maxRooms (SetDeltaListener cb L) = maxRooms L"
  "maxPeersPerRoom (SetDeltaListener cb L) = maxPeersPerRoom L" "notifyCb (SetDeltaListener cb L) = cb"
  "released (SetDeltaListener cb L) = released L"
  by (simp_all add: SetDeltaListener_def)

definition destroys :: "room_ref \<Rightarrow> u64 \<Rightarrow> lobby \<Rightarrow> bool" where
  "destroys r g L \<longleftrightarrow> map_of (rooms L) (NameLower (room_at L r)) = Some r \<and> \<not> destroyed (room_at L r) \<and>
     destroyTimer (room_at L r) \<noteq> None \<and> destroyGeneration (room_at L r) = g \<and> peers (room_at L r) = []"

definition take_down :: "room_ref \<Rightarrow> lobby \<Rightarrow> lobby" where
  "take_down r L =
     upd_room r (\<lambda>rm. rm\<lparr>destroyed := True, destroyTimer := None, destroyGeneration := destroyGeneration rm + 1\<rparr>)
       (L\<lparr>rooms := AList.delete (NameLower (room_at L r)) (rooms L)\<rparr>)"

lemma take_down_get [simp]:
  "room_at (take_down r L) r' =
     (if r' = r then (room_at L r)\<lparr>destroyed := True, destroyTimer := None,
        destroyGeneration := destroyGeneration (room_at L r) + 1\<rparr> else room_at L r')"
  "rooms (take_down r L) = AList.delete (NameLower (room_at L r)) (rooms L)"
  "peer_at (take_down r L) = peer_at L"
  "timers (take_down r L) = timers L" "next_room (take_down r L) = next_room L"
  "next_peer (take_down r L) = next_peer L" "next_timer (take_down r L) = next_timer L"
  "clock (take_down r L) = clock L" "maxRooms (take_down r L) = maxRooms L"
  "maxPeersPerRoom (take_down r L) = maxPeersPerRoom L" "notifyCb (take_down r L) = notifyCb L"
  "deltas (take_down r L) = deltas L" "released (take_down r L) = released L"
  by (simp_all add: take_down_def)

lemma destroy_locked_eq: "destroy_locked r g L = (if destroys r g L then (take_down r L, True) else (L, False))"
  unfolding destroy_locked_def destroys_def take_down_def Let_def by simp

lemma destroy_eq:
  "destroy r g L =
     (if \<not> destroys r g L then L
      else if Visibility (room_at L r) = ''public'' \<and> notifyCb L
      then notify \<lparr>deltaAdded = [], deltaRemoved = [Name (room_at L r)], deltaUpdated = []\<rparr>
        (close_room r (take_down r L))
      else close_room r (take_down r L))"
  by (simp add: destroy_def destroy_locked_eq Let_def)

lemma destroy_noop: "\<not> destroys r g L \<Longrightarrow> destroy r g L = L"
  by (simp add: destroy_eq)

lemma destroy_get [simp]:
  "room_at (destroy r g L) r' =
     (if r' = r \<and> destroys r g L
      then (room_at L r)\<lparr>audioCh := [], closeCh := True, destroyed := True, destroyTimer := None,
             destroyGeneration := destroyGeneration (room_at L r) + 1\<rparr>
      else room_at L r')"
  "rooms (destroy r g L) =
     (if destroys r g L then AList.delete (NameLower (room_at L r)) (rooms L) else rooms L)"
  "peer_at (destroy r g L) = peer_at L"
  "timers (destroy r g L) = timers L" "next_room (destroy r g L) = next_room L"
  "next_peer (destroy r g L) = next_peer L" "next_timer (destroy r g L) = next_timer L"
  "clock (destroy r g L) = clock L" "maxRooms (destroy r g L) = maxRooms L"
  "maxPeersPerRoom (destroy r g L) = maxPeersPerRoom L" "notifyCb (destroy r g L) = notifyCb L"
  by (simp_all add: destroy_eq)

text \<open>Success of an operation, with the condition under which it is given.\<close>

definition admits :: "room_ref \<Rightarrow> lobby \<Rightarrow> bool" where
  "admits r L \<longleftrightarrow> (registry (room_at L r) \<longrightarrow> map_of (rooms L) (NameLower (room_at L r)) = Some r) \<and>
     \<not> destroyed (room_at L r) \<and> int (length (peers (room_at L r))) < MaxPeers (room_at L r)"

lemma Add_locked_eq:
  "Add_locked r p L =
     (if admits r L then
        let L' = cancel_destroy r (upd_room r (\<lambda>rm. rm\<lparr>peers := AList.update (peerID (peer_at L p)) p (peers rm)\<rparr>) L)
        in (L', Inr (map (\<lambda>(_, q). snapshot_of (peer_at L q))
             (filter (\<lambda>(_, q). peerID (peer_at L q) \<noteq> peerID (peer_at L p)) (peers (room_at L' r)))))
      else if registry (room_at L r) \<and> map_of (rooms L) (NameLower (room_at L r)) \<noteq> Some r \<or>
        destroyed (room_at L r) then (L, Inl ErrRoomNotFound)
      else (L, Inl ErrRoomFull))"
  by (auto simp: Add_locked_def admits_def Let_def)

lemma Remove_locked_eq:
  "Remove_locked r pid L =
     (case map_of (peers (room_at L r)) pid of None \<Rightarrow> (L, None)
      | Some p \<Rightarrow> (upd_room r (\<lambda>rm. rm\<lparr>peers := AList.delete pid (peers rm)\<rparr>) L,
          Some (p, AList.delete pid (peers (room_at L r)) = [])))"
  by (auto simp: Remove_locked_def Let_def split: option.splits)

definition creates :: "(string \<Rightarrow> string) \<Rightarrow> string \<Rightarrow> lobby \<Rightarrow> bool" where
  "creates unicode name L \<longleftrightarrow> name \<noteq> '''' \<and> map_of (rooms L) (ToLower unicode name) = None \<and>
     int (length (rooms L)) < maxRooms L"

lemma Create_locked_Inr:
  "Create_locked unicode uid name visibility hash L = (L', Inr r) \<longleftrightarrow>
     creates unicode name L \<and> r = next_room L \<and>
     L' = L\<lparr>rooms := AList.update (ToLower unicode name) r (rooms L), next_room := r + 1,
        room_at := (room_at L)(r := \<lparr>roomID = uid, Name = name, NameLower = ToLower unicode name,
          Visibility = visibility, HasPassword = (hash \<noteq> None), passwordHash = hash,
          MaxPeers = maxPeersPerRoom L, CreatedAt = clock L, peers = [], audioCh = [], closeCh = False,
          destroyTimer = None, destroyGeneration = 0, destroyed = False, registry = True\<rparr>)\<rparr>"
  by (auto simp: Create_locked_def creates_def Let_def)

lemma Create_locked_Inl:
  "Create_locked unicode uid name visibility hash L = (L', Inl e) \<longleftrightarrow>
     \<not> creates unicode name L \<and> L' = L \<and>
     e = (if name = '''' then ErrEmptyName
          else if map_of (rooms L) (ToLower unicode name) \<noteq> None then ErrRoomNameTaken else ErrServerFull)"
  by (auto simp: Create_locked_def creates_def Let_def)

end
