(* ===== verification/Lobby_Run.thy ===== *)
theory Lobby_Run
  imports Lobby
begin

text \<open>
  The lobby under concurrency.  Each connection runs in a goroutine of its own, so each peer has a
  program counter between the critical sections of the method it is in; timers that have fired are
  calls of \<open>destroy\<close> waiting for the locks.  A step is one critical section of one goroutine.
\<close>

section \<open>The step relation\<close>

text \<open>
  \<open>Creating r\<close>: the room is published, its idle timer is not armed yet.  \<open>Added r\<close>: in the peer map,
  \<open>setRoom\<close> pending.  \<open>Deleted r q e\<close>: \<open>Remove\<close> has taken \<open>q\<close> out and seen emptiness \<open>e\<close>.
  \<open>Unset r\<close>: \<open>scheduleEmptyDestroy\<close> pending.
\<close>

datatype pc = Idle | Creating room_ref | Added room_ref | Deleted room_ref peer_ref bool | Unset room_ref

record sched =
  lob :: lobby
  pcs :: "peer_ref \<Rightarrow> pc"
  calls :: "(room_ref \<times> u64) list"

definition goes :: "peer_ref \<Rightarrow> pc \<Rightarrow> lobby \<Rightarrow> sched \<Rightarrow> sched" where
  "goes p c L S = S\<lparr>lob := L, pcs := (pcs S)(p := c)\<rparr>"

lemma goes_get [simp]:
  "lob (goes p c L S) = L" "pcs (goes p c L S) q = (if q = p then c else pcs S q)" "calls (goes p c L S) = calls S"
  by (simp_all add: goes_def)

text \<open>
  A peer creates or joins only while its \<open>CurrentRoom\<close> is nil, and leaves the room it is in, as the
  handlers check.  A join may use a room looked up any time before.  \<open>uuid.New\<close> gives an
  identifier no other peer has.
\<close>

inductive lobby_step :: "(string \<Rightarrow> string) \<Rightarrow> sched \<Rightarrow> sched \<Rightarrow> bool" for unicode where
  connect: "\<forall>q < next_peer (lob S). peerID (peer_at (lob S) q) \<noteq> uid \<Longrightarrow>
    lobby_step unicode S (S\<lparr>lob := (lob S)\<lparr>peer_at := (peer_at (lob S))
      (next_peer (lob S) := NewPeer uid username role (clock (lob S))), next_peer := next_peer (lob S) + 1\<rparr>\<rparr>)"
| create: "p < next_peer (lob S) \<Longrightarrow> pcs S p = Idle \<Longrightarrow> curRoom (peer_at (lob S) p) = None \<Longrightarrow>
    Create_locked unicode uid name visibility hash (lob S) = (L, Inr r) \<Longrightarrow>
    lobby_step unicode S (goes p (Creating r) L S)"
| created: "pcs S p = Creating r \<Longrightarrow>
    lobby_step unicode S (goes p Idle (scheduleDestroyIfEmpty r roomIdleNoJoinDur (lob S)) S)"
| join: "p < next_peer (lob S) \<Longrightarrow> pcs S p = Idle \<Longrightarrow> curRoom (peer_at (lob S) p) = None \<Longrightarrow>
    r < next_room (lob S) \<Longrightarrow> Add_locked r p (lob S) = (L, Inr others) \<Longrightarrow>
    lobby_step unicode S (goes p (Added r) L S)"
| joined: "pcs S p = Added r \<Longrightarrow>
    lobby_step unicode S (goes p Idle (upd_peer p (setRoom (Some r)) (lob S)) S)"
| leave: "p < next_peer (lob S) \<Longrightarrow> pcs S p = Idle \<Longrightarrow> curRoom (peer_at (lob S) p) = Some r \<Longrightarrow>
    Remove_locked r (peerID (peer_at (lob S) p)) (lob S) = (L, Some (q, emptied)) \<Longrightarrow>
    lobby_step unicode S (goes p (Deleted r q emptied) L S)"
| unset: "pcs S p = Deleted r q emptied \<Longrightarrow>
    lobby_step unicode S (goes p (if emptied \<and> registry (room_at (lob S) r) then Unset r else Idle)
      (upd_peer q (setRoom None) (lob S)) S)"
| scheduled: "pcs S p = Unset r \<Longrightarrow>
    lobby_step unicode S (goes p Idle (scheduleDestroyIfEmpty r roomEmptyDestroyDur (lob S)) S)"
| fire: "map_of (timers (lob S)) t = Some T \<Longrightarrow> timerAt T \<le> clock (lob S) \<Longrightarrow>
    lobby_step unicode S (S\<lparr>lob := (lob S)\<lparr>timers := AList.delete t (timers (lob S))\<rparr>,
      calls := (timerRoom T, timerGeneration T) # calls S\<rparr>)"
| call: "(r, g) \<in> set (calls S) \<Longrightarrow>
    lobby_step unicode S (S\<lparr>lob := destroy r g (lob S), calls := remove1 (r, g) (calls S)\<rparr>)"
| tick: "0 \<le> d \<Longrightarrow> lobby_step unicode S (S\<lparr>lob := (lob S)\<lparr>clock := clock (lob S) + d\<rparr>\<rparr>)"
| attribute: "peerID (f (peer_at (lob S) p)) = peerID (peer_at (lob S) p) \<Longrightarrow>
    curRoom (f (peer_at (lob S) p)) = curRoom (peer_at (lob S) p) \<Longrightarrow>
    lobby_step unicode S (S\<lparr>lob := upd_peer p f (lob S)\<rparr>)"
| queue: "lobby_step unicode S (S\<lparr>lob := upd_room r (\<lambda>rm. rm\<lparr>audioCh := q\<rparr>) (lob S)\<rparr>)"
| publish: "lobby_step unicode S (S\<lparr>lob := (lob S)\<lparr>deltas := ds, released := rs\<rparr>\<rparr>)"
| listener: "lobby_step unicode S (S\<lparr>lob := SetDeltaListener cb (lob S)\<rparr>)"

section \<open>The invariant\<close>

definition names_ok :: "lobby \<Rightarrow> bool" where
  "names_ok L \<longleftrightarrow> wf_map (rooms L) \<and> int (length (rooms L)) \<le> max 0 (maxRooms L) \<and>
     (\<forall>k r. map_of (rooms L) k = Some r \<longrightarrow>
        r < next_room L \<and> NameLower (room_at L r) = k \<and> \<not> destroyed (room_at L r))"

definition room_ok :: "lobby \<Rightarrow> room_ref \<Rightarrow> bool" where
  "room_ok L r \<longleftrightarrow>
     (let rm = room_at L r in registry rm \<and> wf_map (peers rm) \<and>
        int (length (peers rm)) \<le> max 0 (MaxPeers rm) \<and>
        (if destroyed rm then peers rm = [] \<and> destroyTimer rm = None
         else map_of (rooms L) (NameLower rm) = Some r) \<and>
        (destroyTimer rm \<noteq> None \<longrightarrow> peers rm = []))"

definition pending :: "sched \<Rightarrow> room_ref \<Rightarrow> bool" where
  "pending S r \<longleftrightarrow>
     (case destroyTimer (room_at (lob S) r) of None \<Rightarrow> False | Some t \<Rightarrow>
        (\<exists>T. map_of (timers (lob S)) t = Some T \<and> timerRoom T = r \<and>
           timerGeneration T = destroyGeneration (room_at (lob S) r)) \<or>
        (r, destroyGeneration (room_at (lob S) r)) \<in> set (calls S))"

definition timers_ok :: "sched \<Rightarrow> bool" where
  "timers_ok S \<longleftrightarrow> (\<forall>t T. map_of (timers (lob S)) t = Some T \<longrightarrow> t < next_timer (lob S)) \<and>
     (\<forall>r < next_room (lob S). \<forall>t. destroyTimer (room_at (lob S) r) = Some t \<longrightarrow>
        t < next_timer (lob S) \<and> pending S r \<and>
        (\<forall>T. map_of (timers (lob S)) t = Some T \<longrightarrow> timerRoom T = r))"

definition scheduling :: "room_ref \<Rightarrow> pc \<Rightarrow> bool" where
  "scheduling r c \<longleftrightarrow> c = Creating r \<or> c = Unset r \<or> (\<exists>q. c = Deleted r q True)"

definition no_leak :: "sched \<Rightarrow> bool" where
  "no_leak S \<longleftrightarrow> (\<forall>r < next_room (lob S). schedules r (lob S) \<longrightarrow> (\<exists>p. scheduling r (pcs S p)))"

definition located :: "sched \<Rightarrow> peer_ref \<Rightarrow> bool" where
  "located S p \<longleftrightarrow>
     (let L = lob S; here = (\<lambda>r. r < next_room L \<and> map_of (peers (room_at L r)) (peerID (peer_at L p)) = Some p) in
      case pcs S p of
        Idle \<Rightarrow> (case curRoom (peer_at L p) of None \<Rightarrow> True | Some r \<Rightarrow> here r)
      | Creating r \<Rightarrow> r < next_room L \<and> curRoom (peer_at L p) = None
      | Added r \<Rightarrow> here r \<and> curRoom (peer_at L p) = None
      | Deleted r q e \<Rightarrow> q = p \<and> r < next_room L
      | Unset r \<Rightarrow> r < next_room L \<and> curRoom (peer_at L p) = None)"

text \<open>The room whose map holds the peer, read off the peer alone.\<close>

definition place :: "sched \<Rightarrow> peer_ref \<Rightarrow> room_ref option" where
  "place S p = (case pcs S p of Idle \<Rightarrow> curRoom (peer_at (lob S) p) | Added r \<Rightarrow> Some r | _ \<Rightarrow> None)"

definition members_ok :: "sched \<Rightarrow> bool" where
  "members_ok S \<longleftrightarrow>
     (\<forall>p q. p < next_peer (lob S) \<longrightarrow> q < next_peer (lob S) \<longrightarrow>
        peerID (peer_at (lob S) p) = peerID (peer_at (lob S) q) \<longrightarrow> p = q) \<and>
     (\<forall>p < next_peer (lob S). located S p) \<and>
     (\<forall>p \<ge> next_peer (lob S). pcs S p = Idle) \<and>
     (\<forall>r < next_room (lob S). \<forall>pid p. map_of (peers (room_at (lob S) r)) pid = Some p \<longrightarrow>
        p < next_peer (lob S) \<and> peerID (peer_at (lob S) p) = pid \<and> place S p = Some r)"

definition lobby_inv :: "sched \<Rightarrow> bool" where
  "lobby_inv S \<longleftrightarrow> names_ok (lob S) \<and> (\<forall>r < next_room (lob S). room_ok (lob S) r) \<and> timers_ok S \<and>
     no_leak S \<and> members_ok S"

definition start :: "int \<Rightarrow> int \<Rightarrow> sched" where
  "start max_rooms max_peers = \<lparr>lob = NewRegistry max_rooms max_peers, pcs = (\<lambda>_. Idle), calls = []\<rparr>"

lemma start_inv: "lobby_inv (start max_rooms max_peers)"
  by (simp add: lobby_inv_def start_def NewRegistry_def names_ok_def timers_ok_def no_leak_def members_ok_def)

lemma names_ok_rooms: "names_ok L \<Longrightarrow> map_of (rooms L) k = Some r \<Longrightarrow>
    r < next_room L \<and> NameLower (room_at L r) = k \<and> \<not> destroyed (room_at L r)"
  by (simp add: names_ok_def)

lemma names_ok_frame:
  assumes "lobby_inv S" "rooms L' = rooms (lob S)" "next_room L' = next_room (lob S)"
    and "maxRooms L' = maxRooms (lob S)"
    and "\<And>r. NameLower (room_at L' r) = NameLower (room_at (lob S) r)"
    and "\<And>r. destroyed (room_at L' r) = destroyed (room_at (lob S) r)"
  shows "names_ok L'"
  using assms unfolding lobby_inv_def names_ok_def by simp

text \<open>Peer identifiers never change, and rooms and peers are never given back.\<close>

lemma step_maxRooms: "lobby_step unicode S S' \<Longrightarrow> maxRooms (lob S') = maxRooms (lob S)"
  by (cases rule: lobby_step.cases)
    (auto simp: Create_locked_Inr Add_locked_eq Remove_locked_eq Let_def split: if_splits option.splits)

lemma names_ok_destroy:
  assumes "names_ok L"
  shows "names_ok (destroy r g L)"
proof (cases "destroys r g L")
  case True
  note n = assms [unfolded names_ok_def]
  have rs: "rooms (destroy r g L) = AList.delete (NameLower (room_at L r)) (rooms L)"
    by (simp add: True)
  have "wf_map (rooms (destroy r g L))"
    unfolding rs using n by (simp add: go_map)
  moreover have "int (length (rooms (destroy r g L))) \<le> max 0 (maxRooms (destroy r g L))"
    unfolding rs using n length_delete_le [of "NameLower (room_at L r)" "rooms L"] by simp
  moreover have "r' < next_room (destroy r g L) \<and> NameLower (room_at (destroy r g L) r') = k \<and>
      \<not> destroyed (room_at (destroy r g L) r')" if "map_of (rooms (destroy r g L)) k = Some r'" for k r'
    using names_ok_rooms [OF assms, of k r'] that unfolding rs
    by (auto simp: go_map split: if_splits)
  ultimately show ?thesis
    unfolding names_ok_def by blast
qed (simp add: assms destroy_noop)

lemma names_ok_step: "lobby_step unicode S S' \<Longrightarrow> lobby_inv S \<Longrightarrow> names_ok (lob S')"
proof (induction rule: lobby_step.induct)
  case (create p S uid name visibility hash L r)
  then show ?case
    by (auto simp: Create_locked_Inr creates_def lobby_inv_def names_ok_def go_map intro: less_SucI)
next
  case (call r g S)
  then show ?case
    by (simp add: lobby_inv_def names_ok_destroy)
next
  case (join p S r L others)
  from join.prems show ?case
    by (rule names_ok_frame) (use join.hyps(5) in \<open>auto simp: Add_locked_eq Let_def split: if_splits\<close>)
next
  case (leave p S r L q emptied)
  from leave.prems show ?case
    by (rule names_ok_frame) (use leave.hyps(4) in \<open>auto simp: Remove_locked_eq split: option.splits if_splits\<close>)
qed (erule names_ok_frame; simp)+

lemma room_ok_frame:
  assumes "lobby_inv S" "r < next_room L'" "next_room L' = next_room (lob S)" "rooms L' = rooms (lob S)"
    and "peers (room_at L' r) = peers (room_at (lob S) r)"
    and "MaxPeers (room_at L' r) = MaxPeers (room_at (lob S) r)"
    and "registry (room_at L' r) = registry (room_at (lob S) r)"
    and "destroyed (room_at L' r) = destroyed (room_at (lob S) r)"
    and "NameLower (room_at L' r) = NameLower (room_at (lob S) r)"
    and "destroyTimer (room_at L' r) = destroyTimer (room_at (lob S) r) \<or>
      peers (room_at (lob S) r) = [] \<and> \<not> destroyed (room_at (lob S) r)"
  shows "room_ok L' r"
proof -
  from assms have "room_ok (lob S) r"
    by (simp add: lobby_inv_def)
  with assms(4-) show ?thesis
    unfolding room_ok_def by (auto simp: Let_def)
qed

lemma rooms_ok_step:
  "lobby_step unicode S S' \<Longrightarrow> lobby_inv S \<Longrightarrow> r' < next_room (lob S') \<Longrightarrow> room_ok (lob S') r'"
proof (induction rule: lobby_step.induct)
  case (create p S uid name visibility hash L r)
  note step = create.hyps(4) [unfolded Create_locked_Inr creates_def]
  have inv: "names_ok (lob S)" "r < next_room (lob S) \<Longrightarrow> room_ok (lob S) r" for r
    using create.prems(1) by (simp_all add: lobby_inv_def)
  show ?case
  proof (cases "r' = r")
    case False
    with step create.prems(2) have r': "r' < next_room (lob S)"
      by simp
    with inv have "room_ok (lob S) r'" by simp
    with False r' step show ?thesis
      by (cases "destroyed (room_at (lob S) r')") (auto simp: room_ok_def Let_def go_map)
  qed (use step in \<open>auto simp: room_ok_def go_map\<close>)
next
  case (join p S r L others)
  note step = join.hyps(5) [unfolded Add_locked_eq]
  have inv: "r < next_room (lob S) \<Longrightarrow> room_ok (lob S) r" for r
    using join.prems(1) by (simp add: lobby_inv_def)
  show ?case
  proof (cases "r' = r")
    case True
    with inv [OF join.hyps(4)] step show ?thesis
      by (auto simp: room_ok_def Let_def go_map admits_def length_update split: if_splits option.splits)
  next
    case False
    with inv [of r'] step join.prems(2) show ?thesis
      by (auto simp: room_ok_def Let_def split: if_splits)
  qed
next
  case (leave p S r L q emptied)
  then have "room_ok (lob S) r'"
    by (auto simp: lobby_inv_def Remove_locked_eq split: option.splits)
  with leave.hyps(4) show ?case
    by (cases "r' = r") (auto simp: room_ok_def Let_def go_map Remove_locked_eq split: option.splits if_splits)
next
  case (call r g S)
  have inv: "names_ok (lob S)" "r < next_room (lob S) \<Longrightarrow> room_ok (lob S) r" for r
    using call.prems(1) by (simp_all add: lobby_inv_def)
  from call.prems(2) have "room_ok (lob S) r'"
    by (simp add: inv)
  then show ?case
    by (auto simp: room_ok_def Let_def go_map destroys_def)
qed (erule room_ok_frame; simp add: schedules_def)+

lemma pending_frame:
  assumes "pending S r" "destroyTimer (room_at (lob S') r) = destroyTimer (room_at (lob S) r)"
    and "destroyGeneration (room_at (lob S') r) = destroyGeneration (room_at (lob S) r)"
    and "\<And>t T. destroyTimer (room_at (lob S) r) = Some t \<Longrightarrow> map_of (timers (lob S)) t = Some T \<Longrightarrow>
      timerRoom T = r \<Longrightarrow> timerGeneration T = destroyGeneration (room_at (lob S) r) \<Longrightarrow>
      map_of (timers (lob S')) t = Some T \<or> (r, destroyGeneration (room_at (lob S) r)) \<in> set (calls S')"
    and "(r, destroyGeneration (room_at (lob S) r)) \<in> set (calls S) \<Longrightarrow>
      (r, destroyGeneration (room_at (lob S) r)) \<in> set (calls S')"
  shows "pending S' r"
  using assms unfolding pending_def by (auto split: option.splits)

lemma timers_ok_frame:
  assumes "lobby_inv S" "next_room (lob S') = next_room (lob S)" "next_timer (lob S') = next_timer (lob S)"
    and "timers (lob S') = timers (lob S)" "calls S' = calls S"
    and "\<And>r. destroyTimer (room_at (lob S') r) = destroyTimer (room_at (lob S) r)"
    and "\<And>r. destroyGeneration (room_at (lob S') r) = destroyGeneration (room_at (lob S) r)"
  shows "timers_ok S'"
  using assms unfolding lobby_inv_def timers_ok_def pending_def by simp

lemma timers_ok_cancel:
  assumes "timers_ok S" "r < next_room (lob S)"
  shows "timers_ok (goes p c (cancel_destroy r (upd_room r (\<lambda>rm. rm\<lparr>peers := ps\<rparr>) (lob S))) S)"
proof (cases "destroyTimer (room_at (lob S) r)")
  case None
  with assms show ?thesis
    unfolding timers_ok_def pending_def by auto
next
  case (Some t)
  with assms show ?thesis
    unfolding timers_ok_def pending_def
    by (auto simp: go_map split: if_splits option.splits) (metis option.inject)+
qed

lemma timers_ok_schedule:
  assumes "timers_ok S" "r < next_room (lob S)"
  shows "timers_ok (goes p c (scheduleDestroyIfEmpty r d (lob S)) S)"
  using assms unfolding timers_ok_def pending_def
  by (auto simp: go_map schedules_def less_Suc_eq split: if_splits option.splits)

lemma pc_room:
  assumes "lobby_inv S" "scheduling r (pcs S p)"
  shows "r < next_room (lob S) \<and> p < next_peer (lob S)"
proof -
  have "p < next_peer (lob S)"
    using assms by (auto simp: lobby_inv_def members_ok_def scheduling_def intro: leI ccontr)
  with assms have "located S p"
    by (simp add: lobby_inv_def members_ok_def)
  with assms(2) \<open>p < next_peer (lob S)\<close> show ?thesis
    by (auto simp: located_def scheduling_def Let_def)
qed

lemma inv_room: "lobby_inv S \<Longrightarrow> r < next_room (lob S) \<Longrightarrow> room_ok (lob S) r"
  by (simp add: lobby_inv_def)

lemma armed_room_destroys:
  assumes "lobby_inv S" "r < next_room (lob S)" "destroyTimer (room_at (lob S) r) \<noteq> None"
  shows "destroys r (destroyGeneration (room_at (lob S) r)) (lob S)"
  using inv_room [OF assms(1,2)] assms(3) by (auto simp: room_ok_def destroys_def Let_def split: if_splits)

lemma timers_ok_step: "lobby_step unicode S S' \<Longrightarrow> lobby_inv S \<Longrightarrow> timers_ok S'"
proof (induction rule: lobby_step.induct)
  case (create p S uid name visibility hash L r)
  then show ?case
    by (auto simp: Create_locked_Inr lobby_inv_def timers_ok_def pending_def less_Suc_eq)
next
  case (created S p r)
  then have "r < next_room (lob S)"
    using pc_room [of S r p] by (simp add: scheduling_def)
  with created.prems show ?case
    by (simp add: timers_ok_schedule lobby_inv_def)
next
  case (join p S r L others)
  have "L = cancel_destroy r (upd_room r (\<lambda>rm. rm\<lparr>peers := AList.update (peerID (peer_at (lob S) p)) p (peers rm)\<rparr>) (lob S))"
    using join.hyps(5) by (simp add: Add_locked_eq Let_def split: if_splits)
  then have "L = cancel_destroy r (upd_room r
      (\<lambda>rm. rm\<lparr>peers := AList.update (peerID (peer_at (lob S) p)) p (peers (room_at (lob S) r))\<rparr>) (lob S))"
    by (simp add: upd_room_def)
  with join show ?case
    by (simp add: timers_ok_cancel lobby_inv_def)
next
  case (leave p S r L q emptied)
  from leave.prems show ?case
    by (rule timers_ok_frame) (use leave.hyps(4) in \<open>auto simp: Remove_locked_eq split: option.splits\<close>)
next
  case (scheduled S p r)
  then have "r < next_room (lob S)"
    using pc_room [of S r p] by (simp add: scheduling_def)
  with scheduled.prems show ?case
    by (simp add: timers_ok_schedule lobby_inv_def)
next
  case (fire S t T)
  then show ?case
    unfolding timers_ok_def pending_def lobby_inv_def
    by (auto simp: go_map split: if_splits option.splits)
next
  case (call r g S)
  show ?case
  proof (cases "destroys r g (lob S)")
    case True
    with call show ?thesis
      unfolding timers_ok_def pending_def lobby_inv_def
      by (auto split: if_splits option.splits)
  next
    case False
    have keep: "(r', destroyGeneration (room_at (lob S) r')) \<in> set (remove1 (r, g) (calls S))"
      if "r' < next_room (lob S)" "destroyTimer (room_at (lob S) r') \<noteq> None"
        "(r', destroyGeneration (room_at (lob S) r')) \<in> set (calls S)" for r'
      using armed_room_destroys [OF call.prems that(1,2)] that(3) False
      by (cases "r' = r"; cases "g = destroyGeneration (room_at (lob S) r)") auto
    have tm: "timers_ok S"
      using call.prems by (simp add: lobby_inv_def)
    have "pending (S\<lparr>lob := destroy r g (lob S), calls := remove1 (r, g) (calls S)\<rparr>) r'"
      if "r' < next_room (lob S)" "destroyTimer (room_at (lob S) r') \<noteq> None" for r'
    proof (rule pending_frame)
      show "pending S r'"
        using tm that unfolding timers_ok_def by blast
    qed (use keep [OF that] in \<open>simp_all add: destroy_noop [OF False]\<close>)
    with tm show ?thesis
      unfolding timers_ok_def destroy_noop [OF False] by simp
  qed
qed (erule timers_ok_frame; simp)+

lemma no_leak_frame:
  assumes "lobby_inv S" "next_room (lob S') = next_room (lob S)"
    and "\<And>r. schedules r (lob S') \<Longrightarrow> schedules r (lob S) \<or> (\<exists>p. scheduling r (pcs S' p))"
    and "\<And>p r. scheduling r (pcs S p) \<Longrightarrow> schedules r (lob S') \<Longrightarrow> \<exists>q. scheduling r (pcs S' q)"
  shows "no_leak S'"
  using assms unfolding lobby_inv_def no_leak_def by metis

lemma scheduling_simps [simp]:
  "\<not> scheduling r Idle" "\<not> scheduling r (Added r')" "scheduling r (Creating r') \<longleftrightarrow> r' = r"
  "scheduling r (Unset r') \<longleftrightarrow> r' = r" "scheduling r (Deleted r' q e) \<longleftrightarrow> r' = r \<and> e"
  by (auto simp: scheduling_def)

lemma no_leak_goes:
  assumes inv: "lobby_inv S" and "next_room L = next_room (lob S)"
    and sch: "\<And>r. schedules r L \<Longrightarrow> schedules r (lob S) \<or> scheduling r c"
    and old: "\<And>r. scheduling r (pcs S p) \<Longrightarrow> scheduling r c \<or> \<not> schedules r L"
  shows "no_leak (goes p c L S)"
  using inv unfolding lobby_inv_def no_leak_def
proof (intro allI impI)
  fix r assume r: "r < next_room (lob (goes p c L S))" "schedules r (lob (goes p c L S))"
    and n: "names_ok (lob S) \<and> (\<forall>r<next_room (lob S). room_ok (lob S) r) \<and> timers_ok S \<and>
      (\<forall>r<next_room (lob S). schedules r (lob S) \<longrightarrow> (\<exists>p. scheduling r (pcs S p))) \<and> members_ok S"
  show "\<exists>q. scheduling r (pcs (goes p c L S) q)"
  proof (cases "scheduling r c")
    case False
    with r sch assms(2) have "r < next_room (lob S)" "schedules r (lob S)"
      by auto
    with n obtain q where "scheduling r (pcs S q)"
      by blast
    moreover from this old r False have "q \<noteq> p"
      by auto
    ultimately show ?thesis
      by (intro exI [of _ q]) simp
  qed (auto intro: exI [of _ p])
qed

lemma schedules_after [simp]:
  "schedules r' (scheduleDestroyIfEmpty r d L) \<longleftrightarrow> r' \<noteq> r \<and> schedules r' L"
  unfolding schedules_def [of r' "scheduleDestroyIfEmpty r d L"] by (auto simp: schedules_def)

lemma no_leak_step: "lobby_step unicode S S' \<Longrightarrow> lobby_inv S \<Longrightarrow> no_leak S'"
proof (induction rule: lobby_step.induct)
  case (create p S uid name visibility hash L r)
  note step = create.hyps(4) [unfolded Create_locked_Inr]
  show ?case unfolding no_leak_def
  proof (intro allI impI)
    fix r' assume r': "r' < next_room (lob (goes p (Creating r) L S))" "schedules r' (lob (goes p (Creating r) L S))"
    show "\<exists>q. scheduling r' (pcs (goes p (Creating r) L S) q)"
    proof (cases "r' = r")
      case False
      with r' step have "r' < next_room (lob S)" "schedules r' (lob S)"
        by (auto simp: schedules_def)
      with create.prems obtain q where "scheduling r' (pcs S q)"
        by (auto simp: lobby_inv_def no_leak_def)
      with create.hyps(2) show ?thesis
        by (intro exI [of _ q]) auto
    qed (auto intro: exI [of _ p])
  qed
next
  case (created S p r)
  from created.prems show ?case
    by (rule no_leak_goes) (use created.hyps in auto)
next
  case (join p S r L others)
  from join.prems show ?case
    by (rule no_leak_goes)
      (use join.hyps in \<open>auto simp: Add_locked_eq Let_def schedules_def split: if_splits\<close>)
next
  case (joined S p r)
  from joined.prems show ?case
    by (rule no_leak_goes) (use joined.hyps in \<open>auto simp: schedules_def\<close>)
next
  case (leave p S r L q emptied)
  from leave.prems show ?case
    by (rule no_leak_goes)
      (use leave.hyps in \<open>auto simp: Remove_locked_eq schedules_def split: if_splits option.splits\<close>)
next
  case (unset S p r q emptied)
  from unset.prems show ?case
    by (rule no_leak_goes) (use unset.hyps in \<open>auto simp: schedules_def\<close>)
next
  case (scheduled S p r)
  from scheduled.prems show ?case
    by (rule no_leak_goes) (use scheduled.hyps in auto)
next
  case (call r g S)
  from call.prems show ?case
    by (rule no_leak_frame) (auto simp: schedules_def split: if_splits)
qed (erule no_leak_frame; auto simp: schedules_def split: if_splits)+

lemma members_unique: "members_ok S \<Longrightarrow> p < next_peer (lob S) \<Longrightarrow> q < next_peer (lob S) \<Longrightarrow>
    peerID (peer_at (lob S) p) = peerID (peer_at (lob S) q) \<Longrightarrow> p = q"
  by (simp add: members_ok_def)

lemma members_entry: "members_ok S \<Longrightarrow> r < next_room (lob S) \<Longrightarrow> map_of (peers (room_at (lob S) r)) pid = Some p \<Longrightarrow>
    p < next_peer (lob S) \<and> peerID (peer_at (lob S) p) = pid \<and> place S p = Some r"
  by (simp add: members_ok_def)

lemma members_located: "members_ok S \<Longrightarrow> p < next_peer (lob S) \<Longrightarrow> located S p"
  by (simp add: members_ok_def)

lemma members_idle: "members_ok S \<Longrightarrow> pcs S p \<noteq> Idle \<Longrightarrow> p < next_peer (lob S)"
  by (auto simp: members_ok_def intro: leI ccontr)

text \<open>One peer moves; every other entry of every room stays.\<close>

lemma members_ok_goes:
  assumes m: "members_ok S" "p < next_peer (lob S)" and L: "next_peer L = next_peer (lob S)"
    and id: "\<And>q. peerID (peer_at L q) = peerID (peer_at (lob S) q)"
    and cur: "\<And>q. q \<noteq> p \<Longrightarrow> curRoom (peer_at L q) = curRoom (peer_at (lob S) q)"
    and A: "\<And>r pid q. q \<noteq> p \<Longrightarrow> q < next_peer (lob S) \<Longrightarrow> r < next_room (lob S) \<Longrightarrow>
      map_of (peers (room_at (lob S) r)) (peerID (peer_at (lob S) q)) = Some q \<Longrightarrow>
      map_of (peers (room_at L r)) (peerID (peer_at (lob S) q)) = Some q"
    and A': "\<And>r pid q. q \<noteq> p \<Longrightarrow> r < next_room L \<Longrightarrow> map_of (peers (room_at L r)) pid = Some q \<Longrightarrow>
      r < next_room (lob S) \<and> map_of (peers (room_at (lob S) r)) pid = Some q"
    and B: "\<And>r pid. r < next_room L \<Longrightarrow> map_of (peers (room_at L r)) pid = Some p \<Longrightarrow>
      pid = peerID (peer_at (lob S) p) \<and> place (goes p c L S) p = Some r"
    and C: "located (goes p c L S) p" and mono: "next_room (lob S) \<le> next_room L"
  shows "members_ok (goes p c L S)"
proof -
  have loc: "located (goes p c L S) q" if "q < next_peer (lob S)" "q \<noteq> p" for q
    using members_located [OF m(1) that(1)] mono that cur [OF that(2)] A [OF that(2,1)]
    by (auto simp: located_def Let_def id split: pc.splits option.splits)
  have pl: "place (goes p c L S) q = place S q" if "q \<noteq> p" for q
    using that by (cases "pcs S q") (simp_all add: place_def cur)
  have "q < next_peer (lob S) \<and> peerID (peer_at L q) = pid \<and> place (goes p c L S) q = Some r"
    if "r < next_room L" "map_of (peers (room_at L r)) pid = Some q" for r pid q
  proof (cases "q = p")
    case True
    with B that m(2) id show ?thesis by auto
  next
    case False
    with A' [OF False that] members_entry [OF m(1), of r pid q] pl id show ?thesis by auto
  qed
  moreover have "located (goes p c L S) q" if "q < next_peer (lob S)" for q
    using loc [OF that] C by (cases "q = p") auto
  moreover have "pcs S q = Idle" if "q \<ge> next_peer (lob S)" for q
    using m that by (simp add: members_ok_def)
  moreover have "p' = q" if "p' < next_peer (lob S)" "q < next_peer (lob S)"
      "peerID (peer_at (lob S) p') = peerID (peer_at (lob S) q)" for p' q
    using members_unique [OF m(1) that] .
  ultimately show ?thesis
    using m(2) unfolding members_ok_def by (auto simp: L id)
qed

text \<open>Nobody moves.\<close>

lemma members_ok_frame:
  assumes "lobby_inv S" "pcs S' = pcs S" "next_peer (lob S') = next_peer (lob S)" "next_room (lob S') = next_room (lob S)"
    and "\<And>q. peerID (peer_at (lob S') q) = peerID (peer_at (lob S) q)"
    and "\<And>q. curRoom (peer_at (lob S') q) = curRoom (peer_at (lob S) q)"
    and "\<And>r. peers (room_at (lob S') r) = peers (room_at (lob S) r)"
  shows "members_ok S'"
  using assms unfolding lobby_inv_def members_ok_def located_def place_def
  by (simp add: Let_def cong: pc.case_cong option.case_cong)

lemma inv_members: "lobby_inv S \<Longrightarrow> members_ok S"
  by (simp add: lobby_inv_def)

text \<open>A peer that is in no room is in no room's map.\<close>

lemma no_entry:
  assumes "members_ok S" "place S p = None" "r < next_room (lob S)"
  shows "map_of (peers (room_at (lob S) r)) pid \<noteq> Some p"
  using members_entry [OF assms(1,3), of pid p] assms(2) by auto

lemma own_entry:
  assumes "members_ok S" "r < next_room (lob S)" "p < next_peer (lob S)"
    and "map_of (peers (room_at (lob S) r)) (peerID (peer_at (lob S) p)) = Some q"
  shows "q = p"
  using members_entry [OF assms(1,2,4)] members_unique [OF assms(1), of q p] assms(3) by simp

lemma members_ok_schedule:
  assumes m: "members_ok S" and c: "pcs S p = Creating r \<or> pcs S p = Unset r"
  shows "members_ok (goes p Idle (scheduleDestroyIfEmpty r d (lob S)) S)"
proof -
  have p: "p < next_peer (lob S)"
    using c by (intro members_idle [OF m]) auto
  note loc = members_located [OF m p]
  have none: "place S p = None"
    using c by (auto simp: place_def)
  show ?thesis
    by (rule members_ok_goes [OF m p])
      (use c loc no_entry [OF m none] in \<open>auto simp: located_def Let_def split: if_splits option.splits\<close>)
qed

lemma members_ok_join:
  assumes m: "members_ok S" and p: "p < next_peer (lob S)"
    and idle: "pcs S p = Idle" "curRoom (peer_at (lob S) p) = None" and r: "r < next_room (lob S)"
    and L: "Add_locked r p (lob S) = (L, Inr others)"
  shows "members_ok (goes p (Added r) L S)"
proof -
  have L: "L = cancel_destroy r (upd_room r (\<lambda>rm. rm\<lparr>peers := AList.update (peerID (peer_at (lob S) p)) p (peers rm)\<rparr>) (lob S))"
    using L by (simp add: Add_locked_eq Let_def split: if_splits)
  have none: "place S p = None"
    using idle by (simp add: place_def)
  have ps: "peers (room_at L r') =
      (if r' = r then AList.update (peerID (peer_at (lob S) p)) p (peers (room_at (lob S) r)) else peers (room_at (lob S) r'))" for r'
    by (simp add: L)
  show ?thesis
  proof (rule members_ok_goes [OF m p])
    fix r' pid q
    assume q: "q \<noteq> p" "q < next_peer (lob S)" "r' < next_room (lob S)"
      "map_of (peers (room_at (lob S) r')) (peerID (peer_at (lob S) q)) = Some q"
    then show "map_of (peers (room_at L r')) (peerID (peer_at (lob S) q)) = Some q"
      using members_unique [OF m q(2) p] by (auto simp: ps go_map)
  next
    fix r' pid assume "r' < next_room L" "map_of (peers (room_at L r')) pid = Some p"
    then show "pid = peerID (peer_at (lob S) p) \<and> place (goes p (Added r) L S) p = Some r'"
      using no_entry [OF m none, of r' pid] r by (auto simp: ps go_map place_def L split: if_splits)
  qed (use idle r in \<open>auto simp: L go_map located_def Let_def split: if_splits\<close>)
qed

lemma members_ok_leave:
  assumes m: "members_ok S" and p: "p < next_peer (lob S)"
    and idle: "pcs S p = Idle" "curRoom (peer_at (lob S) p) = Some r"
    and L: "Remove_locked r (peerID (peer_at (lob S) p)) (lob S) = (L, Some (q, e))"
  shows "members_ok (goes p (Deleted r q e) L S)"
proof -
  have here: "r < next_room (lob S)" "map_of (peers (room_at (lob S) r)) (peerID (peer_at (lob S) p)) = Some p"
    using members_located [OF m p] idle by (auto simp: located_def Let_def)
  then have L: "L = upd_room r (\<lambda>rm. rm\<lparr>peers := AList.delete (peerID (peer_at (lob S) p)) (peers rm)\<rparr>) (lob S)"
    and q: "q = p"
    using L by (auto simp: Remove_locked_eq)
  have ps: "peers (room_at L r') =
      (if r' = r then AList.delete (peerID (peer_at (lob S) p)) (peers (room_at (lob S) r)) else peers (room_at (lob S) r'))" for r'
    by (simp add: L)
  have pl: "place S p = Some r"
    using idle by (simp add: place_def)
  show ?thesis
  proof (rule members_ok_goes [OF m p])
    fix r' pid q
    assume q: "q \<noteq> p" "q < next_peer (lob S)" "r' < next_room (lob S)"
      "map_of (peers (room_at (lob S) r')) (peerID (peer_at (lob S) q)) = Some q"
    then show "map_of (peers (room_at L r')) (peerID (peer_at (lob S) q)) = Some q"
      using members_unique [OF m q(2) p] by (auto simp: ps go_map)
  next
    fix r' pid assume a: "r' < next_room L" "map_of (peers (room_at L r')) pid = Some p"
    then have "map_of (peers (room_at (lob S) r')) pid = Some p" "r' = r \<longrightarrow> pid \<noteq> peerID (peer_at (lob S) p)"
      by (auto simp: ps go_map split: if_splits)
    with members_entry [OF m, of r' pid p] a(1) pl
    show "pid = peerID (peer_at (lob S) p) \<and> place (goes p (Deleted r q e) L S) p = Some r'"
      by (simp add: L)
  qed (use here q in \<open>auto simp: L go_map located_def Let_def split: if_splits\<close>)
qed

lemma members_ok_connect:
  assumes m: "members_ok S" and fresh: "\<forall>q < next_peer (lob S). peerID (peer_at (lob S) q) \<noteq> peerID x"
    and none: "curRoom x = None"
  shows "members_ok (S\<lparr>lob := (lob S)\<lparr>peer_at := (peer_at (lob S))(next_peer (lob S) := x),
    next_peer := next_peer (lob S) + 1\<rparr>\<rparr>)" (is "members_ok ?S")
proof -
  have idle: "pcs S (next_peer (lob S)) = Idle"
    using m by (simp add: members_ok_def)
  have loc: "located ?S p = located S p" and pl: "place ?S p = place S p" if "p < next_peer (lob S)" for p
    using that by (simp_all add: located_def place_def Let_def cong: pc.case_cong option.case_cong)
  have "located ?S (next_peer (lob S))"
    using idle none by (simp add: located_def)
  with loc members_located [OF m] have 1: "\<forall>p < next_peer (lob ?S). located ?S p"
    by (simp add: less_Suc_eq)
  have 2: "\<forall>r < next_room (lob ?S). \<forall>pid p. map_of (peers (room_at (lob ?S) r)) pid = Some p \<longrightarrow>
      p < next_peer (lob ?S) \<and> peerID (peer_at (lob ?S) p) = pid \<and> place ?S p = Some r"
  proof (intro allI impI)
    fix r pid p assume "r < next_room (lob ?S)" "map_of (peers (room_at (lob ?S) r)) pid = Some p"
    with members_entry [OF m, of r pid p] pl [of p]
    show "p < next_peer (lob ?S) \<and> peerID (peer_at (lob ?S) p) = pid \<and> place ?S p = Some r"
      by (simp add: less_Suc_eq)
  qed
  have 3: "\<forall>p q. p < next_peer (lob ?S) \<longrightarrow> q < next_peer (lob ?S) \<longrightarrow>
      peerID (peer_at (lob ?S) p) = peerID (peer_at (lob ?S) q) \<longrightarrow> p = q"
    using fresh members_unique [OF m] by (auto simp: less_Suc_eq)
  have "\<forall>p \<ge> next_peer (lob ?S). pcs ?S p = Idle"
    using m by (simp add: members_ok_def)
  with 1 2 3 show ?thesis
    unfolding members_ok_def by blast
qed

lemma members_ok_step: "lobby_step unicode S S' \<Longrightarrow> lobby_inv S \<Longrightarrow> members_ok S'"
proof (induction rule: lobby_step.induct)
  case (connect S uid username role)
  then show ?case
    by (intro members_ok_connect) (simp_all add: inv_members)
next
  case (create p S uid name visibility hash L r)
  note m = inv_members [OF create.prems]
  have none: "place S p = None"
    using create.hyps by (simp add: place_def)
  show ?case
    by (rule members_ok_goes [OF m create.hyps(1)])
      (use create.hyps(3,4) no_entry [OF m none] in
        \<open>auto simp: Create_locked_Inr located_def Let_def less_Suc_eq split: if_splits\<close>)
next
  case (created S p r)
  then show ?case
    by (simp add: members_ok_schedule inv_members)
next
  case (join p S r L others)
  then show ?case
    by (simp add: members_ok_join inv_members)
next
  case (joined S p r)
  note m = inv_members [OF joined.prems]
  have p: "p < next_peer (lob S)"
    using joined.hyps by (intro members_idle [OF m]) simp
  have ent: "pid = peerID (peer_at (lob S) p) \<and> r' = r"
    if "r' < next_room (lob S)" "map_of (peers (room_at (lob S) r')) pid = Some p" for r' pid
    using members_entry [OF m that] joined.hyps by (simp add: place_def)
  show ?case
    by (rule members_ok_goes [OF m p])
      (use joined.hyps members_located [OF m p] in
        \<open>auto simp: located_def place_def Let_def dest: ent\<close>)
next
  case (leave p S r L q emptied)
  then show ?case
    by (simp add: members_ok_leave inv_members)
next
  case (unset S p r q emptied)
  note m = inv_members [OF unset.prems]
  have p: "p < next_peer (lob S)"
    using unset.hyps by (intro members_idle [OF m]) simp
  note loc = members_located [OF m p]
  have none: "place S p = None"
    using unset.hyps by (simp add: place_def)
  show ?case
    by (rule members_ok_goes [OF m p])
      (use unset.hyps loc no_entry [OF m none] in \<open>auto simp: located_def Let_def\<close>)
next
  case (scheduled S p r)
  then show ?case
    by (simp add: members_ok_schedule inv_members)
qed (erule members_ok_frame; simp)+

text \<open>Every step of every goroutine keeps the invariant.\<close>

interpretation lobby: machine "lobby_step unicode" lobby_inv for unicode
  by unfold_locales
    (auto simp: lobby_inv_def [of t for t] intro: names_ok_step rooms_ok_step timers_ok_step no_leak_step members_ok_step)

section \<open>Configuration\<close>

definition configured :: "int \<Rightarrow> int \<Rightarrow> sched \<Rightarrow> bool" where
  "configured max_rooms max_peers S \<longleftrightarrow> maxRooms (lob S) = max_rooms \<and> maxPeersPerRoom (lob S) = max_peers \<and>
     (\<forall>r < next_room (lob S). MaxPeers (room_at (lob S) r) = max_peers)"

lemma configured_step: "lobby_step unicode S S' \<Longrightarrow> configured mr mp S \<Longrightarrow> configured mr mp S'"
proof (induction rule: lobby_step.induct)
  case (create p S uid name visibility hash L r)
  then show ?case
    by (auto simp: configured_def Create_locked_Inr)
next
  case (join p S r L others)
  then show ?case
    by (auto simp: configured_def Add_locked_eq Let_def split: if_splits)
next
  case (leave p S r L q emptied)
  then show ?case
    by (auto simp: configured_def Remove_locked_eq split: option.splits)
qed (simp_all add: configured_def)

interpretation config: machine "lobby_step unicode" "configured max_rooms max_peers" for unicode max_rooms max_peers
  by unfold_locales (rule configured_step)

definition reachable :: "(string \<Rightarrow> string) \<Rightarrow> int \<Rightarrow> int \<Rightarrow> sched \<Rightarrow> bool" where
  "reachable unicode max_rooms max_peers S \<longleftrightarrow> (lobby_step unicode)\<^sup>*\<^sup>* (start max_rooms max_peers) S"

lemma reachable_inv: "reachable unicode max_rooms max_peers S \<Longrightarrow> lobby_inv S"
  unfolding reachable_def by (rule lobby.run_keeps [OF _ start_inv])

lemma reachable_configured: "reachable unicode max_rooms max_peers S \<Longrightarrow> configured max_rooms max_peers S"
  unfolding reachable_def by (erule config.run_keeps) (simp add: configured_def start_def NewRegistry_def)

lemma inv_names: "lobby_inv S \<Longrightarrow> names_ok (lob S)"
  by (simp add: lobby_inv_def)

section \<open>Removal of an empty room\<close>

text \<open>
  The steps that need no request of any client: a goroutine finishes the operation it is in, a due
  timer fires, its callback runs, time passes.  No connection, creation, join or leave is among
  them.
\<close>

inductive housekeeping :: "sched \<Rightarrow> sched \<Rightarrow> bool" where
  created: "pcs S p = Creating r \<Longrightarrow>
    housekeeping S (goes p Idle (scheduleDestroyIfEmpty r roomIdleNoJoinDur (lob S)) S)"
| joined: "pcs S p = Added r \<Longrightarrow>
    housekeeping S (goes p Idle (upd_peer p (setRoom (Some r)) (lob S)) S)"
| unset: "pcs S p = Deleted r q emptied \<Longrightarrow>
    housekeeping S (goes p (if emptied \<and> registry (room_at (lob S) r) then Unset r else Idle)
      (upd_peer q (setRoom None) (lob S)) S)"
| scheduled: "pcs S p = Unset r \<Longrightarrow>
    housekeeping S (goes p Idle (scheduleDestroyIfEmpty r roomEmptyDestroyDur (lob S)) S)"
| fire: "map_of (timers (lob S)) t = Some T \<Longrightarrow> timerAt T \<le> clock (lob S) \<Longrightarrow>
    housekeeping S (S\<lparr>lob := (lob S)\<lparr>timers := AList.delete t (timers (lob S))\<rparr>,
      calls := (timerRoom T, timerGeneration T) # calls S\<rparr>)"
| call: "(r, g) \<in> set (calls S) \<Longrightarrow>
    housekeeping S (S\<lparr>lob := destroy r g (lob S), calls := remove1 (r, g) (calls S)\<rparr>)"
| tick: "0 \<le> d \<Longrightarrow> housekeeping S (S\<lparr>lob := (lob S)\<lparr>clock := clock (lob S) + d\<rparr>\<rparr>)"

lemma housekeeping_step: "housekeeping S S' \<Longrightarrow> lobby_step unicode S S'"
  by (induction rule: housekeeping.induct) (blast intro: lobby_step.intros)+

lemma housekeeping_inv: "housekeeping S S' \<Longrightarrow> lobby_inv S \<Longrightarrow> lobby_inv S'"
  by (rule lobby.step_keeps [OF housekeeping_step])

text \<open>Housekeeping admits nobody: no room or peer appears, and no name is taken.\<close>

definition quieter :: "room_ref \<Rightarrow> string \<Rightarrow> sched \<Rightarrow> bool" where
  "quieter r name S \<longleftrightarrow> lobby_inv S \<and> r < next_room (lob S) \<and> NameLower (room_at (lob S) r) = name \<and>
     peers (room_at (lob S) r) = [] \<and> map_of (rooms (lob S)) name \<in> {None, Some r}"

lemma quieter_step:
  assumes "housekeeping S S'" "quieter r name S"
  shows "quieter r name S'"
  using assms housekeeping_inv [OF assms(1)]
proof (induction rule: housekeeping.induct)
  case (call r' g S)
  then show ?case
    by (auto simp: quieter_def destroy_def destroy_locked_eq Let_def go_map split: if_splits)
qed (auto simp: quieter_def)

interpretation emptied: machine housekeeping "quieter r name" for r name
  by unfold_locales (rule quieter_step)

definition can_go :: "room_ref \<Rightarrow> string \<Rightarrow> sched \<Rightarrow> bool" where
  "can_go r name S \<longleftrightarrow> (\<exists>S'. housekeeping\<^sup>*\<^sup>* S S' \<and> destroyed (room_at (lob S') r) \<and> map_of (rooms (lob S')) name = None)"

lemma can_go_step: "housekeeping S S1 \<Longrightarrow> can_go r name S1 \<Longrightarrow> can_go r name S"
  unfolding can_go_def by (meson converse_rtranclp_into_rtranclp)

lemma fired_removable:
  assumes inv: "lobby_inv S" and r: "r < next_room (lob S)" "destroyTimer (room_at (lob S) r) \<noteq> None"
    and c: "(r, destroyGeneration (room_at (lob S) r)) \<in> set (calls S)"
  shows "can_go r (NameLower (room_at (lob S) r)) S"
  by (rule can_go_step [OF housekeeping.call [OF c]], unfold can_go_def, rule exI, rule conjI, rule rtranclp.rtrancl_refl)
    (simp add: armed_room_destroys [OF inv r] go_map)

lemma armed_removable:
  assumes inv: "lobby_inv S" and r: "r < next_room (lob S)" "destroyTimer (room_at (lob S) r) \<noteq> None"
  shows "can_go r (NameLower (room_at (lob S) r)) S"
proof (cases "(r, destroyGeneration (room_at (lob S) r)) \<in> set (calls S)")
  case False
  from r(2) obtain t where t: "destroyTimer (room_at (lob S) r) = Some t"
    by blast
  with inv r(1) have "pending S r"
    unfolding lobby_inv_def timers_ok_def by blast
  with t False obtain T where T: "map_of (timers (lob S)) t = Some T" "timerRoom T = r"
      "timerGeneration T = destroyGeneration (room_at (lob S) r)"
    by (auto simp: pending_def)
  define d where "d = max 0 (timerAt T - clock (lob S))"
  define S1 where "S1 = S\<lparr>lob := (lob S)\<lparr>clock := clock (lob S) + d\<rparr>\<rparr>"
  define S2 where "S2 = S1\<lparr>lob := (lob S1)\<lparr>timers := AList.delete t (timers (lob S1))\<rparr>,
      calls := (timerRoom T, timerGeneration T) # calls S1\<rparr>"
  have 1: "housekeeping S S1"
    unfolding S1_def by (rule housekeeping.tick) (simp add: d_def)
  have 2: "housekeeping S1 S2"
    unfolding S2_def by (rule housekeeping.fire) (simp_all add: S1_def T d_def)
  have "lobby_inv S2"
    by (rule housekeeping_inv [OF 2 housekeeping_inv [OF 1 inv]])
  from fired_removable [OF this, of r] r T have "can_go r (NameLower (room_at (lob S) r)) S2"
    by (simp add: S2_def S1_def)
  then show ?thesis
    by (rule can_go_step [OF 1 can_go_step [OF 2]])
qed (rule fired_removable [OF assms])

text \<open>An armed room, reached by one more step that keeps it in place.\<close>

lemma step_removable:
  assumes "lobby_inv S" "housekeeping S S1" "r < next_room (lob S1)"
    and "NameLower (room_at (lob S1) r) = NameLower (room_at (lob S) r)"
    and "destroyTimer (room_at (lob S1) r) \<noteq> None"
  shows "can_go r (NameLower (room_at (lob S) r)) S"
  using can_go_step [OF assms(2)] armed_removable [OF housekeeping_inv [OF assms(2,1)] assms(3,5)] assms(4)
  by simp

lemma empty_removable:
  assumes inv: "lobby_inv S" and r: "r < next_room (lob S)" "\<not> destroyed (room_at (lob S) r)" "peers (room_at (lob S) r) = []"
  shows "can_go r (NameLower (room_at (lob S) r)) S"
proof (cases "destroyTimer (room_at (lob S) r) = None")
  case True
  have reg: "registry (room_at (lob S) r)"
    using inv_room [OF inv r(1)] by (simp add: room_ok_def Let_def)
  with True r have sch: "schedules r (lob S)"
    by (simp add: schedules_def)
  with inv r(1) obtain p where "scheduling r (pcs S p)"
    by (auto simp: lobby_inv_def no_leak_def)
  then consider "pcs S p = Creating r" | "pcs S p = Unset r" | q where "pcs S p = Deleted r q True"
    by (auto simp: scheduling_def)
  then show ?thesis
  proof cases
    case 1
    show ?thesis
      by (rule step_removable [OF inv housekeeping.created [OF 1]]) (use r sch in simp_all)
  next
    case 2
    show ?thesis
      by (rule step_removable [OF inv housekeeping.scheduled [OF 2]]) (use r sch in simp_all)
  next
    case 3
    define S1 where "S1 = goes p (Unset r) (upd_peer q (setRoom None) (lob S)) S"
    have st: "housekeeping S S1"
      using housekeeping.unset [OF 3] by (simp add: S1_def reg)
    have inv1: "lobby_inv S1"
      by (rule housekeeping_inv [OF st inv])
    have pc: "pcs S1 p = Unset r" and sch1: "schedules r (lob S1)"
      using sch by (simp_all add: S1_def schedules_def)
    have "can_go r (NameLower (room_at (lob S1) r)) S1"
      by (rule step_removable [OF inv1 housekeeping.scheduled [OF pc]]) (use sch1 r in \<open>simp_all add: S1_def\<close>)
    then show ?thesis
      using can_go_step [OF st] by (simp add: S1_def)
  qed
qed (rule armed_removable [OF inv r(1)])

text \<open>However far housekeeping has come, it can finish.\<close>

lemma quieter_removable:
  assumes "quieter r name S"
  shows "can_go r name S"
proof (cases "destroyed (room_at (lob S) r)")
  case True
  with assms have "map_of (rooms (lob S)) name = None"
    by (auto simp: quieter_def dest: names_ok_rooms [OF inv_names])
  with True show ?thesis
    unfolding can_go_def by blast
next
  case False
  with assms empty_removable [of S r] show ?thesis
    by (simp add: quieter_def)
qed

section \<open>Properties\<close>

text \<open>
  C10.  Whatever the interleaving of connections, joins, leaves, creations and timer callbacks: the
  registry never exceeds its maximum of rooms, no room exceeds its maximum of peers, and every
  name in the registry leads to a live room whose lower-case name it is; a room that is not
  destroyed is found under its name.
\<close>

theorem lobby_capacity:
  assumes "reachable unicode max_rooms max_peers S" "0 \<le> max_rooms" "0 \<le> max_peers"
  shows "CountRooms (lob S) \<le> max_rooms \<and> distinct (map fst (rooms (lob S))) \<and>
    (\<forall>r < next_room (lob S). PeerCount r (lob S) \<le> max_peers \<and>
       (destroyed (room_at (lob S) r) \<longleftrightarrow> map_of (rooms (lob S)) (NameLower (room_at (lob S) r)) \<noteq> Some r)) \<and>
    (\<forall>name r. Find unicode name (lob S) = Some r \<longrightarrow>
       NameLower (room_at (lob S) r) = ToLower unicode name \<and> \<not> destroyed (room_at (lob S) r))"
proof -
  note inv = reachable_inv [OF assms(1)] and conf = reachable_configured [OF assms(1)]
  note n = inv_names [OF inv]
  have "PeerCount r (lob S) \<le> max_peers \<and>
       (destroyed (room_at (lob S) r) \<longleftrightarrow> map_of (rooms (lob S)) (NameLower (room_at (lob S) r)) \<noteq> Some r)"
    if "r < next_room (lob S)" for r
    using inv_room [OF inv that] conf that assms(3) names_ok_rooms [OF n, of "NameLower (room_at (lob S) r)" r]
    by (auto simp: room_ok_def Let_def PeerCount_def configured_def split: if_splits)
  moreover have "CountRooms (lob S) \<le> max_rooms" "distinct (map fst (rooms (lob S)))"
    using n conf assms(2) by (simp_all add: names_ok_def configured_def CountRooms_def)
  ultimately show ?thesis
    using names_ok_rooms [OF n] by (auto simp: Find_def)
qed

text \<open>
  Membership is consistent: a peer is in at most one room, and while its goroutine is between
  operations it is in the peer map of a room exactly when that room is its \<open>CurrentRoom\<close>, under its
  own identifier.
\<close>

lemma one_room_per_peer:
  assumes "reachable unicode max_rooms max_peers S"
    and "r < next_room (lob S)" "map_of (peers (room_at (lob S) r)) pid = Some p"
  shows "pid = peerID (peer_at (lob S) p) \<and>
    (\<forall>r' pid'. r' < next_room (lob S) \<and> map_of (peers (room_at (lob S) r')) pid' = Some p \<longrightarrow> r' = r) \<and>
    (pcs S p = Idle \<longrightarrow> curRoom (peer_at (lob S) p) = Some r)"
proof -
  note m = inv_members [OF reachable_inv [OF assms(1)]]
  have "place S p = Some r" "pid = peerID (peer_at (lob S) p)"
    using members_entry [OF m assms(2,3)] by auto
  moreover have "place S p = Some r'" if "r' < next_room (lob S)" "map_of (peers (room_at (lob S) r')) pid' = Some p" for r' pid'
    using members_entry [OF m that] by simp
  ultimately show ?thesis
    by (auto simp: place_def)
qed

text \<open>
  C11.  A join and the destruction of the room never both win, with no assumption on the state, the
  timers or the generations: after a successful \<open>Add\<close> no destroy callback, however stale or fresh,
  changes anything; after a destruction every \<open>Add\<close> is refused with \<open>ErrRoomNotFound\<close> and leaves the
  room alone; and a callback that is not the active one, or meets a peer, does nothing.
\<close>

theorem join_and_destroy_exclude_each_other:
  "(Add_locked r p L = (L', Inr others) \<longrightarrow> destroy r g L' = L' \<and> map_of (peers (room_at L' r)) (peerID (peer_at L p)) = Some p) \<and>
   (destroy_locked r g L = (L', True) \<longrightarrow> Add r p L' = (L', Inl ErrRoomNotFound)) \<and>
   (destroyGeneration (room_at L r) \<noteq> g \<or> destroyTimer (room_at L r) = None \<or> peers (room_at L r) \<noteq> [] \<longrightarrow>
      destroy r g L = L)"
proof (intro conjI impI)
  assume "Add_locked r p L = (L', Inr others)"
  then have L': "L' = cancel_destroy r (upd_room r (\<lambda>rm. rm\<lparr>peers := AList.update (peerID (peer_at L p)) p (peers rm)\<rparr>) L)"
    by (simp add: Add_locked_eq Let_def split: if_splits)
  then show "map_of (peers (room_at L' r)) (peerID (peer_at L p)) = Some p"
    by (simp add: go_map)
  have "\<not> destroys r g L'"
    by (simp add: L' destroys_def)
  then show "destroy r g L' = L'"
    by (rule destroy_noop)
next
  assume "destroy_locked r g L = (L', True)"
  then have "destroyed (room_at L' r)"
    by (auto simp: destroy_locked_eq split: if_splits)
  then show "Add r p L' = (L', Inl ErrRoomNotFound)"
    by (simp add: Add_def Add_locked_def Let_def)
next
  assume "destroyGeneration (room_at L r) \<noteq> g \<or> destroyTimer (room_at L r) = None \<or> peers (room_at L r) \<noteq> []"
  then have "\<not> destroys r g L"
    by (auto simp: destroys_def)
  then show "destroy r g L = L"
    by (rule destroy_noop)
qed

text \<open>
  C13.  No room is leaked.  In every reachable state, a registered room without peers has its
  destruction under way: an armed timer or a fired callback with the current generation, or a
  goroutine about to arm one.  And nobody has to ask for it: in whatever order the goroutines
  finish what they are doing, timers fire and callbacks run, as long as no client makes a request
  (\<open>housekeeping\<close> has no step that connects, creates, joins or leaves) the room stays empty and there
  are further such steps, again without any request, after which it is destroyed and its name free.
\<close>

theorem empty_rooms_go_away:
  assumes "reachable unicode max_rooms max_peers S"
    and "r < next_room (lob S)" "\<not> destroyed (room_at (lob S) r)" "peers (room_at (lob S) r) = []"
  shows "(pending S r \<or> (\<exists>p. scheduling r (pcs S p))) \<and>
    (\<forall>S1. housekeeping\<^sup>*\<^sup>* S S1 \<longrightarrow> peers (room_at (lob S1) r) = [] \<and>
      (\<exists>S'. housekeeping\<^sup>*\<^sup>* S1 S' \<and> destroyed (room_at (lob S') r) \<and>
         map_of (rooms (lob S')) (NameLower (room_at (lob S) r)) = None))"
proof (intro conjI allI impI)
  note inv = reachable_inv [OF assms(1)]
  show "pending S r \<or> (\<exists>p. scheduling r (pcs S p))"
  proof (cases "destroyTimer (room_at (lob S) r) = None")
    case True
    with inv_room [OF inv assms(2)] assms have "schedules r (lob S)"
      by (simp add: schedules_def room_ok_def Let_def)
    with inv assms(2) show ?thesis
      by (auto simp: lobby_inv_def no_leak_def)
  qed (use inv assms(2) in \<open>auto simp: lobby_inv_def timers_ok_def\<close>)
  fix S1
  assume run: "housekeeping\<^sup>*\<^sup>* S S1"
  have "quieter r (NameLower (room_at (lob S) r)) S"
    using assms inv inv_room [OF inv assms(2)] by (simp add: quieter_def room_ok_def Let_def)
  then have q: "quieter r (NameLower (room_at (lob S) r)) S1"
    by (rule emptied.run_keeps [OF run])
  then show "peers (room_at (lob S1) r) = []"
    by (simp add: quieter_def)
  from quieter_removable [OF q] show "\<exists>S'. housekeeping\<^sup>*\<^sup>* S1 S' \<and> destroyed (room_at (lob S') r) \<and>
      map_of (rooms (lob S')) (NameLower (room_at (lob S) r)) = None"
    by (simp add: can_go_def)
qed

lemma destroyed_step:
  "lobby_step unicode S S' \<Longrightarrow> r < next_room (lob S) \<Longrightarrow> destroyed (room_at (lob S) r) \<Longrightarrow>
    r < next_room (lob S') \<and> destroyed (room_at (lob S') r)"
proof (induction rule: lobby_step.induct)
  case (create p S uid name visibility hash L r)
  then show ?case
    by (auto simp: Create_locked_Inr)
next
  case (join p S r L others)
  then show ?case
    by (auto simp: Add_locked_eq Let_def split: if_splits)
next
  case (leave p S r L q emptied)
  then show ?case
    by (auto simp: Remove_locked_eq split: option.splits)
qed auto

lemma destroyed_run:
  "(lobby_step unicode)\<^sup>*\<^sup>* S S' \<Longrightarrow> r < next_room (lob S) \<Longrightarrow> destroyed (room_at (lob S) r) \<Longrightarrow>
    r < next_room (lob S') \<and> destroyed (room_at (lob S') r)"
  by (induction rule: rtranclp_induct) (auto dest: destroyed_step)

text \<open>
  Destruction is final and loses nobody: a destroyed room is empty in every reachable state,
  stays destroyed under every further step, and is returned by no look-up.
\<close>

lemma destruction_is_final:
  assumes "reachable unicode max_rooms max_peers S" "r < next_room (lob S)" "destroyed (room_at (lob S) r)"
    and "(lobby_step unicode)\<^sup>*\<^sup>* S S'"
  shows "destroyed (room_at (lob S') r) \<and> PeerCount r (lob S') = 0 \<and> Find unicode name (lob S') \<noteq> Some r \<and>
    fst (Add r p (lob S')) = lob S'"
proof -
  have r: "reachable unicode max_rooms max_peers S'"
    using assms(1,4) by (auto simp: reachable_def)
  note inv = reachable_inv [OF r]
  have d: "r < next_room (lob S')" "destroyed (room_at (lob S') r)"
    using destroyed_run [OF assms(4,2,3)] by auto
  with inv_room [OF inv d(1)] names_ok_rooms [OF inv_names [OF inv], of "ToLower unicode name" r] show ?thesis
    by (auto simp: room_ok_def Let_def PeerCount_def Find_def Add_def Add_locked_def)
qed

section \<open>A concrete run\<close>

text \<open>One peer connects, creates the room \<open>Jam\<close>, and joins it.\<close>

definition demo_connected :: sched where
  "demo_connected = (start 2 2)\<lparr>lob := (lob (start 2 2))\<lparr>peer_at := (peer_at (lob (start 2 2)))
      (next_peer (lob (start 2 2)) := NewPeer (of_bytes [1]) ''ann'' '''' (clock (lob (start 2 2)))),
     next_peer := next_peer (lob (start 2 2)) + 1\<rparr>\<rparr>"

definition demo_creating :: sched where
  "demo_creating = goes 0 (Creating 0)
     (fst (Create_locked (\<lambda>s. s) (of_bytes [2]) ''Jam'' ''public'' None (lob demo_connected))) demo_connected"

definition demo_created :: sched where
  "demo_created = goes 0 Idle (scheduleDestroyIfEmpty 0 roomIdleNoJoinDur (lob demo_creating)) demo_creating"

definition demo_added :: sched where
  "demo_added = goes 0 (Added 0) (fst (Add_locked 0 0 (lob demo_created))) demo_created"

definition demo_joined :: sched where
  "demo_joined = goes 0 Idle (upd_peer 0 (setRoom (Some 0)) (lob demo_added)) demo_added"

text \<open>Instead of joining, the idle timer of 60 seconds runs out.\<close>

definition demo_late :: sched where
  "demo_late = demo_created\<lparr>lob := (lob demo_created)\<lparr>clock := clock (lob demo_created) + roomIdleNoJoinDur\<rparr>\<rparr>"

definition demo_fired :: sched where
  "demo_fired = demo_late\<lparr>lob := (lob demo_late)\<lparr>timers := AList.delete 0 (timers (lob demo_late))\<rparr>,
     calls := (0, 1) # calls demo_late\<rparr>"

definition demo_gone :: sched where
  "demo_gone = demo_fired\<lparr>lob := destroy 0 1 (lob demo_fired), calls := remove1 (0, 1) (calls demo_fired)\<rparr>"

lemma demo_connected_get [simp]:
  "rooms (lob demo_connected) = []" "next_room (lob demo_connected) = 0" "next_peer (lob demo_connected) = 1"
  "maxRooms (lob demo_connected) = 2" "maxPeersPerRoom (lob demo_connected) = 2" "pcs demo_connected p = Idle"
  "peer_at (lob demo_connected) 0 = NewPeer (of_bytes [1]) ''ann'' '''' 0" "calls demo_connected = []"
  "timers (lob demo_connected) = []" "next_timer (lob demo_connected) = 0" "clock (lob demo_connected) = 0"
  by (simp_all add: demo_connected_def start_def NewRegistry_def)

lemma ToLower_Jam [simp]: "ToLower (\<lambda>s. s) ''Jam'' = ''jam''"
  by code_simp

lemma demo_Create:
  "Create_locked (\<lambda>s. s) (of_bytes [2]) ''Jam'' ''public'' None (lob demo_connected) = (lob demo_creating, Inr 0)"
  by (simp add: demo_creating_def Create_locked_def Let_def)

lemma demo_creating_get [simp]:
  "rooms (lob demo_creating) = [(''jam'', 0)]" "next_room (lob demo_creating) = 1" "next_peer (lob demo_creating) = 1"
  "pcs demo_creating p = (if p = 0 then Creating 0 else Idle)" "calls demo_creating = []"
  "peer_at (lob demo_creating) 0 = NewPeer (of_bytes [1]) ''ann'' '''' 0"
  "room_at (lob demo_creating) 0 = \<lparr>roomID = of_bytes [2], Name = ''Jam'', NameLower = ''jam'', Visibility = ''public'',
     HasPassword = False, passwordHash = None, MaxPeers = 2, CreatedAt = 0, peers = [], audioCh = [],
     closeCh = False, destroyTimer = None, destroyGeneration = 0, destroyed = False, registry = True\<rparr>"
  "timers (lob demo_creating) = []" "next_timer (lob demo_creating) = 0" "clock (lob demo_creating) = 0"
  by (simp_all add: demo_creating_def Create_locked_def Let_def)

lemma demo_created_get [simp]:
  "rooms (lob demo_created) = [(''jam'', 0)]" "next_room (lob demo_created) = 1" "next_peer (lob demo_created) = 1"
  "pcs demo_created p = Idle" "calls demo_created = []"
  "peer_at (lob demo_created) 0 = NewPeer (of_bytes [1]) ''ann'' '''' 0"
  "room_at (lob demo_created) 0 = (room_at (lob demo_creating) 0)\<lparr>destroyTimer := Some 0, destroyGeneration := 1\<rparr>"
  "timers (lob demo_created) = [(0, \<lparr>timerRoom = 0, timerGeneration = 1, timerAt = roomIdleNoJoinDur\<rparr>)]"
  "clock (lob demo_created) = 0"
  by (simp_all add: demo_created_def schedules_def)

lemma demo_Add: "\<exists>others. Add_locked 0 0 (lob demo_created) = (lob demo_added, Inr others)"
  by (simp add: demo_added_def Add_locked_def Let_def)

lemma demo_added_get [simp]:
  "next_room (lob demo_added) = 1" "next_peer (lob demo_added) = 1"
  "pcs demo_added p = (if p = 0 then Added 0 else Idle)"
  "peers (room_at (lob demo_added) 0) = [(of_bytes [1], 0)]"
  by (simp_all add: demo_added_def Add_locked_eq admits_def Let_def)

lemma demo_joined_get [simp]:
  "next_room (lob demo_joined) = 1" "pcs demo_joined p = Idle"
  "peers (room_at (lob demo_joined) 0) = [(of_bytes [1], 0)]"
  by (simp_all add: demo_joined_def)

lemma demo_run:
  "reachable (\<lambda>s. s) 2 2 demo_created" "reachable (\<lambda>s. s) 2 2 demo_joined"
proof -
  have 1: "lobby_step (\<lambda>s. s) (start 2 2) demo_connected"
    unfolding demo_connected_def by (rule lobby_step.connect) (simp add: start_def NewRegistry_def)
  have 2: "lobby_step (\<lambda>s. s) demo_connected demo_creating"
    using lobby_step.create [OF _ _ _ demo_Create, of 0] by (simp add: demo_creating_def)
  have 3: "lobby_step (\<lambda>s. s) demo_creating demo_created"
    unfolding demo_created_def by (rule lobby_step.created) simp
  obtain others where "Add_locked 0 0 (lob demo_created) = (lob demo_added, Inr others)"
    using demo_Add by blast
  from lobby_step.join [OF _ _ _ _ this, of "\<lambda>s. s"]
  have 4: "lobby_step (\<lambda>s. s) demo_created demo_added"
    by (simp add: demo_added_def)
  have 5: "lobby_step (\<lambda>s. s) demo_added demo_joined"
    unfolding demo_joined_def by (rule lobby_step.joined) simp
  from 1 2 3 show "reachable (\<lambda>s. s) 2 2 demo_created"
    unfolding reachable_def by (meson r_into_rtranclp rtranclp.rtrancl_into_rtrancl)
  then show "reachable (\<lambda>s. s) 2 2 demo_joined"
    unfolding reachable_def using 4 5 by (meson rtranclp.rtrancl_into_rtrancl)
qed

lemma demo_gone_run: "reachable (\<lambda>s. s) 2 2 demo_gone"
proof -
  have 1: "lobby_step (\<lambda>s. s) demo_created demo_late"
    unfolding demo_late_def by (rule lobby_step.tick) (simp add: roomIdleNoJoinDur_def)
  have 2: "lobby_step (\<lambda>s. s) demo_late demo_fired"
    using lobby_step.fire [of demo_late 0 "\<lparr>timerRoom = 0, timerGeneration = 1, timerAt = roomIdleNoJoinDur\<rparr>" "\<lambda>s. s"]
    by (simp add: demo_fired_def demo_late_def)
  have 3: "lobby_step (\<lambda>s. s) demo_fired demo_gone"
    unfolding demo_gone_def by (rule lobby_step.call) (simp add: demo_fired_def)
  from demo_run(1) 1 2 3 show ?thesis
    unfolding reachable_def by (meson rtranclp.rtrancl_into_rtrancl)
qed

lemma demo_gone_get: "next_room (lob demo_gone) = 1" "destroyed (room_at (lob demo_gone) 0)"
  by (simp_all add: demo_gone_def demo_fired_def demo_late_def destroys_def)

lemma destruction_is_final_instance:
  "PeerCount 0 (lob demo_gone) = 0 \<and> Find (\<lambda>s. s) ''jam'' (lob demo_gone) \<noteq> Some 0"
  using destruction_is_final [OF demo_gone_run, of 0 demo_gone "''jam''"] demo_gone_get by simp

theorem lobby_capacity_witness: "CountRooms (lob demo_joined) \<le> 2 \<and> PeerCount 0 (lob demo_joined) \<le> 2"
  using lobby_capacity [OF demo_run(2)] by simp

lemma one_room_per_peer_instance: "curRoom (peer_at (lob demo_joined) 0) = Some 0"
  using one_room_per_peer [OF demo_run(2), of 0 "of_bytes [1]" 0] by simp

theorem join_and_destroy_exclude_each_other_witness:
  "\<exists>L. fst (Add_locked 0 0 (lob demo_created)) = L \<and> destroy 0 1 L = L"
proof -
  obtain others where "Add_locked 0 0 (lob demo_created) = (lob demo_added, Inr others)"
    using demo_Add by blast
  with join_and_destroy_exclude_each_other [of 0 0 "lob demo_created" "lob demo_added" others 1] show ?thesis
    by simp
qed

lemma demo_fired_run: "housekeeping\<^sup>*\<^sup>* demo_created demo_fired"
proof -
  have 1: "housekeeping demo_created demo_late"
    unfolding demo_late_def by (rule housekeeping.tick) (simp add: roomIdleNoJoinDur_def)
  have 2: "housekeeping demo_late demo_fired"
    using housekeeping.fire [of demo_late 0 "\<lparr>timerRoom = 0, timerGeneration = 1, timerAt = roomIdleNoJoinDur\<rparr>"]
    by (simp add: demo_fired_def demo_late_def)
  from 1 2 show ?thesis
    by (meson r_into_rtranclp rtranclp.rtrancl_into_rtrancl)
qed

text \<open>The room created in the run above, after its timer has fired: its callback is left to run.\<close>

theorem empty_rooms_go_away_witness:
  "map_of (rooms (lob demo_fired)) ''jam'' = Some 0 \<and>
   (\<exists>S'. housekeeping\<^sup>*\<^sup>* demo_fired S' \<and> destroyed (room_at (lob S') 0) \<and> map_of (rooms (lob S')) ''jam'' = None)"
  using empty_rooms_go_away [OF demo_run(1), of 0] demo_fired_run by (simp add: demo_fired_def demo_late_def)

end
