(* ===== verification/Lobby_Spec.thy ===== *)
theory Lobby_Spec
  imports Lobby_Run
begin

text \<open>
  What the lobby promises, seen from outside: a hall maps lower-case room names to a capacity and
  a set of members.  The methods of rooms and registry refine the operations of the hall.  Also
  the password gate of a room and the public list.
\<close>

section \<open>The abstract hall\<close>

type_synonym hall = "string \<Rightarrow> (int \<times> uuid set) option"

definition hall_of :: "lobby \<Rightarrow> hall" where
  "hall_of L name = map_option (\<lambda>r. (MaxPeers (room_at L r), fst ` set (peers (room_at L r)))) (map_of (rooms L) name)"

definition hall_join :: "string \<Rightarrow> uuid \<Rightarrow> hall \<Rightarrow> hall" where
  "hall_join name pid H = H(name := map_option (\<lambda>(c, M). (c, insert pid M)) (H name))"

definition hall_leave :: "string \<Rightarrow> uuid \<Rightarrow> hall \<Rightarrow> hall" where
  "hall_leave name pid H = H(name := map_option (\<lambda>(c, M). (c, M - {pid})) (H name))"

definition lobby_wf :: "lobby \<Rightarrow> bool" where
  "lobby_wf L \<longleftrightarrow> names_ok L \<and> (\<forall>r < next_room L. room_ok L r)"

lemma inv_lobby_wf: "lobby_inv S \<Longrightarrow> lobby_wf (lob S)"
  by (simp add: lobby_inv_def lobby_wf_def)

lemma hall_of_cong:
  assumes "rooms L' = rooms L" "\<And>r. r \<in> snd ` set (rooms L) \<Longrightarrow> MaxPeers (room_at L' r) = MaxPeers (room_at L r)"
    and "\<And>r. r \<in> snd ` set (rooms L) \<Longrightarrow> fst ` set (peers (room_at L' r)) = fst ` set (peers (room_at L r))"
  shows "hall_of L' = hall_of L"
proof
  fix name
  show "hall_of L' name = hall_of L name"
  proof (cases "map_of (rooms L) name")
    case (Some r)
    then have "r \<in> snd ` set (rooms L)"
      by (force dest: map_of_SomeD)
    with assms Some show ?thesis
      by (simp add: hall_of_def)
  qed (simp add: hall_of_def assms(1))
qed

lemma wf_name:
  assumes "lobby_wf L" "map_of (rooms L) name = Some r"
  shows "r < next_room L" "NameLower (room_at L r) = name" "\<not> destroyed (room_at L r)" "registry (room_at L r)"
  using assms names_ok_rooms [of L name r] by (auto simp: lobby_wf_def room_ok_def Let_def)

text \<open>A change of one registered room shows under its name only.\<close>

lemma hall_of_room:
  assumes wf: "lobby_wf L" and r: "map_of (rooms L) name = Some r" and rs: "rooms L' = rooms L"
    and other: "\<And>r'. r' \<noteq> r \<Longrightarrow> room_at L' r' = room_at L r'"
  shows "hall_of L' = (hall_of L)(name := Some (MaxPeers (room_at L' r), fst ` set (peers (room_at L' r))))"
proof
  fix k
  show "hall_of L' k = ((hall_of L)(name := Some (MaxPeers (room_at L' r), fst ` set (peers (room_at L' r))))) k"
  proof (cases "map_of (rooms L) k")
    case (Some r')
    show ?thesis
    proof (cases "k = name")
      case False
      with wf_name(2) [OF wf r] wf_name(2) [OF wf Some] have "r' \<noteq> r" by auto
      from other [OF this] Some False show ?thesis
        by (simp add: hall_of_def rs)
    qed (simp add: hall_of_def rs r)
  next
    case None
    with r have "k \<noteq> name" by auto
    with None show ?thesis
      by (simp add: hall_of_def rs)
  qed
qed

lemma fst_set_update: "fst ` set (AList.update k v m) = insert k (fst ` set m)"
  by (induction m) auto

lemma fst_set_delete: "fst ` set (AList.delete k m) = fst ` set m - {k}"
  by (auto simp: set_delete)

lemma hall_of_schedule [simp]: "hall_of (scheduleDestroyIfEmpty r d L) = hall_of L"
  by (rule hall_of_cong) simp_all

lemma hall_of_upd_peer [simp]: "hall_of (upd_peer p f L) = hall_of L"
  by (rule hall_of_cong) simp_all

lemma hall_of_notify [simp]: "hall_of (notify d L) = hall_of L"
  by (rule hall_of_cong) simp_all

lemma hall_create:
  assumes wf: "lobby_wf L" and c: "Create unicode uid name visibility hash L = (L', Inr r)"
  shows "hall_of L' = (hall_of L)(ToLower unicode name \<mapsto> (maxPeersPerRoom L, {})) \<and> Find unicode name L' = Some r \<and>
    hall_of L (ToLower unicode name) = None"
proof -
  obtain L1 where L1: "Create_locked unicode uid name visibility hash L = (L1, Inr r)"
    and L': "hall_of L' = hall_of L1" "rooms L' = rooms L1"
    using c by (auto simp: Create_def Let_def split: prod.splits sum.splits if_splits)
  note step = L1 [unfolded Create_locked_Inr creates_def]
  have fresh: "map_of (rooms L) k \<noteq> Some (next_room L)" for k
    using wf_name(1) [OF wf, of k "next_room L"] by auto
  have "hall_of L1 k = ((hall_of L)(ToLower unicode name \<mapsto> (maxPeersPerRoom L, {}))) k" for k
  proof (cases "map_of (rooms L) k")
    case (Some r')
    with fresh have "r' \<noteq> next_room L" by auto
    with step Some show ?thesis
      by (simp add: hall_of_def go_map)
  qed (use step in \<open>simp add: hall_of_def go_map\<close>)
  then have "hall_of L1 = (hall_of L)(ToLower unicode name \<mapsto> (maxPeersPerRoom L, {}))"
    by (rule ext)
  with step L' show ?thesis
    by (simp add: Find_def go_map hall_of_def)
qed

lemma hall_add:
  assumes wf: "lobby_wf L" and r: "map_of (rooms L) name = Some r" and a: "Add r p L = (L', Inr others)"
  shows "hall_of L' = hall_join name (peerID (peer_at L p)) (hall_of L)"
proof -
  obtain L1 where L': "L' = upd_peer p (setRoom (Some r)) L1" and L1: "Add_locked r p L = (L1, Inr others)"
    using a by (auto simp: Add_def split: prod.splits sum.splits)
  then have L1: "L1 = cancel_destroy r (upd_room r (\<lambda>rm. rm\<lparr>peers := AList.update (peerID (peer_at L p)) p (peers rm)\<rparr>) L)"
    by (simp add: Add_locked_eq Let_def split: if_splits)
  have "hall_of L1 = (hall_of L)(name := Some (MaxPeers (room_at L1 r), fst ` set (peers (room_at L1 r))))"
    by (rule hall_of_room [OF wf r]) (simp_all add: L1)
  moreover have "MaxPeers (room_at L1 r) = MaxPeers (room_at L r)"
      "fst ` set (peers (room_at L1 r)) = insert (peerID (peer_at L p)) (fst ` set (peers (room_at L r)))"
    by (simp_all add: L1 fst_set_update)
  ultimately show ?thesis
    using r by (simp add: L' hall_join_def hall_of_def [of L name])
qed

lemma hall_remove:
  assumes wf: "lobby_wf L" and r: "map_of (rooms L) name = Some r"
  shows "hall_of (Remove r pid L) = hall_leave name pid (hall_of L)"
proof (cases "map_of (peers (room_at L r)) pid")
  case None
  then have "pid \<notin> fst ` set (peers (room_at L r))"
    by (simp add: map_of_eq_None_iff)
  with None r show ?thesis
    by (auto simp: Remove_def Remove_locked_eq hall_leave_def hall_of_def fun_eq_iff)
next
  case (Some p)
  define L1 where "L1 = upd_room r (\<lambda>rm. rm\<lparr>peers := AList.delete pid (peers rm)\<rparr>) L"
  have "hall_of (Remove r pid L) = hall_of L1"
    using Some by (simp add: Remove_def Remove_locked_eq Let_def L1_def)
  also have "\<dots> = (hall_of L)(name := Some (MaxPeers (room_at L1 r), fst ` set (peers (room_at L1 r))))"
    by (rule hall_of_room [OF wf r]) (simp_all add: L1_def)
  finally show ?thesis
    using r by (simp add: L1_def hall_leave_def hall_of_def [of L name] fst_set_delete)
qed

lemma hall_destroy:
  assumes wf: "lobby_wf L" and r: "map_of (rooms L) name = Some r"
  shows "hall_of (destroy r g L) =
    (if destroys r g L then (hall_of L)(name := None) else hall_of L) \<and>
    (destroys r g L \<longrightarrow> hall_of L name = Some (MaxPeers (room_at L r), {}))"
proof (cases "destroys r g L")
  case True
  have n: "NameLower (room_at L r) = name"
    by (rule wf_name(2) [OF wf r])
  have "hall_of (destroy r g L) k = ((hall_of L)(name := None)) k" for k
  proof (cases "k = name")
    case False
    have "r' \<noteq> r" if "map_of (rooms L) k = Some r'" for r'
      using wf_name(2) [OF wf that] n False by auto
    with True n False show ?thesis
      by (cases "map_of (rooms L) k") (auto simp: hall_of_def go_map)
  qed (simp add: hall_of_def True n go_map)
  with True r show ?thesis
    by (auto simp: fun_eq_iff hall_of_def destroys_def)
qed (simp add: destroy_noop)

text \<open>When the operations refuse, in terms of the hall.\<close>

lemma length_rooms_hall: "lobby_wf L \<Longrightarrow> card (dom (hall_of L)) = length (rooms L)"
proof -
  assume "lobby_wf L"
  then have "wf_map (rooms L)"
    by (simp add: lobby_wf_def names_ok_def)
  moreover have "dom (hall_of L) = set (map fst (rooms L))"
    unfolding dom_map_of_conv_image_fst [of "rooms L", symmetric, unfolded set_map [symmetric]]
    by (auto simp: hall_of_def)
  ultimately show ?thesis
    by (metis distinct_card length_map)
qed

lemma length_peers_hall:
  assumes "lobby_wf L" "map_of (rooms L) name = Some r"
  shows "hall_of L name = Some (MaxPeers (room_at L r), fst ` set (peers (room_at L r))) \<and>
    card (fst ` set (peers (room_at L r))) = length (peers (room_at L r))"
proof -
  have "wf_map (peers (room_at L r))"
    using assms(1) wf_name(1) [OF assms] by (simp add: lobby_wf_def room_ok_def Let_def)
  then have "card (set (map fst (peers (room_at L r)))) = length (map fst (peers (room_at L r)))"
    by (rule distinct_card)
  with assms(2) show ?thesis
    by (simp add: hall_of_def)
qed

section \<open>Properties\<close>

lemma hall_of_Create:
  assumes wf: "lobby_wf L"
  shows "case Create unicode uid new visibility hash L of
      (L', Inr r') \<Rightarrow> hall_of L' = (hall_of L)(ToLower unicode new \<mapsto> (maxPeersPerRoom L, {})) \<and>
        Find unicode new L' = Some r' \<and> hall_of L (ToLower unicode new) = None \<and> new \<noteq> '''' \<and>
        int (card (dom (hall_of L))) < maxRooms L
    | (L', Inl e) \<Rightarrow> L' = L \<and> (if new = '''' then e = ErrEmptyName
        else if hall_of L (ToLower unicode new) \<noteq> None then e = ErrRoomNameTaken
        else e = ErrServerFull \<and> maxRooms L \<le> int (card (dom (hall_of L))))"
proof (cases "Create unicode uid new visibility hash L")
  case (Pair L' res)
  show ?thesis
  proof (cases res)
    case (Inl e)
    with Pair have "Create_locked unicode uid new visibility hash L = (L', Inl e)"
      by (auto simp: Create_def Let_def split: prod.splits sum.splits)
    then show ?thesis
      using Pair Inl by (auto simp: Create_locked_Inl creates_def hall_of_def length_rooms_hall [OF wf])
  next
    case (Inr r')
    with Pair have "creates unicode new L"
      by (auto simp: Create_def Create_locked_Inr Let_def split: prod.splits sum.splits)
    with Pair Inr hall_create [OF wf, of unicode uid new visibility hash L' r'] show ?thesis
      by (simp add: creates_def length_rooms_hall [OF wf])
  qed
qed

lemma hall_of_Add:
  assumes wf: "lobby_wf L" and r: "map_of (rooms L) name = Some r"
  shows "case Add r p L of
      (L', Inr others) \<Rightarrow> hall_of L' = hall_join name (peerID (peer_at L p)) (hall_of L) \<and>
        (\<exists>c M. hall_of L name = Some (c, M) \<and> int (card M) < c)
    | (L', Inl e) \<Rightarrow> L' = L \<and> e = ErrRoomFull \<and>
        (\<exists>c M. hall_of L name = Some (c, M) \<and> c \<le> int (card M))"
proof -
  have room: "registry (room_at L r)" "\<not> destroyed (room_at L r)" "NameLower (room_at L r) = name"
    using wf_name [OF wf r] by auto
  show ?thesis
  proof (cases "admits r L")
    case True
    then obtain L' others where "Add r p L = (L', Inr others)"
      by (simp add: Add_def Add_locked_eq Let_def)
    with hall_add [OF wf r this] True length_peers_hall [OF wf r] show ?thesis
      by (simp add: admits_def)
  next
    case False
    with room r have "MaxPeers (room_at L r) \<le> int (length (peers (room_at L r)))"
      by (simp add: admits_def)
    with False room r length_peers_hall [OF wf r] show ?thesis
      by (simp add: Add_def Add_locked_eq)
  qed
qed

text \<open>
  C12.  The registry and its rooms refine the hall.  In a well-formed lobby (every reachable one is):
  a creation enters an empty room of the configured capacity under the lower-case name, and
  is refused exactly when the name is empty or taken or the hall is full; a join of a registered
  room adds the peer, and is refused, with \<open>ErrRoomFull\<close> and nothing changed, exactly when
  the room is at capacity; a removal takes the one member out; a destroy callback removes an empty
  room or nothing.
\<close>

theorem lobby_refines_hall:
  assumes wf: "lobby_wf L"
  shows "(case Create unicode uid new visibility hash L of
      (L', Inr r') \<Rightarrow> hall_of L' = (hall_of L)(ToLower unicode new \<mapsto> (maxPeersPerRoom L, {})) \<and>
        Find unicode new L' = Some r' \<and> hall_of L (ToLower unicode new) = None \<and> new \<noteq> '''' \<and>
        int (card (dom (hall_of L))) < maxRooms L
    | (L', Inl e) \<Rightarrow> L' = L \<and> (if new = '''' then e = ErrEmptyName
        else if hall_of L (ToLower unicode new) \<noteq> None then e = ErrRoomNameTaken
        else e = ErrServerFull \<and> maxRooms L \<le> int (card (dom (hall_of L))))) \<and>
   (map_of (rooms L) name = Some r \<longrightarrow>
     (case Add r p L of
        (L', Inr others) \<Rightarrow> hall_of L' = hall_join name (peerID (peer_at L p)) (hall_of L) \<and>
          (\<exists>c M. hall_of L name = Some (c, M) \<and> int (card M) < c)
      | (L', Inl e) \<Rightarrow> L' = L \<and> e = ErrRoomFull \<and>
          (\<exists>c M. hall_of L name = Some (c, M) \<and> c \<le> int (card M))) \<and>
     hall_of (Remove r pid L) = hall_leave name pid (hall_of L) \<and>
     (hall_of (destroy r g L) = hall_of L \<or>
        hall_of (destroy r g L) = (hall_of L)(name := None) \<and> (\<exists>c. hall_of L name = Some (c, {}))))"
proof (rule conjI [OF hall_of_Create [OF wf]], intro impI conjI)
  assume r: "map_of (rooms L) name = Some r"
  show "hall_of (destroy r g L) = hall_of L \<or>
      hall_of (destroy r g L) = (hall_of L)(name := None) \<and> (\<exists>c. hall_of L name = Some (c, {}))"
    using hall_destroy [OF wf r, of g] by (cases "destroys r g L") auto
qed (erule hall_of_Add [OF wf] hall_remove [OF wf])+

theorem lobby_refines_hall_witness:
  "hall_of (Remove 0 (of_bytes [1]) (lob demo_joined)) = hall_leave ''jam'' (of_bytes [1]) (hall_of (lob demo_joined))"
proof -
  have "map_of (rooms (lob demo_joined)) ''jam'' = Some 0"
    by (simp add: demo_joined_def demo_added_def Add_locked_eq admits_def Let_def)
  with lobby_refines_hall [OF inv_lobby_wf [OF reachable_inv [OF demo_run(2)]]]
  show ?thesis by blast
qed

text \<open>
  The password gate: with any bcrypt that accepts a password against a hash it made of it, a
  room created with the hash of \<open>pw\<close> opens for \<open>pw\<close>, and for no other password than those of at
  most 72 bytes that bcrypt accepts; the gate stays when peers come and go.
\<close>

lemma password_gate:
  assumes bcrypt: "\<And>p h. generate p = Some h \<Longrightarrow> compare h p"
    and h: "HashPassword generate pw = Hashed h"
    and c: "Create unicode uid name visibility (Some h) L = (L', Inr r)"
  shows "CheckPassword compare (room_at L' r) pw = None \<and>
    (\<forall>q. CheckPassword compare (room_at L' r) q = None \<longleftrightarrow> length q \<le> MaxPasswordBytes \<and> compare h q) \<and>
    (\<forall>p q. CheckPassword compare (room_at (fst (Add r p L')) r) q = CheckPassword compare (room_at L' r) q)"
proof -
  obtain L1 where "Create_locked unicode uid name visibility (Some h) L = (L1, Inr r)"
    and L': "HasPassword (room_at L' r) = HasPassword (room_at L1 r)" "passwordHash (room_at L' r) = passwordHash (room_at L1 r)"
    using c by (auto simp: Create_def Let_def split: prod.splits sum.splits if_splits)
  then have room: "HasPassword (room_at L' r)" "passwordHash (room_at L' r) = Some h"
    by (auto simp: Create_locked_Inr)
  have pw: "length pw \<le> MaxPasswordBytes" "compare h pw"
    using h bcrypt by (auto simp: HashPassword_def split: if_splits option.splits)
  have "HasPassword (room_at (fst (Add r p L')) r) = HasPassword (room_at L' r) \<and>
      passwordHash (room_at (fst (Add r p L')) r) = passwordHash (room_at L' r)" for p
    by (auto simp: Add_def Add_locked_eq Let_def)
  with room pw show ?thesis
    by (auto simp: CheckPassword_def)
qed

lemma password_gate_instance:
  "\<exists>L' r. Create (\<lambda>s. s) (of_bytes [2]) ''Jam'' ''public'' (Some [7]) (lob demo_connected) = (L', Inr r) \<and>
     CheckPassword (\<lambda>h p. h = [7] \<and> p = ''secret'') (room_at L' r) ''secret'' = None \<and>
     CheckPassword (\<lambda>h p. h = [7] \<and> p = ''secret'') (room_at L' r) ''guess'' \<noteq> None"
proof -
  let ?gen = "\<lambda>p. if p = ''secret'' then Some [7] else None"
  let ?cmp = "\<lambda>h p. h = [7] \<and> p = ''secret''"
  have h: "HashPassword ?gen ''secret'' = Hashed [7]"
    by (simp add: HashPassword_def MaxPasswordBytes_def)
  obtain L' r where c: "Create (\<lambda>s. s) (of_bytes [2]) ''Jam'' ''public'' (Some [7]) (lob demo_connected) = (L', Inr r)"
    by (simp add: Create_def Create_locked_def Let_def)
  have "?gen p = Some h \<Longrightarrow> ?cmp h p" for p h
    by (simp split: if_splits)
  from password_gate [of ?gen ?cmp, OF this h c] c show ?thesis
    by (simp del: not_None_eq)
qed

end
