(* ===== verification/Udp.thy ===== *)
theory Udp
  imports Lobby_Run Ratelimit Metrics
begin

text \<open>
  The UDP data plane (\<open>internal/udp/server.go\<close>): tokens minted for authenticated sessions, the
  binding of a source address to a peer, keepalives, audio ingress and egress, expiry.  Every
  handler is one step on the whole world: the lobby, the UDP server, the metrics and what has been
  written to the sockets.  In the source the maps are read and written under the server's mutex; the
  tail of \<open>handleAudio\<close> (is the peer muted, which is its room, \<open>Forward\<close>), the counters and the replies come after
  the unlock, and are part of the same step here.
\<close>

section \<open>State\<close>

record binding =
  bindPeer :: peer_ref
  bindAddr :: UDPAddr
  bindToken :: token
  lastSeen :: time

record udp_server =
  peerByAddr :: "(string \<times> binding) list"
  peerByID :: "(uuid \<times> peer_ref) list"
  tokenByID :: "(uuid \<times> token) list"
  helloPerIPPerMinute :: int
  audioFramesPerPeerPerSec :: int
  helloLimiter :: limiter
  audioLimiter :: limiter
  connOpen :: bool

text \<open>
  The socket writes so far, oldest first: datagrams with their destination, and WebSocket frames with
  their connection and kind.  The lobby's clock is the server's clock; a handler reads it once.
\<close>

record world =
  wlobby :: lobby
  wudp :: udp_server
  wmetrics :: metrics
  datagrams :: "(UDPAddr \<times> byte list) list"
  wsframes :: "(conn_ref \<times> byte list \<times> bool) list"

definition maxDatagramSize :: nat where
  "maxDatagramSize = 9000"

definition peerIdleTimeout :: duration where
  "peerIdleTimeout = 15 * Second"

definition NewServer :: "int \<Rightarrow> int \<Rightarrow> udp_server" where
  "NewServer hello_limit audio_limit =
     \<lparr>peerByAddr = [], peerByID = [], tokenByID = [], helloPerIPPerMinute = hello_limit,
      audioFramesPerPeerPerSec = audio_limit, helloLimiter = New, audioLimiter = New, connOpen = False\<rparr>"

text \<open>\<open>Listen\<close> once the socket is bound: the read loop and the sweep start.  \<open>Close\<close> keeps \<open>s.conn\<close>.\<close>

definition Listen :: "udp_server \<Rightarrow> udp_server" where
  "Listen s = s\<lparr>connOpen := True\<rparr>"

abbreviation now :: "world \<Rightarrow> time" where
  "now w \<equiv> clock (wlobby w)"

abbreviation the_peer :: "world \<Rightarrow> peer_ref \<Rightarrow> peer" where
  "the_peer w p \<equiv> peer_at (wlobby w) p"

definition on_udp :: "(udp_server \<Rightarrow> udp_server) \<Rightarrow> world \<Rightarrow> world" where
  "on_udp f w = w\<lparr>wudp := f (wudp w)\<rparr>"

definition on_peer :: "peer_ref \<Rightarrow> (peer \<Rightarrow> peer) \<Rightarrow> world \<Rightarrow> world" where
  "on_peer p f w = w\<lparr>wlobby := upd_peer p f (wlobby w)\<rparr>"

definition metered :: "(metrics \<Rightarrow> metrics) \<Rightarrow> world \<Rightarrow> world" where
  "metered f w = w\<lparr>wmetrics := f (wmetrics w)\<rparr>"

text \<open>\<open>s.Metrics.LabeledCounter("nu_udp_errors_total", "kind").Inc(k)\<close>.\<close>

definition udp_error :: "string \<Rightarrow> world \<Rightarrow> world" where
  "udp_error k = metered (labeled_inc ''nu_udp_errors_total'' ''kind'' k)"

text \<open>
  \<open>WriteToUDP\<close>: whether the system accepts the datagram is a parameter \<open>net\<close>.
\<close>

definition write_udp :: "(UDPAddr \<Rightarrow> byte list \<Rightarrow> bool) \<Rightarrow> byte list \<Rightarrow> UDPAddr \<Rightarrow> world \<Rightarrow> world \<times> bool" where
  "write_udp net payload addr w =
     (if net addr payload then (w\<lparr>datagrams := datagrams w @ [(addr, payload)]\<rparr>, True) else (w, False))"

text \<open>\<open>UUID.String\<close>: the canonical text with dashes.\<close>

definition hex2 :: "byte \<Rightarrow> string" where
  "hex2 b = [digit_char (unat b div 16), digit_char (unat b mod 16)]"

definition uuid_String :: "uuid \<Rightarrow> string" where
  "uuid_String u =
     (let bs = bytes_of u; hex = (\<lambda>a b. concat (map hex2 (subslice a b bs)))
      in hex 0 4 @ ''-'' @ hex 4 6 @ ''-'' @ hex 6 8 @ ''-'' @ hex 8 10 @ ''-'' @ hex 10 16)"

section \<open>Sessions\<close>

text \<open>\<open>MintToken\<close> with the 32 bytes the entropy source gave; \<open>None\<close> when it failed.\<close>

definition MintToken :: "token option \<Rightarrow> uuid \<Rightarrow> world \<Rightarrow> world \<times> token option" where
  "MintToken random pid w =
     (case random of None \<Rightarrow> (w, None)
      | Some t \<Rightarrow> (on_udp (\<lambda>s. s\<lparr>tokenByID := AList.update pid t (tokenByID s)\<rparr>) w, Some t))"

definition AttachPeer :: "peer_ref \<Rightarrow> world \<Rightarrow> world" where
  "AttachPeer p w =
     (let w = on_udp (\<lambda>s. s\<lparr>peerByID := AList.update (peerID (the_peer w p)) p (peerByID s)\<rparr>) w
      in on_peer p (AttachUdpSender True) w)"

definition DetachPeer :: "peer_ref \<Rightarrow> world \<Rightarrow> world" where
  "DetachPeer p w =
     (let w = on_peer p (AttachUdpSender False) w;
          pid = peerID (the_peer w p);
          w = on_udp (\<lambda>s. s\<lparr>peerByID := AList.delete pid (peerByID s),
                            tokenByID := AList.delete pid (tokenByID s)\<rparr>) w
      in case udpAddr (the_peer w p) of
           None \<Rightarrow> w
         | Some a \<Rightarrow>
             let key = addr_String a;
                 w = (case map_of (peerByAddr (wudp w)) key of
                        None \<Rightarrow> w
                      | Some current \<Rightarrow>
                          if bindPeer current = p
                          then on_udp (\<lambda>s. s\<lparr>peerByAddr := AList.delete key (peerByAddr s)\<rparr>) w else w)
             in if sameUDPAddr (udpAddr (the_peer w p)) (Some a) then on_peer p (SetUdpAddr None) w else w)"

section \<open>Egress\<close>

text \<open>The closure that \<open>makeUdpSender(p)\<close> returns, applied to a payload.\<close>

definition makeUdpSender :: "(UDPAddr \<Rightarrow> byte list \<Rightarrow> bool) \<Rightarrow> peer_ref \<Rightarrow> byte list \<Rightarrow> world \<Rightarrow> world \<times> bool" where
  "makeUdpSender net p payload w =
     (case udpAddr (the_peer w p) of
        None \<Rightarrow> (w, False)
      | Some addr \<Rightarrow>
          if \<not> connOpen (wudp w) then (w, False)
          else
            let key = addr_String addr;
                candidate = map_of (peerByAddr (wudp w)) key;
                fresh = (case candidate of None \<Rightarrow> False
                         | Some b \<Rightarrow> bindPeer b = p \<and> now w - lastSeen b < peerIdleTimeout)
            in if \<not> fresh then
                 let w = (case candidate of None \<Rightarrow> w
                          | Some b \<Rightarrow> if bindPeer b = p
                              then on_udp (\<lambda>s. s\<lparr>peerByAddr := AList.delete key (peerByAddr s)\<rparr>) w else w);
                     pid = peerID (the_peer w p)
                 in if sameUDPAddr (udpAddr (the_peer w p)) (Some addr) then
                      let w = on_peer p (SetUdpAddr None) w
                      in case (map_of (tokenByID (wudp w)) pid, candidate) of
                           (Some token, Some b) \<Rightarrow>
                             if token = bindToken b
                             then (on_udp (\<lambda>s. s\<lparr>tokenByID := AList.delete pid (tokenByID s)\<rparr>) w, False)
                             else (w, False)
                         | _ \<Rightarrow> (w, False)
                    else (w, False)
               else
                 case write_udp net payload addr w of
                   (w, False) \<Rightarrow> (udp_error ''write'' w, False)
                 | (w, True) \<Rightarrow>
                     let w = metered (counter_inc ''nu_udp_audio_frames_sent_total'') w;
                         w = metered (counter_add ''nu_udp_bytes_sent_total'' (of_nat (length payload))) w
                     in (w, True))"

text \<open>
  A WebSocket write hands the frame to the write queue of the connection; whether it is accepted
  is a parameter \<open>wsq\<close> here.
\<close>

definition ws_write :: "(conn_ref \<Rightarrow> byte list \<Rightarrow> bool \<Rightarrow> bool) \<Rightarrow> conn_ref \<Rightarrow> byte list \<Rightarrow> bool \<Rightarrow> world \<Rightarrow> world \<times> bool" where
  "ws_write wsq c payload isBinary w =
     (if wsq c payload isBinary then (w\<lparr>wsframes := wsframes w @ [(c, payload, isBinary)]\<rparr>, True) else (w, False))"

definition send_to ::
  "(UDPAddr \<Rightarrow> byte list \<Rightarrow> bool) \<Rightarrow> (conn_ref \<Rightarrow> byte list \<Rightarrow> bool \<Rightarrow> bool) \<Rightarrow> peer_ref \<Rightarrow> byte list \<Rightarrow> world \<Rightarrow> world \<times> bool" where
  "send_to net wsq p payload w = SendBinary (makeUdpSender net p) (ws_write wsq) (the_peer w p) payload w"

text \<open>
  \<open>fanOut\<close>: the recipients are fixed under the room lock, then the payload is sent to each, then
  the frame is released.
\<close>

definition fanOut ::
  "(UDPAddr \<Rightarrow> byte list \<Rightarrow> bool) \<Rightarrow> (conn_ref \<Rightarrow> byte list \<Rightarrow> bool \<Rightarrow> bool) \<Rightarrow> room_ref \<Rightarrow> frame \<Rightarrow> world \<Rightarrow> world" where
  "fanOut net wsq r f w =
     (case recipients r f (wlobby w) of
        None \<Rightarrow> w\<lparr>wlobby := release f (wlobby w)\<rparr>
      | Some ps \<Rightarrow>
          let w = fold (\<lambda>p w. fst (send_to net wsq p (framePayload f) w)) ps w
          in w\<lparr>wlobby := release f (wlobby w)\<rparr>)"

text \<open>A turn of \<open>forwardLoop\<close> on its queue.\<close>

definition forward_turn ::
  "(UDPAddr \<Rightarrow> byte list \<Rightarrow> bool) \<Rightarrow> (conn_ref \<Rightarrow> byte list \<Rightarrow> bool \<Rightarrow> bool) \<Rightarrow> room_ref \<Rightarrow> world \<Rightarrow> world" where
  "forward_turn net wsq r w =
     (case take_frame r (wlobby w) of
        (L, None) \<Rightarrow> w
      | (L, Some f) \<Rightarrow> fanOut net wsq r f (w\<lparr>wlobby := L\<rparr>))"

section \<open>Ingress\<close>

definition hello_limited :: "world \<Rightarrow> uuid \<Rightarrow> world \<times> bool" where
  "hello_limited w pid =
     (let s = wudp w;
          (l, ok) = Allow (helloLimiter s) (uuid_String pid) (helloPerIPPerMinute s) Minute (now w)
      in (on_udp (\<lambda>s. s\<lparr>helloLimiter := l\<rparr>) w, ok))"

definition handleHello :: "(UDPAddr \<Rightarrow> byte list \<Rightarrow> bool) \<Rightarrow> byte list \<Rightarrow> UDPAddr \<Rightarrow> world \<Rightarrow> world" where
  "handleHello net pkt src w =
     (case UnpackUdpHello pkt of
        Inl _ \<Rightarrow> udp_error ''bad_hello'' w
      | Inr hello \<Rightarrow>
          let pid = HelloPeerID hello in
          case (map_of (peerByID (wudp w)) pid, map_of (tokenByID (wudp w)) pid) of
            (Some p, Some token) \<Rightarrow>
              if HelloToken hello \<noteq> token then udp_error ''bad_token'' w
              else
                (case hello_limited w pid of
                   (w, False) \<Rightarrow> udp_error ''hello_rate_limit'' w
                 | (w, True) \<Rightarrow>
                     if (case udpAddr (the_peer w p) of None \<Rightarrow> False | Some old \<Rightarrow> addr_String old \<noteq> addr_String src)
                     then udp_error ''endpoint_rebind'' w
                     else if (case map_of (peerByAddr (wudp w)) (addr_String src) of None \<Rightarrow> False
                              | Some owner \<Rightarrow> peerID (the_peer w (bindPeer owner)) \<noteq> peerID (the_peer w p))
                     then udp_error ''endpoint_in_use'' w
                     else
                       let w = on_peer p (SetUdpAddr (Some src)) w;
                           b = \<lparr>bindPeer = p, bindAddr = src, bindToken = token, lastSeen = now w\<rparr>;
                           w = on_udp (\<lambda>s. s\<lparr>peerByAddr := AList.update (addr_String src) b (peerByAddr s)\<rparr>) w;
                           w = (case write_udp net (PackUdpWelcome pid []) src w of
                                  (w, False) \<Rightarrow> udp_error ''welcome_write'' w | (w, True) \<Rightarrow> w)
                       in metered (counter_inc ''nu_udp_handshake_total'') w)
          | _ \<Rightarrow> udp_error ''unknown_peer'' w)"

definition handlePing :: "(UDPAddr \<Rightarrow> byte list \<Rightarrow> bool) \<Rightarrow> byte list \<Rightarrow> UDPAddr \<Rightarrow> world \<Rightarrow> world" where
  "handlePing net pkt src w =
     (case UnpackUdpPing pkt of
        Inl _ \<Rightarrow> udp_error ''bad_ping'' w
      | Inr ping \<Rightarrow>
          (case map_of (peerByAddr (wudp w)) (addr_String src) of
             None \<Rightarrow> udp_error ''unknown_ping_source'' w
           | Some b \<Rightarrow>
               if peerID (the_peer w (bindPeer b)) \<noteq> PingPeerID ping then udp_error ''unknown_ping_source'' w
               else
                 let w = on_udp (\<lambda>s. s\<lparr>peerByAddr := AList.update (addr_String src) (b\<lparr>lastSeen := now w\<rparr>) (peerByAddr s)\<rparr>) w;
                     w = fst (write_udp net (PackUdpPong (PingPeerID ping) []) src w)
                 in metered (counter_inc ''nu_udp_pings_total'') w))"

definition audio_limited :: "world \<Rightarrow> uuid \<Rightarrow> world \<times> bool" where
  "audio_limited w pid =
     (let s = wudp w;
          (l, ok) = Allow (audioLimiter s) (uuid_String pid) (audioFramesPerPeerPerSec s) Second (now w)
      in (on_udp (\<lambda>s. s\<lparr>audioLimiter := l\<rparr>) w, ok))"

definition handleAudio :: "byte list \<Rightarrow> UDPAddr \<Rightarrow> world \<Rightarrow> world" where
  "handleAudio pkt src w =
     (case map_of (peerByAddr (wudp w)) (addr_String src) of
        None \<Rightarrow> udp_error ''unknown_source'' w
      | Some b \<Rightarrow>
          let p = bindPeer b; pid = peerID (the_peer w p) in
          case audio_limited w pid of
            (w, False) \<Rightarrow> udp_error ''audio_rate_limit'' w
          | (w, True) \<Rightarrow>
              case Unpack pkt of
                Inl _ \<Rightarrow> udp_error ''bad_audio'' w
              | Inr (hdr, _) \<Rightarrow>
                  if SourcePeerID hdr \<noteq> pid then udp_error ''spoof_peer_id'' w
                  else
                    let w = on_udp (\<lambda>s. s\<lparr>peerByAddr := AList.update (addr_String src) (b\<lparr>lastSeen := now w\<rparr>) (peerByAddr s)\<rparr>) w
                    in if muted (the_peer w p)
                       then metered (labeled_inc ''nu_audio_frames_dropped_total'' ''reason'' ''muted'') w
                       else case curRoom (the_peer w p) of
                         None \<Rightarrow> udp_error ''not_in_room'' w
                       | Some r \<Rightarrow>
                           let (L, accepted) = Forward r \<lparr>frameSource = pid, framePayload = pkt, frameDone = None\<rparr> (wlobby w);
                               w = w\<lparr>wlobby := L\<rparr>;
                               w = metered (counter_inc ''nu_udp_audio_frames_recv_total'') w
                           in metered (counter_add ''nu_udp_bytes_recv_total'' (of_nat (length pkt))) w)"

text \<open>
  One datagram of the read loop; the socket is read into a buffer of \<open>maxDatagramSize\<close> bytes, so a
  longer datagram arrives cut off.
\<close>

definition receive :: "(UDPAddr \<Rightarrow> byte list \<Rightarrow> bool) \<Rightarrow> byte list \<Rightarrow> UDPAddr \<Rightarrow> world \<Rightarrow> world" where
  "receive net datagram src w =
     (let pkt = take maxDatagramSize datagram in
      if pkt = [] then udp_error ''empty'' w
      else if hd pkt = AudioFrameType then handleAudio pkt src w
      else if hd pkt = UdpFrameTypeHello then handleHello net pkt src w
      else if hd pkt = UdpFrameTypePing then handlePing net pkt src w
      else udp_error ''unknown_type'' w)"

section \<open>Expiry\<close>

text \<open>One entry of the sweep of \<open>expireIdle\<close>, then the whole sweep in the order the map is walked.\<close>

definition expire_one :: "time \<Rightarrow> string \<times> binding \<Rightarrow> world \<Rightarrow> world" where
  "expire_one t kb w =
     (let key = fst kb; candidate = snd kb; p = bindPeer candidate; pid = peerID (the_peer w p) in
      if t - lastSeen candidate < peerIdleTimeout then w
      else if map_of (peerByAddr (wudp w)) key \<noteq> Some candidate then w
      else
        let w = on_udp (\<lambda>s. s\<lparr>peerByAddr := AList.delete key (peerByAddr s)\<rparr>) w;
            w = (if sameUDPAddr (udpAddr (the_peer w p)) (Some (bindAddr candidate)) then
                   let w = on_peer p (SetUdpAddr None) w
                   in if map_of (tokenByID (wudp w)) pid = Some (bindToken candidate)
                      then on_udp (\<lambda>s. s\<lparr>tokenByID := AList.delete pid (tokenByID s)\<rparr>) w else w
                 else w)
        in metered (counter_inc ''nu_udp_bindings_expired_total'') w)"

definition expireIdle :: "time \<Rightarrow> world \<Rightarrow> world" where
  "expireIdle t w = fold (expire_one t) (peerByAddr (wudp w)) w"

section \<open>Reads after writes\<close>

declare map_of_eq_Some_iff [simp del]
declare Some_eq_map_of_iff [simp del]

lemma on_udp_get [simp]:
  "wudp (on_udp f w) = f (wudp w)" "wlobby (on_udp f w) = wlobby w" "wmetrics (on_udp f w) = wmetrics w"
  "datagrams (on_udp f w) = datagrams w" "wsframes (on_udp f w) = wsframes w"
  by (simp_all add: on_udp_def)

lemma on_peer_get [simp]:
  "wudp (on_peer p f w) = wudp w" "wlobby (on_peer p f w) = upd_peer p f (wlobby w)"
  "wmetrics (on_peer p f w) = wmetrics w" "datagrams (on_peer p f w) = datagrams w"
  "wsframes (on_peer p f w) = wsframes w"
  by (simp_all add: on_peer_def)

lemma metered_get [simp]:
  "wudp (metered f w) = wudp w" "wlobby (metered f w) = wlobby w" "wmetrics (metered f w) = f (wmetrics w)"
  "datagrams (metered f w) = datagrams w" "wsframes (metered f w) = wsframes w"
  by (simp_all add: metered_def)

lemma udp_error_get [simp]:
  "wudp (udp_error k w) = wudp w" "wlobby (udp_error k w) = wlobby w"
  "datagrams (udp_error k w) = datagrams w" "wsframes (udp_error k w) = wsframes w"
  by (simp_all add: udp_error_def)

lemma write_udp_get [simp]:
  "wudp (fst (write_udp net payload a w)) = wudp w" "wlobby (fst (write_udp net payload a w)) = wlobby w"
  "wmetrics (fst (write_udp net payload a w)) = wmetrics w" "wsframes (fst (write_udp net payload a w)) = wsframes w"
  "datagrams (fst (write_udp net payload a w)) = datagrams w @ (if net a payload then [(a, payload)] else [])"
  "snd (write_udp net payload a w) = net a payload"
  by (simp_all add: write_udp_def)

lemma ws_write_get [simp]:
  "wudp (fst (ws_write wsq c payload bin w)) = wudp w" "wlobby (fst (ws_write wsq c payload bin w)) = wlobby w"
  "datagrams (fst (ws_write wsq c payload bin w)) = datagrams w"
  by (simp_all add: ws_write_def)

lemma limited_get [simp]:
  "wlobby (fst (hello_limited w pid)) = wlobby w" "datagrams (fst (hello_limited w pid)) = datagrams w"
  "peerByAddr (wudp (fst (hello_limited w pid))) = peerByAddr (wudp w)"
  "peerByID (wudp (fst (hello_limited w pid))) = peerByID (wudp w)"
  "tokenByID (wudp (fst (hello_limited w pid))) = tokenByID (wudp w)"
  "connOpen (wudp (fst (hello_limited w pid))) = connOpen (wudp w)"
  "wlobby (fst (audio_limited w pid)) = wlobby w" "datagrams (fst (audio_limited w pid)) = datagrams w"
  "peerByAddr (wudp (fst (audio_limited w pid))) = peerByAddr (wudp w)"
  "peerByID (wudp (fst (audio_limited w pid))) = peerByID (wudp w)"
  "tokenByID (wudp (fst (audio_limited w pid))) = tokenByID (wudp w)"
  "connOpen (wudp (fst (audio_limited w pid))) = connOpen (wudp w)"
  by (simp_all add: hello_limited_def audio_limited_def Let_def split: prod.splits)

section \<open>The invariant of the bindings\<close>

text \<open>
  A binding sits under the text of its address, its peer is attached and has exactly that address
  as its UDP address, and carries the token the peer was minted; conversely a peer's UDP address is
  bound to that peer.  So an endpoint belongs to one peer and a peer has one endpoint.
\<close>

definition udp_inv :: "world \<Rightarrow> bool" where
  "udp_inv w \<longleftrightarrow>
     (let s = wudp w; peer_of = the_peer w in
      wf_map (peerByAddr s) \<and>
      (\<forall>pid p. map_of (peerByID s) pid = Some p \<longrightarrow>
         peerID (peer_of p) = pid \<and> p < next_peer (wlobby w) \<and> udpSend (peer_of p)) \<and>
      (\<forall>k b. map_of (peerByAddr s) k = Some b \<longrightarrow>
         k = addr_String (bindAddr b) \<and> udpAddr (peer_of (bindPeer b)) = Some (bindAddr b) \<and>
         map_of (peerByID s) (peerID (peer_of (bindPeer b))) = Some (bindPeer b) \<and>
         map_of (tokenByID s) (peerID (peer_of (bindPeer b))) = Some (bindToken b)) \<and>
      (\<forall>p a. udpAddr (peer_of p) = Some a \<longrightarrow>
         (\<exists>b. map_of (peerByAddr s) (addr_String a) = Some b \<and> bindPeer b = p)))"

lemma udp_inv_cong:
  assumes "peerByAddr (wudp w') = peerByAddr (wudp w)" "peerByID (wudp w') = peerByID (wudp w)"
    and "tokenByID (wudp w') = tokenByID (wudp w)" "peer_at (wlobby w') = peer_at (wlobby w)"
    and "next_peer (wlobby w') = next_peer (wlobby w)"
  shows "udp_inv w' = udp_inv w"
  using assms by (simp add: udp_inv_def Let_def)

lemma udp_inv_frames [simp]:
  "udp_inv (udp_error k w) = udp_inv w" "udp_inv (metered f w) = udp_inv w"
  "udp_inv (fst (write_udp net payload a w)) = udp_inv w" "udp_inv (fst (ws_write wsq c payload bin w)) = udp_inv w"
  "udp_inv (fst (hello_limited w pid)) = udp_inv w" "udp_inv (fst (audio_limited w pid)) = udp_inv w"
  by (simp_all cong: udp_inv_cong)

lemma inv_binding:
  "udp_inv w \<Longrightarrow> map_of (peerByAddr (wudp w)) k = Some b \<Longrightarrow>
    k = addr_String (bindAddr b) \<and> udpAddr (the_peer w (bindPeer b)) = Some (bindAddr b) \<and>
    map_of (peerByID (wudp w)) (peerID (the_peer w (bindPeer b))) = Some (bindPeer b) \<and>
    map_of (tokenByID (wudp w)) (peerID (the_peer w (bindPeer b))) = Some (bindToken b)"
  unfolding udp_inv_def Let_def by blast

lemma inv_attached:
  "udp_inv w \<Longrightarrow> map_of (peerByID (wudp w)) pid = Some p \<Longrightarrow>
    peerID (the_peer w p) = pid \<and> p < next_peer (wlobby w) \<and> udpSend (the_peer w p)"
  unfolding udp_inv_def Let_def by blast

lemma inv_addr:
  "udp_inv w \<Longrightarrow> udpAddr (the_peer w p) = Some a \<Longrightarrow>
    \<exists>b. map_of (peerByAddr (wudp w)) (addr_String a) = Some b \<and> bindPeer b = p"
  unfolding udp_inv_def Let_def by blast

lemma inv_same_peer:
  assumes "udp_inv w" "map_of (peerByAddr (wudp w)) k = Some b" "map_of (peerByAddr (wudp w)) k' = Some b'"
    and "bindPeer b = bindPeer b'"
  shows "k = k'"
  using inv_binding [OF assms(1,2)] inv_binding [OF assms(1,3)] assms(4) by auto

text \<open>The three changes of the bindings: refresh, drop, bind.\<close>

definition refreshed :: "string \<Rightarrow> binding \<Rightarrow> time \<Rightarrow> world \<Rightarrow> world" where
  "refreshed k b t = on_udp (\<lambda>s. s\<lparr>peerByAddr := AList.update k (b\<lparr>lastSeen := t\<rparr>) (peerByAddr s)\<rparr>)"

definition dropped :: "string \<Rightarrow> peer_ref \<Rightarrow> world \<Rightarrow> world" where
  "dropped k p w = on_udp (\<lambda>s. s\<lparr>peerByAddr := AList.delete k (peerByAddr s),
     tokenByID := AList.delete (peerID (the_peer w p)) (tokenByID s)\<rparr>) (on_peer p (SetUdpAddr None) w)"

definition bound :: "UDPAddr \<Rightarrow> peer_ref \<Rightarrow> token \<Rightarrow> world \<Rightarrow> world" where
  "bound src p token w = on_udp (\<lambda>s. s\<lparr>peerByAddr := AList.update (addr_String src)
     \<lparr>bindPeer = p, bindAddr = src, bindToken = token, lastSeen = now w\<rparr> (peerByAddr s)\<rparr>) (on_peer p (SetUdpAddr (Some src)) w)"

lemma inv_refreshed:
  assumes "udp_inv w" "map_of (peerByAddr (wudp w)) k = Some b"
  shows "udp_inv (refreshed k b t w)"
proof -
  have "map_of (peerByAddr (wudp (refreshed k b t w))) k' =
      (if k' = k then Some (b\<lparr>lastSeen := t\<rparr>) else map_of (peerByAddr (wudp w)) k')" for k'
    by (simp add: refreshed_def go_map)
  moreover have "wf_map (peerByAddr (wudp (refreshed k b t w)))"
    using assms(1) by (simp add: udp_inv_def Let_def refreshed_def go_map)
  moreover have "peerByID (wudp (refreshed k b t w)) = peerByID (wudp w)"
    "tokenByID (wudp (refreshed k b t w)) = tokenByID (wudp w)" "wlobby (refreshed k b t w) = wlobby w"
    by (simp_all add: refreshed_def)
  ultimately show ?thesis
    using inv_binding [OF assms(1)] inv_attached [OF assms(1)] inv_addr [OF assms(1)] assms(2)
    unfolding udp_inv_def Let_def by (simp, fastforce)
qed

lemma inv_dropped:
  assumes inv: "udp_inv w" and b: "map_of (peerByAddr (wudp w)) k = Some b" "bindPeer b = p"
  shows "udp_inv (dropped k p w)"
proof -
  have uniq: "k' = k" if "map_of (peerByAddr (wudp w)) k' = Some b'" "bindPeer b' = p" for k' b'
    using inv_same_peer [OF inv that(1) b(1)] that(2) b(2) by simp
  have other: "peerID (the_peer w (bindPeer b')) \<noteq> peerID (the_peer w p)"
    if "map_of (peerByAddr (wudp w)) k' = Some b'" "bindPeer b' \<noteq> p" for k' b'
    using inv_binding [OF inv that(1)] inv_binding [OF inv b(1)] b(2) that(2) by auto
  show ?thesis
    unfolding udp_inv_def Let_def
  proof (intro conjI allI impI)
    show "wf_map (peerByAddr (wudp (dropped k p w)))"
      using inv by (simp add: dropped_def udp_inv_def Let_def go_map)
  next
    fix pid q assume "map_of (peerByID (wudp (dropped k p w))) pid = Some q"
    with inv_attached [OF inv] show "peerID (the_peer (dropped k p w) q) = pid"
      "q < next_peer (wlobby (dropped k p w))" "udpSend (the_peer (dropped k p w) q)"
      by (auto simp: dropped_def)
  next
    fix k' b' assume "map_of (peerByAddr (wudp (dropped k p w))) k' = Some b'"
    then have m: "map_of (peerByAddr (wudp w)) k' = Some b'" "k' \<noteq> k"
      by (auto simp: dropped_def go_map split: if_splits)
    with uniq have "bindPeer b' \<noteq> p" by auto
    with inv_binding [OF inv m(1)] other [OF m(1)]
    show "k' = addr_String (bindAddr b')"
      "udpAddr (the_peer (dropped k p w) (bindPeer b')) = Some (bindAddr b')"
      "map_of (peerByID (wudp (dropped k p w))) (peerID (the_peer (dropped k p w) (bindPeer b'))) = Some (bindPeer b')"
      "map_of (tokenByID (wudp (dropped k p w))) (peerID (the_peer (dropped k p w) (bindPeer b'))) = Some (bindToken b')"
      by (auto simp: dropped_def go_map)
  next
    fix q a assume "udpAddr (the_peer (dropped k p w) q) = Some a"
    then have q: "q \<noteq> p" "udpAddr (the_peer w q) = Some a"
      by (auto simp: dropped_def split: if_splits)
    with inv_addr [OF inv q(2)] b obtain b' where b': "map_of (peerByAddr (wudp w)) (addr_String a) = Some b'" "bindPeer b' = q"
      by auto
    with q(1) b have "addr_String a \<noteq> k" by auto
    with b' show "\<exists>b'. map_of (peerByAddr (wudp (dropped k p w))) (addr_String a) = Some b' \<and> bindPeer b' = q"
      by (simp add: dropped_def go_map)
  qed
qed

lemma inv_bound:
  assumes inv: "udp_inv w" and p: "map_of (peerByID (wudp w)) (peerID (the_peer w p)) = Some p"
    and t: "map_of (tokenByID (wudp w)) (peerID (the_peer w p)) = Some token"
    and old: "\<And>a. udpAddr (the_peer w p) = Some a \<Longrightarrow> addr_String a = addr_String src"
    and free: "\<And>b. map_of (peerByAddr (wudp w)) (addr_String src) = Some b \<Longrightarrow> bindPeer b = p"
  shows "udp_inv (bound src p token w)"
proof -
  have uniq: "k' = addr_String src" if "map_of (peerByAddr (wudp w)) k' = Some b'" "bindPeer b' = p" for k' b'
    using inv_binding [OF inv that(1)] that(2) old by auto
  show ?thesis
    unfolding udp_inv_def Let_def
  proof (intro conjI allI impI)
    show "wf_map (peerByAddr (wudp (bound src p token w)))"
      using inv by (simp add: bound_def udp_inv_def Let_def go_map)
  next
    fix pid q assume "map_of (peerByID (wudp (bound src p token w))) pid = Some q"
    with inv_attached [OF inv] show "peerID (the_peer (bound src p token w) q) = pid"
      "q < next_peer (wlobby (bound src p token w))" "udpSend (the_peer (bound src p token w) q)"
      by (auto simp: bound_def)
  next
    fix k' b' assume m: "map_of (peerByAddr (wudp (bound src p token w))) k' = Some b'"
    have "k' = addr_String (bindAddr b') \<and> udpAddr (the_peer (bound src p token w) (bindPeer b')) = Some (bindAddr b') \<and>
      map_of (peerByID (wudp w)) (peerID (the_peer w (bindPeer b'))) = Some (bindPeer b') \<and>
      map_of (tokenByID (wudp w)) (peerID (the_peer w (bindPeer b'))) = Some (bindToken b')"
    proof (cases "k' = addr_String src")
      case False
      with m have m': "map_of (peerByAddr (wudp w)) k' = Some b'"
        by (simp add: bound_def go_map)
      with uniq False have "bindPeer b' \<noteq> p" by auto
      with inv_binding [OF inv m'] show ?thesis
        by (simp add: bound_def)
    qed (use m p t in \<open>auto simp: bound_def go_map\<close>)
    then show "k' = addr_String (bindAddr b')"
      "udpAddr (the_peer (bound src p token w) (bindPeer b')) = Some (bindAddr b')"
      "map_of (peerByID (wudp (bound src p token w))) (peerID (the_peer (bound src p token w) (bindPeer b'))) = Some (bindPeer b')"
      "map_of (tokenByID (wudp (bound src p token w))) (peerID (the_peer (bound src p token w) (bindPeer b'))) = Some (bindToken b')"
      by (auto simp: bound_def)
  next
    fix q a assume a: "udpAddr (the_peer (bound src p token w) q) = Some a"
    show "\<exists>b. map_of (peerByAddr (wudp (bound src p token w))) (addr_String a) = Some b \<and> bindPeer b = q"
    proof (cases "q = p")
      case False
      with a inv_addr [OF inv, of q a] obtain b where "map_of (peerByAddr (wudp w)) (addr_String a) = Some b" "bindPeer b = q"
        by (auto simp: bound_def)
      moreover from this free False have "addr_String a \<noteq> addr_String src" by auto
      ultimately show ?thesis
        by (simp add: bound_def go_map)
    qed (use a in \<open>auto simp: bound_def go_map\<close>)
  qed
qed

section \<open>The handlers keep the invariant\<close>

lemma the_peer_on_peer [simp]:
  "the_peer (on_peer p f w) q = (if q = p then f (the_peer w p) else the_peer w q)"
  by simp

lemma dropped_alt:
  "on_udp (\<lambda>s. s\<lparr>tokenByID := AList.delete (peerID (the_peer w p)) (tokenByID s)\<rparr>)
     (on_peer p (SetUdpAddr None) (on_udp (\<lambda>s. s\<lparr>peerByAddr := AList.delete k (peerByAddr s)\<rparr>) w)) = dropped k p w"
  by (simp add: dropped_def on_udp_def on_peer_def)

lemma sender_eq:
  assumes inv: "udp_inv w"
  shows "makeUdpSender net p payload w =
    (case udpAddr (the_peer w p) of
       None \<Rightarrow> (w, False)
     | Some a \<Rightarrow>
         if \<not> connOpen (wudp w) then (w, False)
         else if peerIdleTimeout \<le> now w - lastSeen (the (map_of (peerByAddr (wudp w)) (addr_String a)))
         then (dropped (addr_String a) p w, False)
         else if net a payload
         then (metered (counter_add ''nu_udp_bytes_sent_total'' (of_nat (length payload)))
                 (metered (counter_inc ''nu_udp_audio_frames_sent_total'') (fst (write_udp net payload a w))), True)
         else (udp_error ''write'' w, False))"
proof (cases "udpAddr (the_peer w p)")
  case (Some a)
  from inv_addr [OF inv this] obtain b where b: "map_of (peerByAddr (wudp w)) (addr_String a) = Some b" "bindPeer b = p"
    by blast
  have t: "map_of (tokenByID (wudp w)) (peerID (the_peer w p)) = Some (bindToken b)"
    using inv_binding [OF inv b(1)] b(2) by simp
  show ?thesis
  proof (cases "now w - lastSeen b < peerIdleTimeout")
    case False
    with Some b t show ?thesis
      by (simp add: makeUdpSender_def Let_def dropped_alt)
  next
    case True
    with Some b show ?thesis
      by (simp add: makeUdpSender_def Let_def write_udp_def)
  qed
qed (simp add: makeUdpSender_def)

lemma inv_sender: "udp_inv w \<Longrightarrow> udp_inv (fst (makeUdpSender net p payload w))"
  using inv_addr [of w p] inv_dropped [of w]
  by (auto simp: sender_eq split: option.splits)

lemma inv_send_to: "udp_inv w \<Longrightarrow> udp_inv (fst (send_to net wsq p payload w))"
  using inv_sender [of w net p payload]
  by (auto simp: send_to_def SendBinary_def Let_def split: prod.splits option.splits)

lemma inv_lobby:
  assumes "udp_inv w" "next_peer (wlobby w) \<le> next_peer L"
    and "\<And>p. p < next_peer (wlobby w) \<Longrightarrow> peerID (peer_at L p) = peerID (the_peer w p) \<and>
      udpAddr (peer_at L p) = udpAddr (the_peer w p) \<and> udpSend (peer_at L p) = udpSend (the_peer w p)"
    and "\<And>p. next_peer (wlobby w) \<le> p \<Longrightarrow> udpAddr (peer_at L p) = None"
  shows "udp_inv (w\<lparr>wlobby := L\<rparr>)"
proof -
  have lt: "bindPeer b < next_peer (wlobby w)" if "map_of (peerByAddr (wudp w)) k = Some b" for k b
    using inv_binding [OF assms(1) that] inv_attached [OF assms(1)] by blast
  have bnd: "k = addr_String (bindAddr b) \<and> udpAddr (peer_at L (bindPeer b)) = Some (bindAddr b) \<and>
      map_of (peerByID (wudp w)) (peerID (peer_at L (bindPeer b))) = Some (bindPeer b) \<and>
      map_of (tokenByID (wudp w)) (peerID (peer_at L (bindPeer b))) = Some (bindToken b)"
    if "map_of (peerByAddr (wudp w)) k = Some b" for k b
    using inv_binding [OF assms(1) that] assms(3) [OF lt [OF that]] by simp
  have att: "peerID (peer_at L p) = pid \<and> p < next_peer L \<and> udpSend (peer_at L p)"
    if "map_of (peerByID (wudp w)) pid = Some p" for pid p
    using inv_attached [OF assms(1) that] assms(2,3) by fastforce
  have adr: "\<exists>b. map_of (peerByAddr (wudp w)) (addr_String a) = Some b \<and> bindPeer b = p"
    if "udpAddr (peer_at L p) = Some a" for p a
    using that assms(3) [of p] assms(4) [of p] inv_addr [OF assms(1), of p a]
    by (cases "p < next_peer (wlobby w)") auto
  show ?thesis
    using assms(1) bnd att adr unfolding udp_inv_def Let_def by simp
qed

lemma inv_fan: "udp_inv w \<Longrightarrow> udp_inv (fold (\<lambda>p w. fst (send_to net wsq p payload w)) ps w)"
  by (induction ps arbitrary: w) (simp_all add: inv_send_to)

lemma inv_release: "udp_inv (w\<lparr>wlobby := release f (wlobby w)\<rparr>) = udp_inv w"
  by (rule udp_inv_cong) simp_all

lemma inv_fanOut: "udp_inv w \<Longrightarrow> udp_inv (fanOut net wsq r f w)"
  by (simp add: fanOut_def inv_release inv_fan Let_def split: option.splits)

lemma inv_upd_room: "udp_inv (w\<lparr>wlobby := upd_room r f (wlobby w)\<rparr>) = udp_inv w"
  by (rule udp_inv_cong) simp_all

lemma inv_turn: "udp_inv w \<Longrightarrow> udp_inv (forward_turn net wsq r w)"
  by (auto simp: forward_turn_def take_frame_def inv_upd_room split: list.splits intro: inv_fanOut)

text \<open>The four ways a hello can end.\<close>

datatype verdict = Rejected string | Accepted

definition hello_verdict :: "byte list \<Rightarrow> UDPAddr \<Rightarrow> world \<Rightarrow> verdict \<times> peer_ref \<times> token" where
  "hello_verdict pkt src w =
     (case UnpackUdpHello pkt of
        Inl _ \<Rightarrow> (Rejected ''bad_hello'', 0, of_bytes [])
      | Inr h \<Rightarrow>
          (case (map_of (peerByID (wudp w)) (HelloPeerID h), map_of (tokenByID (wudp w)) (HelloPeerID h)) of
             (Some p, Some token) \<Rightarrow>
               if HelloToken h \<noteq> token then (Rejected ''bad_token'', p, token)
               else if \<not> snd (hello_limited w (HelloPeerID h)) then (Rejected ''hello_rate_limit'', p, token)
               else if (case udpAddr (the_peer w p) of None \<Rightarrow> False | Some old \<Rightarrow> addr_String old \<noteq> addr_String src)
               then (Rejected ''endpoint_rebind'', p, token)
               else if (case map_of (peerByAddr (wudp w)) (addr_String src) of None \<Rightarrow> False
                        | Some owner \<Rightarrow> peerID (the_peer w (bindPeer owner)) \<noteq> peerID (the_peer w p))
               then (Rejected ''endpoint_in_use'', p, token)
               else (Accepted, p, token)
           | _ \<Rightarrow> (Rejected ''unknown_peer'', 0, of_bytes [])))"

text \<open>The limiter is charged once the token has been checked, whatever comes after.\<close>

definition hello_charged :: "byte list \<Rightarrow> world \<Rightarrow> world" where
  "hello_charged pkt w =
     (case UnpackUdpHello pkt of
        Inl _ \<Rightarrow> w
      | Inr h \<Rightarrow>
          (case (map_of (peerByID (wudp w)) (HelloPeerID h), map_of (tokenByID (wudp w)) (HelloPeerID h)) of
             (Some p, Some token) \<Rightarrow> if HelloToken h = token then fst (hello_limited w (HelloPeerID h)) else w
           | _ \<Rightarrow> w))"

lemma hello_charged_get [simp]:
  "wlobby (hello_charged pkt w) = wlobby w" "datagrams (hello_charged pkt w) = datagrams w"
  "peerByAddr (wudp (hello_charged pkt w)) = peerByAddr (wudp w)"
  "peerByID (wudp (hello_charged pkt w)) = peerByID (wudp w)"
  "tokenByID (wudp (hello_charged pkt w)) = tokenByID (wudp w)"
  "connOpen (wudp (hello_charged pkt w)) = connOpen (wudp w)"
  "udp_inv (hello_charged pkt w) = udp_inv w"
  by (simp_all add: hello_charged_def split: sum.splits option.splits)

definition reply_welcome :: "(UDPAddr \<Rightarrow> byte list \<Rightarrow> bool) \<Rightarrow> uuid \<Rightarrow> UDPAddr \<Rightarrow> world \<Rightarrow> world" where
  "reply_welcome net pid src w =
     (let reply = PackUdpWelcome pid []; w = fst (write_udp net reply src w)
      in metered (counter_inc ''nu_udp_handshake_total'') (if net src reply then w else udp_error ''welcome_write'' w))"

lemma write_udp_case:
  "(case write_udp net payload a w of (w, False) \<Rightarrow> f w | (w, True) \<Rightarrow> g w) =
     (if net a payload then g (fst (write_udp net payload a w)) else f (fst (write_udp net payload a w)))"
  by (simp add: write_udp_def)

lemma handleHello_eq:
  "handleHello net pkt src w =
     (case hello_verdict pkt src w of
        (Rejected k, _, _) \<Rightarrow> udp_error k (hello_charged pkt w)
      | (Accepted, p, token) \<Rightarrow>
          reply_welcome net (HelloPeerID (projr (UnpackUdpHello pkt))) src (bound src p token (hello_charged pkt w)))"
proof (cases "UnpackUdpHello pkt")
  case (Inr h)
  show ?thesis
  proof (cases "map_of (peerByID (wudp w)) (HelloPeerID h)")
    case p: (Some p)
    show ?thesis
    proof (cases "map_of (tokenByID (wudp w)) (HelloPeerID h)")
      case token: (Some token)
      obtain w1 ok where lim: "hello_limited w (HelloPeerID h) = (w1, ok)"
        by fastforce
      then have w1: "wlobby w1 = wlobby w" "peerByAddr (wudp w1) = peerByAddr (wudp w)"
        using limited_get(1,3) [of w "HelloPeerID h"] by auto
      show ?thesis
        by (cases ok; cases "HelloToken h = token")
          (simp_all add: handleHello_def hello_verdict_def hello_charged_def Inr p token lim w1 Let_def
            bound_def reply_welcome_def write_udp_case cong: option.case_cong)
    qed (simp add: handleHello_def hello_verdict_def hello_charged_def Inr p)
  qed (simp add: handleHello_def hello_verdict_def hello_charged_def Inr)
qed (simp add: handleHello_def hello_verdict_def hello_charged_def)

lemma hello_accepted:
  assumes "hello_verdict pkt src w = (Accepted, p, token)"
  shows "\<exists>h. UnpackUdpHello pkt = Inr h \<and> map_of (peerByID (wudp w)) (HelloPeerID h) = Some p \<and>
    map_of (tokenByID (wudp w)) (HelloPeerID h) = Some token \<and> HelloToken h = token \<and>
    snd (hello_limited w (HelloPeerID h)) \<and>
    (\<forall>a. udpAddr (the_peer w p) = Some a \<longrightarrow> addr_String a = addr_String src) \<and>
    (\<forall>b. map_of (peerByAddr (wudp w)) (addr_String src) = Some b \<longrightarrow>
       peerID (the_peer w (bindPeer b)) = peerID (the_peer w p))"
  using assms unfolding hello_verdict_def
  by (auto split: sum.splits option.splits if_splits)

lemma reply_welcome_get [simp]:
  "wlobby (reply_welcome net pid src w) = wlobby w" "wudp (reply_welcome net pid src w) = wudp w"
  "udp_inv (reply_welcome net pid src w) = udp_inv w"
  "datagrams (reply_welcome net pid src w) =
     datagrams w @ (if net src (PackUdpWelcome pid []) then [(src, PackUdpWelcome pid [])] else [])"
  by (simp_all add: reply_welcome_def Let_def)

lemma inv_hello:
  assumes inv: "udp_inv w"
  shows "udp_inv (handleHello net pkt src w)"
proof (cases "hello_verdict pkt src w")
  case (fields v p token)
  show ?thesis
  proof (cases v)
    case Accepted
    with fields have "hello_verdict pkt src w = (Accepted, p, token)"
      by simp
    from hello_accepted [OF this] obtain h :: UdpHelloFrame where
      h: "map_of (peerByID (wudp w)) (HelloPeerID h) = Some p" "map_of (tokenByID (wudp w)) (HelloPeerID h) = Some token"
        "\<forall>a. udpAddr (the_peer w p) = Some a \<longrightarrow> addr_String a = addr_String src"
        "\<forall>b. map_of (peerByAddr (wudp w)) (addr_String src) = Some b \<longrightarrow> peerID (the_peer w (bindPeer b)) = peerID (the_peer w p)"
      by blast
    have pid: "peerID (the_peer w p) = HelloPeerID h"
      using inv_attached [OF inv h(1)] by simp
    have own: "bindPeer b = p" if "map_of (peerByAddr (wudp w)) (addr_String src) = Some b" for b
      using inv_binding [OF inv that] h(1) unfolding h(4) [rule_format, OF that] pid by simp
    have "udp_inv (bound src p token (hello_charged pkt w))"
      by (rule inv_bound) (use inv h(1,2) h(3) [rule_format] pid own in simp_all)
    with fields Accepted show ?thesis
      by (simp add: handleHello_eq)
  qed (simp add: handleHello_eq fields inv)
qed

lemma handlePing_eq:
  "handlePing net pkt src w =
     (case UnpackUdpPing pkt of
        Inl _ \<Rightarrow> udp_error ''bad_ping'' w
      | Inr ping \<Rightarrow>
          (case map_of (peerByAddr (wudp w)) (addr_String src) of
             None \<Rightarrow> udp_error ''unknown_ping_source'' w
           | Some b \<Rightarrow>
               if peerID (the_peer w (bindPeer b)) \<noteq> PingPeerID ping then udp_error ''unknown_ping_source'' w
               else metered (counter_inc ''nu_udp_pings_total'')
                 (fst (write_udp net (PackUdpPong (PingPeerID ping) []) src (refreshed (addr_String src) b (now w) w)))))"
  by (simp add: handlePing_def refreshed_def Let_def split: sum.split option.split)

lemma inv_ping: "udp_inv w \<Longrightarrow> udp_inv (handlePing net pkt src w)"
  by (auto simp: handlePing_eq inv_refreshed split: sum.splits option.splits)

text \<open>Audio: accepted exactly when the address is bound, the budget holds and the header names the peer.\<close>

definition audio_accepts :: "byte list \<Rightarrow> UDPAddr \<Rightarrow> world \<Rightarrow> binding \<Rightarrow> bool" where
  "audio_accepts pkt src w b \<longleftrightarrow>
     map_of (peerByAddr (wudp w)) (addr_String src) = Some b \<and>
     snd (audio_limited w (peerID (the_peer w (bindPeer b)))) \<and>
     (\<exists>hdr payload. Unpack pkt = Inr (hdr, payload) \<and> SourcePeerID hdr = peerID (the_peer w (bindPeer b)))"

definition audio_pass :: "byte list \<Rightarrow> UDPAddr \<Rightarrow> binding \<Rightarrow> world \<Rightarrow> world" where
  "audio_pass pkt src b w =
     (let p = bindPeer b; pid = peerID (the_peer w p);
          w = refreshed (addr_String src) b (now w) (fst (audio_limited w pid))
      in if muted (the_peer w p) then metered (labeled_inc ''nu_audio_frames_dropped_total'' ''reason'' ''muted'') w
         else case curRoom (the_peer w p) of
           None \<Rightarrow> udp_error ''not_in_room'' w
         | Some r \<Rightarrow>
             metered (counter_add ''nu_udp_bytes_recv_total'' (of_nat (length pkt)))
               (metered (counter_inc ''nu_udp_audio_frames_recv_total'')
                 (w\<lparr>wlobby := fst (Forward r \<lparr>frameSource = pid, framePayload = pkt, frameDone = None\<rparr> (wlobby w))\<rparr>)))"

text \<open>A refused packet is counted; it has cost the peer a unit of its budget if its address was bound.\<close>

definition audio_refused :: "UDPAddr \<Rightarrow> world \<Rightarrow> world \<Rightarrow> bool" where
  "audio_refused src w w' \<longleftrightarrow>
     (\<exists>k. w' = udp_error k w) \<or>
     (\<exists>k b. map_of (peerByAddr (wudp w)) (addr_String src) = Some b \<and>
        w' = udp_error k (fst (audio_limited w (peerID (the_peer w (bindPeer b))))))"

lemma handleAudio_eq:
  "(\<exists>b. audio_accepts pkt src w b \<and> handleAudio pkt src w = audio_pass pkt src b w) \<or>
   (\<nexists>b. audio_accepts pkt src w b) \<and> audio_refused src w (handleAudio pkt src w)"
proof (cases "map_of (peerByAddr (wudp w)) (addr_String src)")
  case (Some b)
  obtain w1 ok where lim: "audio_limited w (peerID (the_peer w (bindPeer b))) = (w1, ok)"
    by fastforce
  then have w1: "wlobby w1 = wlobby w"
    using limited_get(7) [of w "peerID (the_peer w (bindPeer b))"] by simp
  show ?thesis
  proof (cases "audio_accepts pkt src w b")
    case True
    with Some lim w1 show ?thesis
      by (intro disjI1 exI [of _ b])
        (auto simp: audio_accepts_def handleAudio_def audio_pass_def refreshed_def Let_def split: option.splits prod.splits)
  next
    case False
    with Some have no: "\<nexists>b. audio_accepts pkt src w b"
      by (auto simp: audio_accepts_def)
    from False Some lim w1 have "\<exists>k. handleAudio pkt src w = udp_error k w1"
      by (cases ok; cases "Unpack pkt") (auto simp: audio_accepts_def handleAudio_def Let_def)
    with no Some lim show ?thesis
      by (auto simp: audio_refused_def)
  qed
qed (auto simp: audio_accepts_def handleAudio_def audio_refused_def)

lemma Forward_get [simp]:
  "peer_at (fst (Forward r f L)) = peer_at L" "next_peer (fst (Forward r f L)) = next_peer L"
  "rooms (fst (Forward r f L)) = rooms L" "clock (fst (Forward r f L)) = clock L"
  by (simp_all add: Forward_def)

lemma refreshed_get [simp]:
  "wlobby (refreshed k b t w) = wlobby w" "datagrams (refreshed k b t w) = datagrams w"
  "peerByID (wudp (refreshed k b t w)) = peerByID (wudp w)" "tokenByID (wudp (refreshed k b t w)) = tokenByID (wudp w)"
  "peerByAddr (wudp (refreshed k b t w)) = AList.update k (b\<lparr>lastSeen := t\<rparr>) (peerByAddr (wudp w))"
  by (simp_all add: refreshed_def)

lemma inv_forward: "wlobby w = L \<Longrightarrow> udp_inv (w\<lparr>wlobby := fst (Forward r f L)\<rparr>) = udp_inv w"
  by (rule udp_inv_cong) simp_all

lemma inv_audio: "udp_inv w \<Longrightarrow> udp_inv (handleAudio pkt src w)"
proof -
  assume inv: "udp_inv w"
  have "udp_inv (audio_pass pkt src b w)" if "audio_accepts pkt src w b" for b
  proof -
    have "udp_inv (refreshed (addr_String src) b (now w) (fst (audio_limited w (peerID (the_peer w (bindPeer b))))))"
      by (rule inv_refreshed) (use inv that in \<open>auto simp: audio_accepts_def\<close>)
    then show ?thesis
      by (auto simp: audio_pass_def Let_def inv_forward split: option.splits)
  qed
  with inv handleAudio_eq [of pkt src w] show ?thesis
    by (auto simp: audio_refused_def)
qed

lemma inv_receive: "udp_inv w \<Longrightarrow> udp_inv (receive net pkt src w)"
  by (auto simp: receive_def Let_def inv_audio inv_hello inv_ping)

end
