(* ===== verification/Udp_Run.thy ===== *)
theory Udp_Run
  imports Udp "HOL-Library.Multiset"
begin

text \<open>
  The UDP server over a whole run: sessions come and go, datagrams arrive from anywhere, audio is
  sent, bindings expire, the lobby moves on by itself.  The invariant of the bindings holds in
  every reachable state; the security properties of the data plane rest on it.
\<close>

declare map_of_eq_Some_iff [simp del]
declare Some_eq_map_of_iff [simp del]

section \<open>Sessions and expiry keep the invariant\<close>

lemma inv_mint:
  assumes "udp_inv w" "map_of (peerByID (wudp w)) pid = None"
  shows "udp_inv (fst (MintToken random pid w))"
proof -
  have "peerID (the_peer w (bindPeer b)) \<noteq> pid" if "map_of (peerByAddr (wudp w)) k = Some b" for k b
    using inv_binding [OF assms(1) that] assms(2) by auto
  with assms(1) show ?thesis
    unfolding udp_inv_def Let_def by (simp add: MintToken_def go_map split: option.splits)
qed

definition listed :: "peer_ref \<Rightarrow> world \<Rightarrow> world" where
  "listed p w = on_udp (\<lambda>s. s\<lparr>peerByID := AList.update (peerID (the_peer w p)) p (peerByID s)\<rparr>)
     (on_peer p (AttachUdpSender True) w)"

lemma AttachPeer_eq: "AttachPeer p w = listed p w"
  by (simp add: AttachPeer_def listed_def on_udp_def on_peer_def Let_def)

lemma listed_get [simp]:
  "the_peer (listed p w) q = (if q = p then (the_peer w p)\<lparr>udpSend := True\<rparr> else the_peer w q)"
  "peerByAddr (wudp (listed p w)) = peerByAddr (wudp w)" "tokenByID (wudp (listed p w)) = tokenByID (wudp w)"
  "peerByID (wudp (listed p w)) = AList.update (peerID (the_peer w p)) p (peerByID (wudp w))"
  "next_peer (wlobby (listed p w)) = next_peer (wlobby w)" "datagrams (listed p w) = datagrams w"
  by (simp_all add: listed_def)

lemma inv_attach:
  assumes inv: "udp_inv w" and p: "map_of (peerByID (wudp w)) (peerID (the_peer w p)) = None" "p < next_peer (wlobby w)"
  shows "udp_inv (AttachPeer p w)"
proof -
  have other: "bindPeer b \<noteq> p \<and> peerID (the_peer w (bindPeer b)) \<noteq> peerID (the_peer w p)"
    if "map_of (peerByAddr (wudp w)) k = Some b" for k b
    using inv_binding [OF inv that] p(1) by auto
  have none: "udpAddr (the_peer w p) = None"
    using inv_addr [OF inv, of p] other by (cases "udpAddr (the_peer w p)") auto
  show ?thesis
    unfolding udp_inv_def Let_def AttachPeer_eq
  proof (intro conjI allI impI)
    show "wf_map (peerByAddr (wudp (listed p w)))"
      using inv by (simp add: udp_inv_def Let_def)
  next
    fix pid q assume "map_of (peerByID (wudp (listed p w))) pid = Some q"
    with inv_attached [OF inv, of pid q] p(2)
    show "peerID (the_peer (listed p w) q) = pid" "q < next_peer (wlobby (listed p w))" "udpSend (the_peer (listed p w) q)"
      by (auto simp: go_map split: if_splits)
  next
    fix k b assume "map_of (peerByAddr (wudp (listed p w))) k = Some b"
    then have b: "map_of (peerByAddr (wudp w)) k = Some b" by simp
    from inv_binding [OF inv b] other [OF b]
    show "k = addr_String (bindAddr b)" "udpAddr (the_peer (listed p w) (bindPeer b)) = Some (bindAddr b)"
      "map_of (peerByID (wudp (listed p w))) (peerID (the_peer (listed p w) (bindPeer b))) = Some (bindPeer b)"
      "map_of (tokenByID (wudp (listed p w))) (peerID (the_peer (listed p w) (bindPeer b))) = Some (bindToken b)"
      by (simp_all add: go_map)
  next
    fix q a assume "udpAddr (the_peer (listed p w) q) = Some a"
    with none inv_addr [OF inv, of q a]
    show "\<exists>b. map_of (peerByAddr (wudp (listed p w))) (addr_String a) = Some b \<and> bindPeer b = q"
      by (simp split: if_splits)
  qed
qed

text \<open>A peer with no binding leaves the maps.\<close>

definition unlisted :: "peer_ref \<Rightarrow> world \<Rightarrow> world" where
  "unlisted p w = on_udp (\<lambda>s. s\<lparr>peerByID := AList.delete (peerID (the_peer w p)) (peerByID s),
     tokenByID := AList.delete (peerID (the_peer w p)) (tokenByID s)\<rparr>) (on_peer p (AttachUdpSender False) w)"

lemma dropped_get [simp]:
  "the_peer (dropped k p w) q = (if q = p then (the_peer w p)\<lparr>udpAddr := None\<rparr> else the_peer w q)"
  "peerByAddr (wudp (dropped k p w)) = AList.delete k (peerByAddr (wudp w))"
  "tokenByID (wudp (dropped k p w)) = AList.delete (peerID (the_peer w p)) (tokenByID (wudp w))"
  "peerByID (wudp (dropped k p w)) = peerByID (wudp w)" "datagrams (dropped k p w) = datagrams w"
  "next_peer (wlobby (dropped k p w)) = next_peer (wlobby w)" "connOpen (wudp (dropped k p w)) = connOpen (wudp w)"
  "clock (wlobby (dropped k p w)) = clock (wlobby w)" "wsframes (dropped k p w) = wsframes w"
  "room_at (wlobby (dropped k p w)) = room_at (wlobby w)" "wmetrics (dropped k p w) = wmetrics w"
  by (simp_all add: dropped_def)

lemma unlisted_get [simp]:
  "the_peer (unlisted p w) q = (if q = p then (the_peer w p)\<lparr>udpSend := False\<rparr> else the_peer w q)"
  "peerByAddr (wudp (unlisted p w)) = peerByAddr (wudp w)"
  "tokenByID (wudp (unlisted p w)) = AList.delete (peerID (the_peer w p)) (tokenByID (wudp w))"
  "peerByID (wudp (unlisted p w)) = AList.delete (peerID (the_peer w p)) (peerByID (wudp w))"
  "datagrams (unlisted p w) = datagrams w" "next_peer (wlobby (unlisted p w)) = next_peer (wlobby w)"
  by (simp_all add: unlisted_def)

lemma DetachPeer_eq:
  assumes inv: "udp_inv w"
  shows "DetachPeer p w = unlisted p (case udpAddr (the_peer w p) of None \<Rightarrow> w | Some a \<Rightarrow> dropped (addr_String a) p w)"
proof (cases "udpAddr (the_peer w p)")
  case (Some a)
  from inv_addr [OF inv this] obtain b where "map_of (peerByAddr (wudp w)) (addr_String a) = Some b" "bindPeer b = p"
    by blast
  with Some show ?thesis
    by (auto simp: DetachPeer_def Let_def unlisted_def dropped_def AList.delete_idem
        intro!: world.equality lobby.equality udp_server.equality peer.equality ext)
qed (simp add: DetachPeer_def Let_def unlisted_def on_udp_def on_peer_def)

lemma bound_by_id:
  assumes "udp_inv w" "map_of (peerByAddr (wudp w)) k = Some b"
    and "map_of (peerByID (wudp w)) pid = Some p" "peerID (the_peer w (bindPeer b)) = pid"
  shows "bindPeer b = p"
  using inv_binding [OF assms(1,2)] assms(3) unfolding assms(4) by simp

lemma inv_unlisted:
  assumes inv: "udp_inv w" and p: "map_of (peerByID (wudp w)) (peerID (the_peer w p)) = Some p" "udpAddr (the_peer w p) = None"
  shows "udp_inv (unlisted p w)"
proof -
  have other: "bindPeer b \<noteq> p \<and> peerID (the_peer w (bindPeer b)) \<noteq> peerID (the_peer w p)"
    if "map_of (peerByAddr (wudp w)) k = Some b" for k b
  proof -
    have "udpAddr (the_peer w (bindPeer b)) \<noteq> None"
      using inv_binding [OF inv that] by simp
    with p(2) have "bindPeer b \<noteq> p" by auto
    with bound_by_id [OF inv that p(1)] show ?thesis by blast
  qed
  show ?thesis
    unfolding udp_inv_def Let_def
  proof (intro conjI allI impI)
    show "wf_map (peerByAddr (wudp (unlisted p w)))"
      using inv by (simp add: udp_inv_def Let_def)
  next
    fix pid q assume "map_of (peerByID (wudp (unlisted p w))) pid = Some q"
    then have q: "map_of (peerByID (wudp w)) pid = Some q" "pid \<noteq> peerID (the_peer w p)"
      by (auto simp: go_map split: if_splits)
    with inv_attached [OF inv q(1)]
    show "peerID (the_peer (unlisted p w) q) = pid" "q < next_peer (wlobby (unlisted p w))" "udpSend (the_peer (unlisted p w) q)"
      by auto
  next
    fix k b assume "map_of (peerByAddr (wudp (unlisted p w))) k = Some b"
    then have b: "map_of (peerByAddr (wudp w)) k = Some b" by simp
    from inv_binding [OF inv b] other [OF b]
    show "k = addr_String (bindAddr b)" "udpAddr (the_peer (unlisted p w) (bindPeer b)) = Some (bindAddr b)"
      "map_of (peerByID (wudp (unlisted p w))) (peerID (the_peer (unlisted p w) (bindPeer b))) = Some (bindPeer b)"
      "map_of (tokenByID (wudp (unlisted p w))) (peerID (the_peer (unlisted p w) (bindPeer b))) = Some (bindToken b)"
      by (simp_all add: go_map)
  next
    fix q a assume "udpAddr (the_peer (unlisted p w) q) = Some a"
    with p(2) inv_addr [OF inv, of q a]
    show "\<exists>b. map_of (peerByAddr (wudp (unlisted p w))) (addr_String a) = Some b \<and> bindPeer b = q"
      by (simp split: if_splits)
  qed
qed

lemma inv_detach:
  assumes inv: "udp_inv w" and p: "map_of (peerByID (wudp w)) (peerID (the_peer w p)) = Some p"
  shows "udp_inv (DetachPeer p w)"
proof (cases "udpAddr (the_peer w p)")
  case None
  with assms show ?thesis
    by (simp add: DetachPeer_eq inv_unlisted)
next
  case (Some a)
  from inv_addr [OF inv this] obtain b where b: "map_of (peerByAddr (wudp w)) (addr_String a) = Some b" "bindPeer b = p"
    by blast
  have "udp_inv (unlisted p (dropped (addr_String a) p w))"
    by (rule inv_unlisted [OF inv_dropped [OF inv b]]) (simp_all add: p)
  with Some inv show ?thesis
    by (simp add: DetachPeer_eq)
qed

lemma expire_one_eq:
  assumes inv: "udp_inv w" and b: "map_of (peerByAddr (wudp w)) k = Some b"
  shows "expire_one t (k, b) w =
    (if t - lastSeen b < peerIdleTimeout then w
     else metered (counter_inc ''nu_udp_bindings_expired_total'') (dropped k (bindPeer b) w))"
  using inv_binding [OF inv b] b
  by (simp add: expire_one_def Let_def dropped_alt)

text \<open>The sweep removes the stale bindings of the list it walks, one by one.\<close>

definition stale :: "time \<Rightarrow> binding \<Rightarrow> bool" where
  "stale t b \<longleftrightarrow> peerIdleTimeout \<le> t - lastSeen b"

lemma sweep_spec:
  assumes "udp_inv w" "wf_map xs" "\<And>k b. (k, b) \<in> set xs \<Longrightarrow> map_of (peerByAddr (wudp w)) k = Some b"
  shows "udp_inv (fold (expire_one t) xs w) \<and>
    (\<forall>k. map_of (peerByAddr (wudp (fold (expire_one t) xs w))) k =
       (if \<exists>b. (k, b) \<in> set xs \<and> stale t b then None else map_of (peerByAddr (wudp w)) k)) \<and>
    (\<forall>p. the_peer (fold (expire_one t) xs w) p =
       (if \<exists>k b. (k, b) \<in> set xs \<and> stale t b \<and> bindPeer b = p then (the_peer w p)\<lparr>udpAddr := None\<rparr> else the_peer w p)) \<and>
    (\<forall>pid. map_of (tokenByID (wudp (fold (expire_one t) xs w))) pid =
       (if \<exists>k b. (k, b) \<in> set xs \<and> stale t b \<and> peerID (the_peer w (bindPeer b)) = pid then None
        else map_of (tokenByID (wudp w)) pid)) \<and>
    counter_value (wmetrics (fold (expire_one t) xs w)) ''nu_udp_bindings_expired_total'' =
      counter_value (wmetrics w) ''nu_udp_bindings_expired_total'' + of_nat (length (filter (\<lambda>kb. stale t (snd kb)) xs))"
  using assms
proof (induction xs arbitrary: w)
  case (Cons kb xs)
  obtain k b where kb: "kb = (k, b)" by (cases kb)
  have b: "map_of (peerByAddr (wudp w)) k = Some b"
    using Cons.prems(3) kb by simp
  define w1 where "w1 = expire_one t (k, b) w"
  show ?case
  proof (cases "stale t b")
    case False
    then have "w1 = w"
      by (simp add: w1_def expire_one_eq [OF Cons.prems(1) b] stale_def)
    with Cons.IH [OF Cons.prems(1)] Cons.prems(2,3) False show ?thesis
      by (auto simp: kb w1_def)
  next
    case True
    then have w1: "w1 = metered (counter_inc ''nu_udp_bindings_expired_total'') (dropped k (bindPeer b) w)"
      by (simp add: w1_def expire_one_eq [OF Cons.prems(1) b] stale_def)
    have inv1: "udp_inv w1"
      by (simp add: w1 inv_dropped [OF Cons.prems(1) b])
    have "map_of (peerByAddr (wudp w1)) k' = Some b'" if "(k', b') \<in> set xs" for k' b'
      using that Cons.prems(2,3) by (force simp: kb w1 go_map)
    moreover have "wf_map xs"
      using Cons.prems(2) by simp
    ultimately have IH: "udp_inv (fold (expire_one t) xs w1)"
      "\<And>k'. map_of (peerByAddr (wudp (fold (expire_one t) xs w1))) k' =
         (if \<exists>b. (k', b) \<in> set xs \<and> stale t b then None else map_of (peerByAddr (wudp w1)) k')"
      "\<And>p. the_peer (fold (expire_one t) xs w1) p =
         (if \<exists>k b. (k, b) \<in> set xs \<and> stale t b \<and> bindPeer b = p then (the_peer w1 p)\<lparr>udpAddr := None\<rparr> else the_peer w1 p)"
      "\<And>pid. map_of (tokenByID (wudp (fold (expire_one t) xs w1))) pid =
         (if \<exists>k b. (k, b) \<in> set xs \<and> stale t b \<and> peerID (the_peer w1 (bindPeer b)) = pid then None
          else map_of (tokenByID (wudp w1)) pid)"
      "counter_value (wmetrics (fold (expire_one t) xs w1)) ''nu_udp_bindings_expired_total'' =
         counter_value (wmetrics w1) ''nu_udp_bindings_expired_total'' + of_nat (length (filter (\<lambda>kb. stale t (snd kb)) xs))"
      using Cons.IH [OF inv1] by blast+
    have 5: "counter_value (wmetrics w1) ''nu_udp_bindings_expired_total'' =
        counter_value (wmetrics w) ''nu_udp_bindings_expired_total'' + 1"
      by (simp add: w1)
    have id: "peerID (the_peer w1 q) = peerID (the_peer w q)" for q
      by (simp add: w1)
    show ?thesis
    proof (intro conjI allI)
      show "udp_inv (fold (expire_one t) (kb # xs) w)"
        using IH(1) by (simp add: kb w1_def)
    next
      fix k'
      show "map_of (peerByAddr (wudp (fold (expire_one t) (kb # xs) w))) k' =
         (if \<exists>b. (k', b) \<in> set (kb # xs) \<and> stale t b then None else map_of (peerByAddr (wudp w)) k')"
        using IH(2) [of k'] True by (auto simp: kb w1_def [symmetric]) (auto simp: w1 go_map)
    next
      fix p
      show "the_peer (fold (expire_one t) (kb # xs) w) p =
        (if \<exists>k b. (k, b) \<in> set (kb # xs) \<and> stale t b \<and> bindPeer b = p then (the_peer w p)\<lparr>udpAddr := None\<rparr> else the_peer w p)"
        using IH(3) [of p] True by (auto simp: kb w1_def [symmetric]) (auto simp: w1)
    next
      fix pid
      show "map_of (tokenByID (wudp (fold (expire_one t) (kb # xs) w))) pid =
         (if \<exists>k b. (k, b) \<in> set (kb # xs) \<and> stale t b \<and> peerID (the_peer w (bindPeer b)) = pid then None
          else map_of (tokenByID (wudp w)) pid)"
        using IH(4) [of pid] True unfolding id by (auto simp: kb w1_def [symmetric]) (auto simp: w1 go_map)
    next
      show "counter_value (wmetrics (fold (expire_one t) (kb # xs) w)) ''nu_udp_bindings_expired_total'' =
        counter_value (wmetrics w) ''nu_udp_bindings_expired_total'' +
        of_nat (length (filter (\<lambda>kb. stale t (snd kb)) (kb # xs)))"
        using IH(5) 5 True by (simp add: kb w1_def [symmetric])
    qed
  qed
qed simp

lemma inv_wf: "udp_inv w \<Longrightarrow> wf_map (peerByAddr (wudp w))"
  by (simp add: udp_inv_def Let_def)

lemma expire_inv: "udp_inv w \<Longrightarrow> udp_inv (expireIdle t w)"
  using sweep_spec [OF _ inv_wf, of w w t] by (simp add: expireIdle_def map_of_set_iff inv_wf)

section \<open>Runs\<close>

text \<open>
  A token is minted before its peer is attached (\<open>run\<close> in \<open>internal/ws/dispatch.go\<close>), a peer is
  attached once under an identifier of its own and detached when its session ends.  The lobby may
  do anything that leaves identifiers, UDP senders and UDP addresses of peers alone.
\<close>

inductive udp_step ::
  "(UDPAddr \<Rightarrow> byte list \<Rightarrow> bool) \<Rightarrow> (conn_ref \<Rightarrow> byte list \<Rightarrow> bool \<Rightarrow> bool) \<Rightarrow> world \<Rightarrow> world \<Rightarrow> bool"
  for net wsq where
  mint: "map_of (peerByID (wudp w)) pid = None \<Longrightarrow> udp_step net wsq w (fst (MintToken random pid w))"
| attach: "map_of (peerByID (wudp w)) (peerID (the_peer w p)) = None \<Longrightarrow> p < next_peer (wlobby w) \<Longrightarrow>
    udp_step net wsq w (AttachPeer p w)"
| detach: "map_of (peerByID (wudp w)) (peerID (the_peer w p)) = Some p \<Longrightarrow> udp_step net wsq w (DetachPeer p w)"
| datagram: "udp_step net wsq w (receive net pkt src w)"
| transmit: "udp_step net wsq w (fst (send_to net wsq p payload w))"
| turn: "udp_step net wsq w (forward_turn net wsq r w)"
| sweep: "udp_step net wsq w (expireIdle (now w) w)"
| listen: "udp_step net wsq w (on_udp Listen w)"
| lobby: "next_peer (wlobby w) \<le> next_peer L \<Longrightarrow>
    \<forall>p < next_peer (wlobby w). peerID (peer_at L p) = peerID (the_peer w p) \<and>
      udpAddr (peer_at L p) = udpAddr (the_peer w p) \<and> udpSend (peer_at L p) = udpSend (the_peer w p) \<Longrightarrow>
    \<forall>p \<ge> next_peer (wlobby w). udpAddr (peer_at L p) = None \<Longrightarrow>
    udp_step net wsq w (w\<lparr>wlobby := L\<rparr>)"

lemma inv_listen: "udp_inv (on_udp Listen w) = udp_inv w"
  by (rule udp_inv_cong) (simp_all add: Listen_def)

lemma udp_inv_step: "udp_step net wsq w w' \<Longrightarrow> udp_inv w \<Longrightarrow> udp_inv w'"
  by (induction rule: udp_step.induct)
    (simp_all add: inv_mint inv_attach inv_detach inv_receive inv_send_to inv_turn expire_inv inv_lobby inv_listen)

interpretation udp: machine "udp_step net wsq" udp_inv for net wsq
  by unfold_locales (rule udp_inv_step)

definition world0 :: "int \<Rightarrow> int \<Rightarrow> int \<Rightarrow> int \<Rightarrow> world" where
  "world0 max_rooms max_peers hello_limit audio_limit =
     \<lparr>wlobby = NewRegistry max_rooms max_peers, wudp = NewServer hello_limit audio_limit, wmetrics = NewMetrics,
      datagrams = [], wsframes = []\<rparr>"

lemma world0_inv: "udp_inv (world0 mr mp hl al)"
  by (simp add: udp_inv_def world0_def NewServer_def NewRegistry_def Let_def)

text \<open>
  C9.  Endpoints and peers stay paired whatever arrives on the socket and however sessions come
  and go: in every reachable state an address is bound to at most one peer and a peer to at most
  one address; the bound peer is attached under its own identifier, holds the very token the
  binding was made with, and has that address as its UDP address.
\<close>

theorem endpoints_are_paired:
  assumes "(udp_step net wsq)\<^sup>*\<^sup>* (world0 mr mp hl al) w"
    and "map_of (peerByAddr (wudp w)) k = Some b"
  shows "k = addr_String (bindAddr b) \<and> udpAddr (the_peer w (bindPeer b)) = Some (bindAddr b) \<and>
    map_of (peerByID (wudp w)) (peerID (the_peer w (bindPeer b))) = Some (bindPeer b) \<and>
    map_of (tokenByID (wudp w)) (peerID (the_peer w (bindPeer b))) = Some (bindToken b) \<and>
    (\<forall>k' b'. map_of (peerByAddr (wudp w)) k' = Some b' \<and> bindPeer b' = bindPeer b \<longrightarrow> k' = k \<and> b' = b)"
proof -
  have inv: "udp_inv w"
    by (rule udp.run_keeps [OF assms(1) world0_inv])
  have "k' = k \<and> b' = b" if "map_of (peerByAddr (wudp w)) k' = Some b'" "bindPeer b' = bindPeer b" for k' b'
    using inv_same_peer [OF inv that(1) assms(2) that(2)] that(1) assms(2) by simp
  with inv_binding [OF inv assms(2)] show ?thesis
    by blast
qed

section \<open>Ingress\<close>

lemma the_peer_forward [simp]: "peer_at (fst (Forward r f L)) = peer_at L"
  by (simp add: Forward_def)

lemma audio_pass_get [simp]:
  "the_peer (audio_pass pkt src b w) = the_peer w" "datagrams (audio_pass pkt src b w) = datagrams w"
  "peerByID (wudp (audio_pass pkt src b w)) = peerByID (wudp w)"
  "tokenByID (wudp (audio_pass pkt src b w)) = tokenByID (wudp w)"
  by (auto simp: audio_pass_def Let_def split: option.splits)

lemma audio_get [simp]:
  "the_peer (handleAudio pkt src w) = the_peer w" "datagrams (handleAudio pkt src w) = datagrams w"
  "peerByID (wudp (handleAudio pkt src w)) = peerByID (wudp w)"
  "tokenByID (wudp (handleAudio pkt src w)) = tokenByID (wudp w)"
  using handleAudio_eq [of pkt src w] by (auto simp: audio_refused_def)

lemma ping_get [simp]:
  "wlobby (handlePing net pkt src w) = wlobby w"
  "peerByID (wudp (handlePing net pkt src w)) = peerByID (wudp w)"
  "tokenByID (wudp (handlePing net pkt src w)) = tokenByID (wudp w)"
  by (auto simp: handlePing_eq split: sum.splits option.splits)

lemma bound_get [simp]:
  "the_peer (bound src p token w) q = (if q = p then (the_peer w p)\<lparr>udpAddr := Some src\<rparr> else the_peer w q)"
  "peerByID (wudp (bound src p token w)) = peerByID (wudp w)"
  "tokenByID (wudp (bound src p token w)) = tokenByID (wudp w)" "datagrams (bound src p token w) = datagrams w"
  "peerByAddr (wudp (bound src p token w)) = AList.update (addr_String src)
     \<lparr>bindPeer = p, bindAddr = src, bindToken = token, lastSeen = now w\<rparr> (peerByAddr (wudp w))"
  "room_at (wlobby (bound src p token w)) = room_at (wlobby w)"
  by (simp_all add: bound_def)

lemma hello_get [simp]:
  "peerByID (wudp (handleHello net pkt src w)) = peerByID (wudp w)"
  "tokenByID (wudp (handleHello net pkt src w)) = tokenByID (wudp w)"
  "room_at (wlobby (handleHello net pkt src w)) = room_at (wlobby w)"
  by (auto simp: handleHello_eq split: prod.splits verdict.splits)

text \<open>
  C8.  Nothing but a hello with the peer's own token binds a peer.  If a datagram changes the UDP
  address of a peer, it was a well-formed hello that names this attached peer and carries the token
  minted for it, the peer is now at the address the datagram came from, and it had no endpoint
  before, or the same one; no datagram ever changes a token or attaches a peer.
\<close>

theorem only_its_token_binds_a_peer:
  assumes inv: "udp_inv w"
    and change: "udpAddr (the_peer (receive net datagram src w) p) \<noteq> udpAddr (the_peer w p)"
  shows "\<exists>h. UnpackUdpHello (take maxDatagramSize datagram) = Inr h \<and> HelloPeerID h = peerID (the_peer w p) \<and>
    map_of (peerByID (wudp w)) (HelloPeerID h) = Some p \<and>
    map_of (tokenByID (wudp w)) (HelloPeerID h) = Some (HelloToken h) \<and>
    udpAddr (the_peer (receive net datagram src w) p) = Some src \<and>
    (\<forall>old. udpAddr (the_peer w p) = Some old \<longrightarrow> addr_String old = addr_String src) \<and>
    peerByID (wudp (receive net datagram src w)) = peerByID (wudp w) \<and>
    tokenByID (wudp (receive net datagram src w)) = tokenByID (wudp w)"
proof -
  let ?pkt = "take maxDatagramSize datagram"
  have r: "receive net datagram src w = handleHello net ?pkt src w"
    using change by (auto simp: receive_def Let_def split: if_splits)
  obtain v q token where v: "hello_verdict ?pkt src w = (v, q, token)"
    by (cases "hello_verdict ?pkt src w") auto
  have acc: "v = Accepted" "q = p"
    using change v unfolding r by (auto simp: handleHello_eq split: verdict.splits if_splits)
  from hello_accepted [of ?pkt src w p token] v acc obtain h :: UdpHelloFrame where
    h: "UnpackUdpHello ?pkt = Inr h" "map_of (peerByID (wudp w)) (HelloPeerID h) = Some p"
      "map_of (tokenByID (wudp w)) (HelloPeerID h) = Some token" "HelloToken h = token"
      "\<forall>a. udpAddr (the_peer w p) = Some a \<longrightarrow> addr_String a = addr_String src"
    by blast
  moreover have "udpAddr (the_peer (handleHello net ?pkt src w) p) = Some src"
    by (simp add: handleHello_eq v acc)
  moreover have "HelloPeerID h = peerID (the_peer w p)"
    using inv_attached [OF inv h(2)] by simp
  ultimately show ?thesis
    unfolding r by (intro exI [of _ h]) simp
qed

lemma ping_datagrams:
  "datagrams (handlePing net pkt src w) = datagrams w \<or>
   (\<exists>ping b. UnpackUdpPing pkt = Inr ping \<and> map_of (peerByAddr (wudp w)) (addr_String src) = Some b \<and>
      peerID (the_peer w (bindPeer b)) = PingPeerID ping \<and>
      datagrams (handlePing net pkt src w) = datagrams w @ [(src, PackUdpPong (PingPeerID ping) [])])"
  by (auto simp: handlePing_eq split: sum.splits option.splits)

lemma hello_datagrams:
  "datagrams (handleHello net pkt src w) = datagrams w \<or>
   (\<exists>h p token. hello_verdict pkt src w = (Accepted, p, token) \<and> UnpackUdpHello pkt = Inr h \<and>
      datagrams (handleHello net pkt src w) = datagrams w @ [(src, PackUdpWelcome (HelloPeerID h) [])])"
proof (cases "hello_verdict pkt src w")
  case (fields v p token)
  show ?thesis
  proof (cases v)
    case Accepted
    with fields hello_accepted [of pkt src w p token] obtain h where "UnpackUdpHello pkt = Inr h"
      by auto
    with Accepted fields show ?thesis
      by (simp add: handleHello_eq)
  qed (simp add: handleHello_eq fields)
qed

lemma hello_length: "UnpackUdpHello pkt = Inr h \<Longrightarrow> length pkt = UdpHelloSize"
  by (auto simp: UnpackUdpHello_def split: if_splits)

lemma ping_length: "UnpackUdpPing pkt = Inr h \<Longrightarrow> length pkt = UdpPingSize"
  by (auto simp: UnpackUdpPing_def split: if_splits)

lemma reply_lengths:
  "length (PackUdpWelcome pid []) = UdpWelcomeSize" "length (PackUdpPong pid []) = UdpPongSize"
  by (simp_all add: PackUdpWelcome_def PackUdpPong_def reslice_def copy_range_def UdpWelcomeSize_def UdpPongSize_def)

lemma receive_cases:
  "receive net datagram src w = handleHello net (take maxDatagramSize datagram) src w \<or>
   receive net datagram src w = handlePing net (take maxDatagramSize datagram) src w \<or>
   datagrams (receive net datagram src w) = datagrams w"
  by (simp add: receive_def Let_def)

lemma hello_reply:
  assumes inv: "udp_inv w" and d: "datagrams (handleHello net pkt src w) \<noteq> datagrams w"
  obtains h p where "UnpackUdpHello pkt = Inr h" "map_of (peerByID (wudp w)) (HelloPeerID h) = Some p"
    "map_of (tokenByID (wudp w)) (HelloPeerID h) = Some (HelloToken h)"
    "datagrams (handleHello net pkt src w) = datagrams w @ [(src, PackUdpWelcome (HelloPeerID h) [])]"
    "map_of (peerByAddr (wudp (handleHello net pkt src w))) (addr_String src) =
       Some \<lparr>bindPeer = p, bindAddr = src, bindToken = HelloToken h, lastSeen = now w\<rparr>"
proof -
  from hello_datagrams [of net pkt src w] d obtain h p token where
    v: "hello_verdict pkt src w = (Accepted, p, token)" and h: "UnpackUdpHello pkt = Inr h"
      "datagrams (handleHello net pkt src w) = datagrams w @ [(src, PackUdpWelcome (HelloPeerID h) [])]"
    by auto
  moreover have "map_of (peerByAddr (wudp (handleHello net pkt src w))) (addr_String src) =
      Some \<lparr>bindPeer = p, bindAddr = src, bindToken = token, lastSeen = now w\<rparr>"
    by (simp add: handleHello_eq v go_map)
  ultimately show thesis
    using hello_accepted [OF v] by (intro that [of h p]) auto
qed

lemma ping_reply:
  assumes inv: "udp_inv w" and d: "datagrams (handlePing net pkt src w) \<noteq> datagrams w"
  obtains ping b where "UnpackUdpPing pkt = Inr ping" "map_of (peerByAddr (wudp w)) (addr_String src) = Some b"
    "map_of (peerByID (wudp w)) (PingPeerID ping) = Some (bindPeer b)"
    "map_of (tokenByID (wudp w)) (PingPeerID ping) = Some (bindToken b)"
    "datagrams (handlePing net pkt src w) = datagrams w @ [(src, PackUdpPong (PingPeerID ping) [])]"
    "map_of (peerByAddr (wudp (handlePing net pkt src w))) (addr_String src) = Some (b\<lparr>lastSeen := now w\<rparr>)"
proof -
  from ping_datagrams [of net pkt src w] d obtain ping b where
    u: "UnpackUdpPing pkt = Inr ping" and b: "map_of (peerByAddr (wudp w)) (addr_String src) = Some b"
      and ping: "peerID (the_peer w (bindPeer b)) = PingPeerID ping"
      and sent: "datagrams (handlePing net pkt src w) = datagrams w @ [(src, PackUdpPong (PingPeerID ping) [])]"
    by blast
  have "map_of (peerByAddr (wudp (handlePing net pkt src w))) (addr_String src) = Some (b\<lparr>lastSeen := now w\<rparr>)"
    by (simp add: handlePing_eq u b ping go_map)
  with that [OF u b _ _ sent] inv_binding [OF inv b] ping show thesis
    by simp
qed

text \<open>
  C29.  The listener is no amplifier and no reflector.  A datagram draws at most one reply, to the
  address it came from and no longer than the datagram, and only when it is authenticated: the
  welcome, when the datagram is a hello that names an attached peer and carries the very token
  minted for it; or the pong, when it is a keepalive from an address already bound, under the peer's
  current token, to the attached peer that it names.  After a reply the address is bound to that
  peer.
\<close>

theorem no_amplification:
  assumes inv: "udp_inv w"
  shows "let w' = receive net datagram src w; pkt = take maxDatagramSize datagram
    in datagrams w' = datagrams w \<or>
      (\<exists>reply pid p token. datagrams w' = datagrams w @ [(src, reply)] \<and> length reply \<le> length datagram \<and>
         map_of (peerByID (wudp w)) pid = Some p \<and> map_of (tokenByID (wudp w)) pid = Some token \<and>
         (reply = PackUdpWelcome pid [] \<and> UnpackUdpHello pkt = Inr \<lparr>HelloPeerID = pid, HelloToken = token\<rparr> \<or>
          reply = PackUdpPong pid [] \<and> UnpackUdpPing pkt = Inr \<lparr>PingPeerID = pid\<rparr> \<and>
            (\<exists>b. map_of (peerByAddr (wudp w)) (addr_String src) = Some b \<and> bindPeer b = p \<and> bindToken b = token)) \<and>
         (\<exists>b. map_of (peerByAddr (wudp w')) (addr_String src) = Some b \<and> bindPeer b = p \<and> bindToken b = token))"
proof (cases "datagrams (receive net datagram src w) = datagrams w")
  case False
  let ?pkt = "take maxDatagramSize datagram"
  consider (hello) "receive net datagram src w = handleHello net ?pkt src w"
    | (ping) "receive net datagram src w = handlePing net ?pkt src w"
    using False receive_cases by blast
  then show ?thesis
  proof cases
    case hello
    with False have "datagrams (handleHello net ?pkt src w) \<noteq> datagrams w"
      by simp
    from hello_reply [OF inv this] obtain h p where
      h: "UnpackUdpHello ?pkt = Inr h" "map_of (peerByID (wudp w)) (HelloPeerID h) = Some p"
        "map_of (tokenByID (wudp w)) (HelloPeerID h) = Some (HelloToken h)"
        "datagrams (handleHello net ?pkt src w) = datagrams w @ [(src, PackUdpWelcome (HelloPeerID h) [])]"
        "map_of (peerByAddr (wudp (handleHello net ?pkt src w))) (addr_String src) =
          Some \<lparr>bindPeer = p, bindAddr = src, bindToken = HelloToken h, lastSeen = now w\<rparr>"
      by blast
    have "UdpWelcomeSize \<le> length datagram" "h = \<lparr>HelloPeerID = HelloPeerID h, HelloToken = HelloToken h\<rparr>"
      using hello_length [OF h(1)] by (simp_all add: UdpHelloSize_def UdpWelcomeSize_def)
    with h show ?thesis
      unfolding hello Let_def by (auto simp: reply_lengths)
  next
    case ping
    with False have "datagrams (handlePing net ?pkt src w) \<noteq> datagrams w"
      by simp
    from ping_reply [OF inv this] obtain q b where
      q: "UnpackUdpPing ?pkt = Inr q" "map_of (peerByAddr (wudp w)) (addr_String src) = Some b"
        "map_of (peerByID (wudp w)) (PingPeerID q) = Some (bindPeer b)"
        "map_of (tokenByID (wudp w)) (PingPeerID q) = Some (bindToken b)"
        "datagrams (handlePing net ?pkt src w) = datagrams w @ [(src, PackUdpPong (PingPeerID q) [])]"
        "map_of (peerByAddr (wudp (handlePing net ?pkt src w))) (addr_String src) = Some (b\<lparr>lastSeen := now w\<rparr>)"
      by blast
    have "UdpPongSize \<le> length datagram" "q = \<lparr>PingPeerID = PingPeerID q\<rparr>"
      using ping_length [OF q(1)] by (simp_all add: UdpPingSize_def UdpPongSize_def)
    with q show ?thesis
      unfolding ping Let_def by (auto simp: reply_lengths)
  qed
qed (simp add: Let_def)

lemma Forward_room:
  "audioCh (room_at (fst (Forward r f L)) r') =
    (if r' = r \<and> length (audioCh (room_at L r)) < audioChBuffer then audioCh (room_at L r) @ [f] else audioCh (room_at L r'))"
  by (simp add: Forward_def)

text \<open>
  C5.  No spoofed audio reaches a room.  If a datagram adds anything to the queue of a room,
  it added exactly one frame: the datagram itself, a well-formed audio frame whose header names
  the peer that the source address is bound to; that peer is attached, not muted, and in that room.
\<close>

theorem no_spoofed_audio:
  assumes inv: "udp_inv w"
    and change: "audioCh (room_at (wlobby (receive net datagram src w)) r) \<noteq> audioCh (room_at (wlobby w) r)"
  shows "\<exists>b hdr payload. map_of (peerByAddr (wudp w)) (addr_String src) = Some b \<and>
    Unpack (take maxDatagramSize datagram) = Inr (hdr, payload) \<and> SourcePeerID hdr = peerID (the_peer w (bindPeer b)) \<and>
    map_of (peerByID (wudp w)) (SourcePeerID hdr) = Some (bindPeer b) \<and>
    \<not> muted (the_peer w (bindPeer b)) \<and> curRoom (the_peer w (bindPeer b)) = Some r \<and>
    audioCh (room_at (wlobby (receive net datagram src w)) r) = audioCh (room_at (wlobby w) r) @
      [\<lparr>frameSource = SourcePeerID hdr, framePayload = take maxDatagramSize datagram, frameDone = None\<rparr>]"
proof -
  let ?pkt = "take maxDatagramSize datagram"
  have r: "receive net datagram src w = handleAudio ?pkt src w"
    using change by (auto simp: receive_def Let_def split: if_splits)
  from change have "wlobby (handleAudio ?pkt src w) \<noteq> wlobby w"
    unfolding r by auto
  then obtain b where b: "audio_accepts ?pkt src w b" "handleAudio ?pkt src w = audio_pass ?pkt src b w"
    using handleAudio_eq [of ?pkt src w] by (auto simp: audio_refused_def)
  then obtain hdr payload where u: "Unpack ?pkt = Inr (hdr, payload)" "SourcePeerID hdr = peerID (the_peer w (bindPeer b))"
    and m: "map_of (peerByAddr (wudp w)) (addr_String src) = Some b"
    by (auto simp: audio_accepts_def)
  have "\<not> muted (the_peer w (bindPeer b)) \<and> curRoom (the_peer w (bindPeer b)) = Some r \<and>
      audioCh (room_at (wlobby (audio_pass ?pkt src b w)) r) = audioCh (room_at (wlobby w) r) @
        [\<lparr>frameSource = SourcePeerID hdr, framePayload = ?pkt, frameDone = None\<rparr>]"
    using change unfolding r b(2) u(2)
    by (auto simp: audio_pass_def Let_def Forward_room split: if_splits option.splits)
  with m u inv_binding [OF inv m] show ?thesis
    unfolding r b(2) by auto
qed

text \<open>
  C30.  Expiry is exact.  A sweep at time \<open>t\<close> removes precisely the bindings not heard of for
  15 seconds: the others keep their endpoint and token; the peer of a removed one has no UDP
  address and no token any more (so its audio goes over WebSocket and an old token cannot bind again), and
  each removal is counted once.
\<close>

theorem expiry_is_exact:
  assumes inv: "udp_inv w"
  shows "udp_inv (expireIdle t w) \<and>
    (\<forall>k b. map_of (peerByAddr (wudp (expireIdle t w))) k = Some b \<longleftrightarrow>
       map_of (peerByAddr (wudp w)) k = Some b \<and> t - lastSeen b < 15 * Second) \<and>
    (\<forall>k b. map_of (peerByAddr (wudp w)) k = Some b \<longrightarrow>
       (if t - lastSeen b < 15 * Second
        then the_peer (expireIdle t w) (bindPeer b) = the_peer w (bindPeer b) \<and>
          map_of (tokenByID (wudp (expireIdle t w))) (peerID (the_peer w (bindPeer b))) = Some (bindToken b)
        else udpAddr (the_peer (expireIdle t w) (bindPeer b)) = None \<and>
          map_of (tokenByID (wudp (expireIdle t w))) (peerID (the_peer w (bindPeer b))) = None)) \<and>
    counter_value (wmetrics (expireIdle t w)) ''nu_udp_bindings_expired_total'' =
      counter_value (wmetrics w) ''nu_udp_bindings_expired_total'' +
      of_nat (length (filter (\<lambda>kb. 15 * Second \<le> t - lastSeen (snd kb)) (peerByAddr (wudp w))))"
proof -
  note wf = inv_wf [OF inv]
  have mem: "(k, b) \<in> set (peerByAddr (wudp w)) \<longleftrightarrow> map_of (peerByAddr (wudp w)) k = Some b" for k b
    by (simp add: map_of_set_iff [OF wf])
  note s = sweep_spec [OF inv wf, of t, folded expireIdle_def, unfolded mem stale_def peerIdleTimeout_def, simplified]
  have uniq: "b' = b" if "map_of (peerByAddr (wudp w)) k = Some b" "map_of (peerByAddr (wudp w)) k' = Some b'"
      "bindPeer b' = bindPeer b" for k b k' b'
    using inv_same_peer [OF inv that(2,1,3)] that(1,2) by simp
  have uniq_id: "b' = b" if "map_of (peerByAddr (wudp w)) k = Some b" "map_of (peerByAddr (wudp w)) k' = Some b'"
      "peerID (the_peer w (bindPeer b')) = peerID (the_peer w (bindPeer b))" for k b k' b'
    using bound_by_id [OF inv that(2) _ that(3)] inv_binding [OF inv that(1)] uniq [OF that(1,2)] by simp
  have keep: "map_of (peerByAddr (wudp (expireIdle t w))) k = Some b \<longleftrightarrow>
      map_of (peerByAddr (wudp w)) k = Some b \<and> t - lastSeen b < 15 * Second" for k b
    using s by (cases "map_of (peerByAddr (wudp w)) k") auto
  have one: "if t - lastSeen b < 15 * Second
      then the_peer (expireIdle t w) (bindPeer b) = the_peer w (bindPeer b) \<and>
        map_of (tokenByID (wudp (expireIdle t w))) (peerID (the_peer w (bindPeer b))) = Some (bindToken b)
      else udpAddr (the_peer (expireIdle t w) (bindPeer b)) = None \<and>
        map_of (tokenByID (wudp (expireIdle t w))) (peerID (the_peer w (bindPeer b))) = None"
    if m: "map_of (peerByAddr (wudp w)) k = Some b" for k b
  proof -
    have 1: "(\<exists>k' b'. map_of (peerByAddr (wudp w)) k' = Some b' \<and> 15000000000 \<le> t - lastSeen b' \<and>
        bindPeer b' = bindPeer b) \<longleftrightarrow> 15000000000 \<le> t - lastSeen b"
      using uniq [OF m] m by blast
    have 2: "(\<exists>k' b'. map_of (peerByAddr (wudp w)) k' = Some b' \<and> 15000000000 \<le> t - lastSeen b' \<and>
        peerID (the_peer w (bindPeer b')) = peerID (the_peer w (bindPeer b))) \<longleftrightarrow> 15000000000 \<le> t - lastSeen b"
      using uniq_id [OF m] m by blast
    have "the_peer (expireIdle t w) (bindPeer b) =
        (if 15000000000 \<le> t - lastSeen b then (the_peer w (bindPeer b))\<lparr>udpAddr := None\<rparr> else the_peer w (bindPeer b))"
      using s unfolding 1 [symmetric] by blast
    moreover have "map_of (tokenByID (wudp (expireIdle t w))) (peerID (the_peer w (bindPeer b))) =
        (if 15000000000 \<le> t - lastSeen b then None else map_of (tokenByID (wudp w)) (peerID (the_peer w (bindPeer b))))"
      using s unfolding 2 [symmetric] by blast
    ultimately show ?thesis
      using inv_binding [OF inv m] by simp
  qed
  have i: "udp_inv (expireIdle t w)"
    and c: "counter_value (wmetrics (expireIdle t w)) ''nu_udp_bindings_expired_total'' =
      counter_value (wmetrics w) ''nu_udp_bindings_expired_total'' +
      of_nat (length (filter (\<lambda>kb. 15 * Second \<le> t - lastSeen (snd kb)) (peerByAddr (wudp w))))"
    using s by simp_all
  show ?thesis
    using i c keep one by blast
qed

text \<open>
  A session that ends leaves no trace in the data plane: the peer is attached no more, its
  token is gone, no address is bound to it, it has no UDP address and no UDP sender; every other
  binding and token stays.
\<close>

lemma detach_leaves_no_trace:
  assumes inv: "udp_inv w" and p: "map_of (peerByID (wudp w)) (peerID (the_peer w p)) = Some p"
  shows "map_of (peerByID (wudp (DetachPeer p w))) (peerID (the_peer w p)) = None \<and>
    map_of (tokenByID (wudp (DetachPeer p w))) (peerID (the_peer w p)) = None \<and>
    udpAddr (the_peer (DetachPeer p w) p) = None \<and> \<not> udpSend (the_peer (DetachPeer p w) p) \<and>
    (\<forall>k b. map_of (peerByAddr (wudp (DetachPeer p w))) k = Some b \<longleftrightarrow>
       map_of (peerByAddr (wudp w)) k = Some b \<and> bindPeer b \<noteq> p) \<and>
    (\<forall>pid. pid \<noteq> peerID (the_peer w p) \<longrightarrow>
       map_of (tokenByID (wudp (DetachPeer p w))) pid = map_of (tokenByID (wudp w)) pid)"
proof (cases "udpAddr (the_peer w p)")
  case None
  then have "bindPeer b \<noteq> p" if "map_of (peerByAddr (wudp w)) k = Some b" for k b
    using inv_binding [OF inv that] by auto
  with None show ?thesis
    by (auto simp: DetachPeer_eq [OF inv] go_map)
next
  case (Some a)
  from inv_addr [OF inv this] obtain b where b: "map_of (peerByAddr (wudp w)) (addr_String a) = Some b" "bindPeer b = p"
    by blast
  have "bindPeer b' \<noteq> p \<longleftrightarrow> k \<noteq> addr_String a" if "map_of (peerByAddr (wudp w)) k = Some b'" for k b'
    using inv_same_peer [OF inv that b(1)] b that by auto
  with Some show ?thesis
    by (auto simp: DetachPeer_eq [OF inv] go_map)
qed

section \<open>Egress\<close>

text \<open>
  C24.  One transport per frame.  Sending audio to a peer writes at most one frame altogether: a
  datagram to the peer's own endpoint if it is bound, heard of within 15 seconds, and the
  system takes it; otherwise, and exactly then, a binary WebSocket frame if a connection is
  attached (and its queue takes it).  A stale endpoint is unbound on the way.
\<close>

theorem one_transport_per_frame:
  assumes inv: "udp_inv w" and p: "map_of (peerByID (wudp w)) (peerID (the_peer w p)) = Some p"
  shows "let w' = fst (send_to net wsq p payload w);
      reachable = (\<lambda>a. udpAddr (the_peer w p) = Some a \<and> connOpen (wudp w) \<and>
        (\<exists>b. map_of (peerByAddr (wudp w)) (addr_String a) = Some b \<and> now w - lastSeen b < 15 * Second) \<and> net a payload)
    in (\<forall>a. reachable a \<longrightarrow> datagrams w' = datagrams w @ [(a, payload)] \<and> wsframes w' = wsframes w) \<and>
      ((\<nexists>a. reachable a) \<longrightarrow> datagrams w' = datagrams w \<and>
         wsframes w' = wsframes w @ (case send (the_peer w p) of None \<Rightarrow> []
           | Some c \<Rightarrow> if wsq c payload True then [(c, payload, True)] else [])) \<and>
      (\<forall>a b. udpAddr (the_peer w p) = Some a \<and> connOpen (wudp w) \<and>
         map_of (peerByAddr (wudp w)) (addr_String a) = Some b \<and> 15 * Second \<le> now w - lastSeen b \<longrightarrow>
         udpAddr (the_peer w' p) = None \<and> map_of (peerByAddr (wudp w')) (addr_String a) = None)"
proof -
  have udp: "udpSend (the_peer w p)"
    using inv_attached [OF inv p] by simp
  show ?thesis
  proof (cases "udpAddr (the_peer w p)")
    case None
    with udp show ?thesis
      by (auto simp: send_to_def SendBinary_def sender_eq [OF inv] ws_write_def Let_def split: option.splits)
  next
    case (Some a)
    from inv_addr [OF inv this] obtain b where b: "map_of (peerByAddr (wudp w)) (addr_String a) = Some b" "bindPeer b = p"
      by blast
    show ?thesis
    proof (cases "connOpen (wudp w) \<and> now w - lastSeen b < 15 * Second \<and> net a payload")
      case True
      with udp Some b show ?thesis
        by (simp add: send_to_def SendBinary_def sender_eq [OF inv] peerIdleTimeout_def Let_def)
    next
      case False
      with udp Some b show ?thesis
        by (auto simp: send_to_def SendBinary_def sender_eq [OF inv] peerIdleTimeout_def ws_write_def Let_def go_map
            udp_error_def split: option.splits)
    qed
  qed
qed

section \<open>The forwarder\<close>

lemma sender_frame [simp]:
  "room_at (wlobby (fst (makeUdpSender net p payload w))) = room_at (wlobby w)"
  "released (wlobby (fst (makeUdpSender net p payload w))) = released (wlobby w)"
  by (auto simp: makeUdpSender_def write_udp_def Let_def split: option.splits)

lemma send_to_frame [simp]:
  "room_at (wlobby (fst (send_to net wsq p payload w))) = room_at (wlobby w)"
  "released (wlobby (fst (send_to net wsq p payload w))) = released (wlobby w)"
  using sender_frame [of net p payload w]
  by (auto simp: send_to_def SendBinary_def ws_write_def Let_def simp del: sender_frame split: prod.splits option.splits)

lemma fan_frame [simp]:
  "room_at (wlobby (fold (\<lambda>p w. fst (send_to net wsq p payload w)) ps w)) = room_at (wlobby w)"
  "released (wlobby (fold (\<lambda>p w. fst (send_to net wsq p payload w)) ps w)) = released (wlobby w)"
  by (induction ps arbitrary: w) simp_all

lemma fanOut_frame [simp]:
  "room_at (wlobby (fanOut net wsq r f w)) = room_at (wlobby w)"
  "released (wlobby (fanOut net wsq r f w)) = released (wlobby w) @ (case frameDone f of None \<Rightarrow> [] | Some d \<Rightarrow> [d])"
  by (auto simp: fanOut_def Let_def split: option.splits)

text \<open>What can happen to a room's queue: a transport submits a frame, the loop takes a turn, the room closes.\<close>

datatype queue_event = Submit frame | Turn | Shutdown

fun forward_event ::
  "(UDPAddr \<Rightarrow> byte list \<Rightarrow> bool) \<Rightarrow> (conn_ref \<Rightarrow> byte list \<Rightarrow> bool \<Rightarrow> bool) \<Rightarrow> room_ref \<Rightarrow> queue_event \<Rightarrow> world \<Rightarrow> world" where
  "forward_event net wsq r (Submit f) w = w\<lparr>wlobby := fst (Forward r f (wlobby w))\<rparr>"
| "forward_event net wsq r Turn w = forward_turn net wsq r w"
| "forward_event net wsq r Shutdown w = w\<lparr>wlobby := close_room r (wlobby w)\<rparr>"

definition done_of :: "frame \<Rightarrow> nat list" where
  "done_of f = (case frameDone f of None \<Rightarrow> [] | Some d \<Rightarrow> [d])"

fun submitted :: "queue_event \<Rightarrow> nat list" where
  "submitted (Submit f) = done_of f"
| "submitted _ = []"

definition queued :: "room_ref \<Rightarrow> world \<Rightarrow> nat list" where
  "queued r w = concat (map done_of (audioCh (room_at (wlobby w) r)))"

lemma map_filter_done: "List.map_filter frameDone fs = concat (map done_of fs)"
  by (induction fs) (auto simp: List.map_filter_def done_of_def split: option.splits)

lemma event_account:
  "mset (released (wlobby (forward_event net wsq r e w))) + mset (queued r (forward_event net wsq r e w)) =
     mset (released (wlobby w)) + mset (queued r w) + mset (submitted e) \<and>
   (length (audioCh (room_at (wlobby w) r)) \<le> audioChBuffer \<longrightarrow>
      length (audioCh (room_at (wlobby (forward_event net wsq r e w)) r)) \<le> audioChBuffer)"
proof (cases e)
  case (Submit f)
  then show ?thesis
    by (auto simp: Forward_def queued_def done_of_def)
next
  case Turn
  then show ?thesis
    by (auto simp: forward_turn_def take_frame_def queued_def done_of_def split: list.splits option.splits)
next
  case Shutdown
  then show ?thesis
    by (auto simp: queued_def map_filter_done)
qed

text \<open>
  C28.  No audio buffer is lost or given back twice.  Whatever is submitted to a room, fanned out,
  dropped because the queue is full, or drained when the room closes: the buffers released, with
  those still queued, are exactly the buffers submitted, each as often as it was submitted; and the
  queue never exceeds its 512 frames.
\<close>

theorem every_frame_released_once:
  assumes "queued r w = []" "length (audioCh (room_at (wlobby w) r)) \<le> audioChBuffer"
  shows "mset (released (wlobby (fold (forward_event net wsq r) es w))) + mset (queued r (fold (forward_event net wsq r) es w)) =
     mset (released (wlobby w)) + mset (concat (map submitted es)) \<and>
    length (audioCh (room_at (wlobby (fold (forward_event net wsq r) es w)) r)) \<le> 512"
proof -
  have "mset (released (wlobby (fold (forward_event net wsq r) es w))) + mset (queued r (fold (forward_event net wsq r) es w)) =
      mset (released (wlobby w)) + mset (queued r w) + mset (concat (map submitted es)) \<and>
    length (audioCh (room_at (wlobby (fold (forward_event net wsq r) es w)) r)) \<le> audioChBuffer"
    using assms(2)
  proof (induction es arbitrary: w)
    case (Cons e es)
    with event_account [of net wsq r e w] Cons.IH [of "forward_event net wsq r e w"] show ?case
      by simp
  qed simp
  with assms(1) show ?thesis
    by (simp add: audioChBuffer_def)
qed

text \<open>
  What one recipient of a payload gets, read off the state before the fan-out: a datagram if its
  endpoint is bound, fresh and reachable, a binary frame on its connection otherwise.
\<close>

definition route :: "(UDPAddr \<Rightarrow> byte list \<Rightarrow> bool) \<Rightarrow> byte list \<Rightarrow> world \<Rightarrow> peer_ref \<Rightarrow> UDPAddr option" where
  "route net payload w p =
     (case udpAddr (the_peer w p) of
        None \<Rightarrow> None
      | Some a \<Rightarrow>
          (case map_of (peerByAddr (wudp w)) (addr_String a) of
             None \<Rightarrow> None
           | Some b \<Rightarrow>
               if udpSend (the_peer w p) \<and> connOpen (wudp w) \<and> now w - lastSeen b < 15 * Second \<and> net a payload
               then Some a else None))"

definition sent_udp ::
  "(UDPAddr \<Rightarrow> byte list \<Rightarrow> bool) \<Rightarrow> byte list \<Rightarrow> world \<Rightarrow> peer_ref \<Rightarrow> (UDPAddr \<times> byte list) list" where
  "sent_udp net payload w p = (case route net payload w p of None \<Rightarrow> [] | Some a \<Rightarrow> [(a, payload)])"

definition sent_ws ::
  "(UDPAddr \<Rightarrow> byte list \<Rightarrow> bool) \<Rightarrow> (conn_ref \<Rightarrow> byte list \<Rightarrow> bool \<Rightarrow> bool) \<Rightarrow> byte list \<Rightarrow> world \<Rightarrow> peer_ref \<Rightarrow>
    (conn_ref \<times> byte list \<times> bool) list" where
  "sent_ws net wsq payload w p =
     (case (route net payload w p, send (the_peer w p)) of
        (None, Some c) \<Rightarrow> if wsq c payload True then [(c, payload, True)] else []
      | _ \<Rightarrow> [])"

lemma send_to_output:
  assumes inv: "udp_inv w"
  shows "datagrams (fst (send_to net wsq p payload w)) = datagrams w @ sent_udp net payload w p \<and>
    wsframes (fst (send_to net wsq p payload w)) = wsframes w @ sent_ws net wsq payload w p"
proof (cases "udpAddr (the_peer w p)")
  case None
  then show ?thesis
    by (auto simp: send_to_def SendBinary_def sender_eq [OF inv] ws_write_def sent_udp_def sent_ws_def route_def
        Let_def split: option.splits)
next
  case (Some a)
  from inv_addr [OF inv this] obtain b where "map_of (peerByAddr (wudp w)) (addr_String a) = Some b"
    by blast
  with Some show ?thesis
    by (auto simp: send_to_def SendBinary_def sender_eq [OF inv] ws_write_def sent_udp_def sent_ws_def route_def
        peerIdleTimeout_def udp_error_def dropped_def Let_def split: option.splits)
qed

text \<open>Sending to one peer leaves the way to another as it is.\<close>

lemma send_to_other:
  assumes inv: "udp_inv w" and q: "q \<noteq> p"
  shows "sent_udp net payload (fst (send_to net' wsq p payload' w)) q = sent_udp net payload w q \<and>
    sent_ws net wsq payload (fst (send_to net' wsq p payload' w)) q = sent_ws net wsq payload w q"
proof -
  let ?w = "fst (send_to net' wsq p payload' w)"
  have same: "the_peer ?w q = the_peer w q" "connOpen (wudp ?w) = connOpen (wudp w)" "now ?w = now w"
    using q by (auto simp: send_to_def SendBinary_def sender_eq [OF inv] ws_write_def udp_error_def dropped_def Let_def
        split: option.splits)
  have "map_of (peerByAddr (wudp ?w)) (addr_String a) = map_of (peerByAddr (wudp w)) (addr_String a)"
    if a: "udpAddr (the_peer w q) = Some a" for a
  proof -
    from inv_addr [OF inv a] obtain b where b: "map_of (peerByAddr (wudp w)) (addr_String a) = Some b" "bindPeer b = q"
      by blast
    have "addr_String a \<noteq> addr_String a'" if "udpAddr (the_peer w p) = Some a'" for a'
      using inv_addr [OF inv that] b q by auto
    then show ?thesis
      by (auto simp: send_to_def SendBinary_def sender_eq [OF inv] ws_write_def udp_error_def dropped_def go_map Let_def
          split: option.splits)
  qed
  then have "route net payload ?w q = route net payload w q"
    by (auto simp: route_def same split: option.split)
  then show ?thesis
    by (simp add: sent_udp_def sent_ws_def same)
qed

lemma fan_output:
  assumes "udp_inv w" "distinct ps"
  shows "datagrams (fold (\<lambda>p w. fst (send_to net wsq p payload w)) ps w) = datagrams w @ concat (map (sent_udp net payload w) ps) \<and>
    wsframes (fold (\<lambda>p w. fst (send_to net wsq p payload w)) ps w) = wsframes w @ concat (map (sent_ws net wsq payload w) ps)"
  using assms
proof (induction ps arbitrary: w)
  case (Cons p ps)
  let ?w = "fst (send_to net wsq p payload w)"
  have "sent_udp net payload ?w q = sent_udp net payload w q \<and> sent_ws net wsq payload ?w q = sent_ws net wsq payload w q"
    if "q \<in> set ps" for q
    using that Cons.prems by (intro send_to_other) auto
  then have "map (sent_udp net payload ?w) ps = map (sent_udp net payload w) ps"
    "map (sent_ws net wsq payload ?w) ps = map (sent_ws net wsq payload w) ps"
    by simp_all
  with Cons.IH [of ?w] Cons.prems send_to_output [OF Cons.prems(1), of net wsq p payload] show ?case
    by (simp add: inv_send_to)
qed simp

text \<open>The recipients, in terms of the room's members.\<close>

lemma recipients_members:
  assumes inv: "lobby_inv S" and r: "r < next_room (lob S)" and ps: "recipients r f (lob S) = Some ps"
  shows "distinct ps \<and> (\<forall>p. p \<in> set ps \<longleftrightarrow>
    map_of (peers (room_at (lob S) r)) (peerID (peer_at (lob S) p)) = Some p \<and>
    peerID (peer_at (lob S) p) \<noteq> frameSource f \<and> IsSubscribed (peer_at (lob S) p) (frameSource f))"
proof -
  let ?ps = "peers (room_at (lob S) r)"
  have wf: "wf_map ?ps"
    using inv_room [OF inv r] by (simp add: room_ok_def Let_def)
  have key: "pid = peerID (peer_at (lob S) p)" if "(pid, p) \<in> set ?ps" for pid p
    using members_entry [OF inv_members [OF inv] r, of pid p] that wf by (simp add: map_of_set_iff)
  have "map fst ?ps = map (\<lambda>p. peerID (peer_at (lob S) p)) (map snd ?ps)"
    using key by auto
  with wf have d: "distinct (map snd ?ps)"
    by (metis distinct_map)
  have ps: "ps = filter (\<lambda>p. peerID (peer_at (lob S) p) \<noteq> frameSource f \<and>
      IsSubscribed (peer_at (lob S) p) (frameSource f)) (map snd ?ps)"
    using ps by (auto simp: recipients_def Let_def split: option.splits if_splits)
  have mem: "p \<in> set (map snd ?ps) \<longleftrightarrow> map_of ?ps (peerID (peer_at (lob S) p)) = Some p" for p
    using key by (force simp: map_of_set_iff [OF wf])
  show ?thesis
    using d mem by (simp add: ps)
qed

lemma recipients_None:
  "recipients r f L = None \<longleftrightarrow>
    (\<nexists>s. map_of (peers (room_at L r)) (frameSource f) = Some s \<and> \<not> muted (peer_at L s))"
  by (auto simp: recipients_def Let_def split: option.split)

text \<open>
  C23.  Who hears a frame, decided when it is fanned out.  The hearers are nobody unless the source
  is at that moment a member of the room and not muted; then they are exactly the other members
  that subscribe to the source (by default all).  Each hearer is sent the payload once, over its
  one transport; nothing else is written to any address or connection.
\<close>

theorem fan_out_reaches_subscribers:
  assumes "reachable unicode max_rooms max_peers S" "r < next_room (lob S)" "wlobby w = lob S" "udp_inv w"
  shows "\<exists>hearers. distinct hearers \<and>
    (\<forall>p. p \<in> set hearers \<longleftrightarrow>
       (\<exists>s. map_of (peers (room_at (lob S) r)) (frameSource f) = Some s \<and> \<not> muted (peer_at (lob S) s)) \<and>
       map_of (peers (room_at (lob S) r)) (peerID (peer_at (lob S) p)) = Some p \<and>
       peerID (peer_at (lob S) p) \<noteq> frameSource f \<and> IsSubscribed (peer_at (lob S) p) (frameSource f)) \<and>
    datagrams (fanOut net wsq r f w) = datagrams w @ concat (map (sent_udp net (framePayload f) w) hearers) \<and>
    wsframes (fanOut net wsq r f w) = wsframes w @ concat (map (sent_ws net wsq (framePayload f) w) hearers)"
proof (cases "recipients r f (lob S)")
  case None
  then show ?thesis
    using recipients_None [of r f "lob S"] by (intro exI [of _ "[]"]) (simp add: fanOut_def assms(3))
next
  case (Some ps)
  note members = recipients_members [OF reachable_inv [OF assms(1)] assms(2) Some]
  have "\<exists>s. map_of (peers (room_at (lob S) r)) (frameSource f) = Some s \<and> \<not> muted (peer_at (lob S) s)"
    using Some recipients_None [of r f "lob S"] by auto
  with members fan_output [OF assms(4), of ps net wsq "framePayload f"] show ?thesis
    by (intro exI [of _ ps]) (simp add: fanOut_def assms(3) Some Let_def)
qed

section \<open>A concrete run\<close>

text \<open>
  The peer of the lobby's run, in its room, is minted a token and attached, the socket is bound,
  and its hello arrives from 10.0.0.7:5000.
\<close>

definition demo_addr :: UDPAddr where
  "demo_addr = \<lparr>IP = [10, 0, 0, 7], Port = 5000, Zone = ''''\<rparr>"

definition demo_token :: token where
  "demo_token = of_bytes [9]"

abbreviation demo_id :: uuid where
  "demo_id \<equiv> of_bytes [1]"

definition demo_hello :: "byte list" where
  "demo_hello = PackUdpHello \<lparr>HelloPeerID = demo_id, HelloToken = demo_token\<rparr> []"

abbreviation all_net :: "UDPAddr \<Rightarrow> byte list \<Rightarrow> bool" where
  "all_net \<equiv> \<lambda>_ _. True"

abbreviation all_ws :: "conn_ref \<Rightarrow> byte list \<Rightarrow> bool \<Rightarrow> bool" where
  "all_ws \<equiv> \<lambda>_ _ _. True"

definition demo_session :: world where
  "demo_session = on_udp Listen (AttachPeer 0 (fst (MintToken (Some demo_token) demo_id
     ((world0 2 2 10 100)\<lparr>wlobby := lob demo_joined\<rparr>))))"

definition demo_bound :: world where
  "demo_bound = receive all_net demo_hello demo_addr demo_session"

lemma demo_peers:
  "peer_at (lob demo_joined) =
     (peer_at (NewRegistry 2 2))(0 := (NewPeer demo_id ''ann'' '''' 0)\<lparr>curRoom := Some 0\<rparr>)"
proof -
  have 1: "peer_at (lob demo_connected) = (peer_at (NewRegistry 2 2))(0 := NewPeer demo_id ''ann'' '''' 0)"
    by (simp add: demo_connected_def start_def NewRegistry_def)
  have 2: "peer_at (lob demo_creating) = peer_at (lob demo_connected)"
    by (simp add: demo_creating_def Create_locked_def Let_def)
  have 3: "peer_at (lob demo_created) = peer_at (lob demo_creating)"
    by (simp add: demo_created_def)
  have 4: "peer_at (lob demo_added) = peer_at (lob demo_created)"
    by (simp add: demo_added_def Add_locked_eq Let_def)
  have 5: "peer_at (lob demo_added) = (peer_at (NewRegistry 2 2))(0 := NewPeer demo_id ''ann'' '''' 0)"
    by (simp only: 4 3 2 1)
  have "peer_at (lob demo_joined) = (peer_at (lob demo_added))(0 := setRoom (Some 0) (peer_at (lob demo_added) 0))"
    by (simp add: demo_joined_def upd_peer_def)
  also have "\<dots> = (peer_at (NewRegistry 2 2))(0 := (NewPeer demo_id ''ann'' '''' 0)\<lparr>curRoom := Some 0\<rparr>)"
    unfolding 5 by simp
  finally show ?thesis .
qed

lemma demo_lobby:
  "next_peer (lob demo_joined) = 1" "clock (lob demo_joined) = 0"
  "peer_at (lob demo_joined) 0 = (NewPeer demo_id ''ann'' '''' 0)\<lparr>curRoom := Some 0\<rparr>"
  "udpAddr (peer_at (lob demo_joined) p) = None"
  "audioCh (room_at (lob demo_joined) 0) = []"
proof -
  have "clock (lob demo_added) = 0" "audioCh (room_at (lob demo_added) 0) = []"
    by (simp_all add: demo_added_def Add_locked_eq admits_def Let_def)
  then show "clock (lob demo_joined) = 0" "audioCh (room_at (lob demo_joined) 0) = []"
    by (simp_all add: demo_joined_def)
  show "udpAddr (peer_at (lob demo_joined) p) = None"
    by (simp add: demo_peers NewRegistry_def)
  show "peer_at (lob demo_joined) 0 = (NewPeer demo_id ''ann'' '''' 0)\<lparr>curRoom := Some 0\<rparr>"
    by (simp add: demo_peers)
  show "next_peer (lob demo_joined) = 1"
    by (simp add: demo_joined_def)
qed

lemma hello_charged_limits [simp]:
  "audioLimiter (wudp (hello_charged pkt w)) = audioLimiter (wudp w)"
  "audioFramesPerPeerPerSec (wudp (hello_charged pkt w)) = audioFramesPerPeerPerSec (wudp w)"
  by (auto simp: hello_charged_def hello_limited_def Let_def split: sum.splits option.splits prod.splits)

lemma demo_session_udp [simp]:
  "peerByAddr (wudp demo_session) = []" "peerByID (wudp demo_session) = [(demo_id, 0)]"
  "tokenByID (wudp demo_session) = [(demo_id, demo_token)]" "connOpen (wudp demo_session)"
  "helloLimiter (wudp demo_session) = New" "helloPerIPPerMinute (wudp demo_session) = 10"
  "audioLimiter (wudp demo_session) = New" "audioFramesPerPeerPerSec (wudp demo_session) = 100"
  by (simp_all add: demo_session_def AttachPeer_eq listed_def MintToken_def world0_def NewServer_def Listen_def
      demo_lobby)

lemma demo_session_lobby [simp]:
  "the_peer demo_session 0 = (NewPeer demo_id ''ann'' '''' 0)\<lparr>curRoom := Some 0, udpSend := True\<rparr>"
  "next_peer (wlobby demo_session) = 1" "clock (wlobby demo_session) = 0"
  "room_at (wlobby demo_session) = room_at (lob demo_joined)"
  "datagrams demo_session = []" "wsframes demo_session = []"
  by (simp_all add: demo_session_def AttachPeer_eq listed_def MintToken_def world0_def demo_lobby)

lemma demo_session_run: "(udp_step all_net all_ws)\<^sup>*\<^sup>* (world0 2 2 10 100) demo_session"
proof -
  define w1 where "w1 = (world0 2 2 10 100)\<lparr>wlobby := lob demo_joined\<rparr>"
  define w2 where "w2 = fst (MintToken (Some demo_token) demo_id w1)"
  have 1: "udp_step all_net all_ws (world0 2 2 10 100) w1"
    unfolding w1_def by (rule udp_step.lobby) (simp_all add: world0_def NewRegistry_def demo_lobby)
  have 2: "udp_step all_net all_ws w1 w2"
    unfolding w2_def by (rule udp_step.mint) (simp add: w1_def world0_def NewServer_def)
  have w2: "peerByID (wudp w2) = []" "wlobby w2 = lob demo_joined"
    by (simp_all add: w2_def w1_def MintToken_def world0_def NewServer_def)
  have 3: "udp_step all_net all_ws w2 (AttachPeer 0 w2)"
    by (rule udp_step.attach) (simp_all add: w2 demo_lobby(1))
  have 4: "udp_step all_net all_ws (AttachPeer 0 w2) demo_session"
    unfolding demo_session_def w2_def w1_def by (rule udp_step.listen)
  show ?thesis
    by (rule converse_rtranclp_into_rtranclp, rule 1, rule converse_rtranclp_into_rtranclp, rule 2,
      rule converse_rtranclp_into_rtranclp, rule 3, rule converse_rtranclp_into_rtranclp, rule 4,
      rule rtranclp.rtrancl_refl)
qed

lemma demo_session_inv: "udp_inv demo_session"
  by (rule udp.run_keeps [OF demo_session_run world0_inv])

lemma demo_hello_ok: "UnpackUdpHello demo_hello = Inr \<lparr>HelloPeerID = demo_id, HelloToken = demo_token\<rparr>"
  by (simp add: demo_hello_def UnpackUdpHello_PackUdpHello)

lemma demo_hello_whole: "take maxDatagramSize demo_hello = demo_hello"
  using hello_length [OF demo_hello_ok] by (simp add: maxDatagramSize_def UdpHelloSize_def)

lemma demo_ping: "UnpackUdpPing demo_hello \<noteq> Inr q"
  using hello_length [OF demo_hello_ok] ping_length [of demo_hello q] by (auto simp: UdpHelloSize_def UdpPingSize_def)

lemma demo_verdict: "hello_verdict demo_hello demo_addr demo_session = (Accepted, 0, demo_token)"
  by (simp add: hello_verdict_def demo_hello_ok hello_limited_def limiter_eval Let_def)

lemma demo_receive: "receive all_net demo_hello demo_addr demo_session = handleHello all_net demo_hello demo_addr demo_session"
proof -
  have "demo_hello \<noteq> [] \<and> hd demo_hello = UdpFrameTypeHello"
    using UnpackUdpHello_tag [OF demo_hello_ok] by (simp add: hd_conv_nth)
  then show ?thesis
    by (simp add: receive_def Let_def demo_hello_whole UdpFrameTypeHello_def AudioFrameType_def)
qed

definition demo_binding :: binding where
  "demo_binding = \<lparr>bindPeer = 0, bindAddr = demo_addr, bindToken = demo_token, lastSeen = 0\<rparr>"

lemma demo_bound_get [simp]:
  "peerByAddr (wudp demo_bound) = [(addr_String demo_addr, demo_binding)]"
  "peerByID (wudp demo_bound) = [(demo_id, 0)]" "connOpen (wudp demo_bound)"
  "tokenByID (wudp demo_bound) = [(demo_id, demo_token)]"
  "the_peer demo_bound 0 = (NewPeer demo_id ''ann'' '''' 0)\<lparr>curRoom := Some 0, udpSend := True, udpAddr := Some demo_addr\<rparr>"
  "clock (wlobby demo_bound) = 0"
  "room_at (wlobby demo_bound) = room_at (lob demo_joined)"
  "audioLimiter (wudp demo_bound) = New" "audioFramesPerPeerPerSec (wudp demo_bound) = 100"
  by (simp_all add: demo_bound_def demo_receive handleHello_eq demo_verdict bound_def demo_binding_def)

lemma demo_bound_run: "(udp_step all_net all_ws)\<^sup>*\<^sup>* (world0 2 2 10 100) demo_bound"
  using demo_session_run udp_step.datagram unfolding demo_bound_def by (rule rtranclp.rtrancl_into_rtrancl)

lemma demo_bound_inv: "udp_inv demo_bound"
  by (rule udp.run_keeps [OF demo_bound_run world0_inv])

theorem endpoints_are_paired_witness:
  "map_of (tokenByID (wudp demo_bound)) demo_id = Some demo_token"
  using endpoints_are_paired [OF demo_bound_run, of "addr_String demo_addr" demo_binding]
  by (simp add: demo_binding_def)

theorem only_its_token_binds_a_peer_witness:
  "\<exists>h :: UdpHelloFrame. UnpackUdpHello demo_hello = Inr h \<and> HelloToken h = demo_token"
proof -
  have "udpAddr (the_peer (receive all_net demo_hello demo_addr demo_session) 0) \<noteq> udpAddr (the_peer demo_session 0)"
    using demo_bound_get(5) by (simp add: demo_bound_def)
  from only_its_token_binds_a_peer [OF demo_session_inv this] show ?thesis
    by (auto simp: demo_hello_whole)
qed

theorem no_amplification_witness:
  "datagrams demo_bound = [(demo_addr, PackUdpWelcome demo_id [])] \<and> length (PackUdpWelcome demo_id []) \<le> length demo_hello"
proof -
  have "datagrams demo_bound \<noteq> []"
    by (simp add: demo_bound_def demo_receive handleHello_eq demo_verdict demo_hello_ok)
  with no_amplification [OF demo_session_inv, of all_net demo_hello demo_addr] show ?thesis
    by (auto simp: Let_def demo_bound_def [symmetric] demo_hello_whole demo_hello_ok demo_ping)
qed

theorem expiry_is_exact_witness:
  "map_of (peerByAddr (wudp (expireIdle (15 * Second) demo_bound))) (addr_String demo_addr) = None"
  using expiry_is_exact [OF demo_bound_inv, of "15 * Second"]
  by (cases "map_of (peerByAddr (wudp (expireIdle (15 * Second) demo_bound))) (addr_String demo_addr)")
    (auto simp: demo_binding_def)

theorem one_transport_per_frame_witness:
  "datagrams (fst (send_to all_net all_ws 0 [1, 2, 3] demo_bound)) = datagrams demo_bound @ [(demo_addr, [1, 2, 3])]"
  using one_transport_per_frame [OF demo_bound_inv, of 0 all_net all_ws "[1, 2, 3]"]
  by (simp add: demo_binding_def Let_def)

theorem every_frame_released_once_witness:
  "length (audioCh (room_at (wlobby (fold (forward_event all_net all_ws 0)
     [Submit \<lparr>frameSource = demo_id, framePayload = [1], frameDone = Some 4\<rparr>, Turn, Shutdown] demo_bound)) 0)) \<le> 512"
  using every_frame_released_once [of 0 demo_bound all_net all_ws
      "[Submit \<lparr>frameSource = demo_id, framePayload = [1], frameDone = Some 4\<rparr>, Turn, Shutdown]"]
  by (simp add: queued_def demo_lobby)

text \<open>A second peer connects, joins the room, and has connection 7 attached.\<close>

definition demo_second :: sched where
  "demo_second = demo_joined\<lparr>lob := (lob demo_joined)\<lparr>peer_at := (peer_at (lob demo_joined))
     (1 := NewPeer (of_bytes [2]) ''bob'' '''' 0), next_peer := 2\<rparr>\<rparr>"

definition demo_second_added :: sched where
  "demo_second_added = goes 1 (Added 0) (fst (Add_locked 0 1 (lob demo_second))) demo_second"

definition demo_second_joined :: sched where
  "demo_second_joined = goes 1 Idle (upd_peer 1 (setRoom (Some 0)) (lob demo_second_added)) demo_second_added"

definition demo_duet :: sched where
  "demo_duet = demo_second_joined\<lparr>lob := upd_peer 1 (AttachSender 7) (lob demo_second_joined)\<rparr>"

lemma demo_room_admits: "admits 0 (lob demo_second)"
proof -
  have "admits 0 (lob demo_created)" "MaxPeers (room_at (lob demo_created) 0) = 2"
    by (simp_all add: admits_def)
  then have "admits 0 (lob demo_added)"
    by (simp add: demo_added_def Add_locked_eq admits_def Let_def)
  then show ?thesis
    by (simp add: demo_second_def demo_joined_def admits_def)
qed

lemma demo_second_Add: "\<exists>others. Add_locked 0 1 (lob demo_second) = (lob demo_second_added, Inr others)"
  using demo_room_admits by (simp add: demo_second_added_def Add_locked_eq Let_def)

lemma demo_duet_run: "reachable (\<lambda>s. s) 2 2 demo_duet"
proof -
  have 1: "lobby_step (\<lambda>s. s) demo_joined demo_second"
    using lobby_step.connect [of demo_joined "of_bytes [2]" "\<lambda>s. s" "''bob''" "''''"]
    by (simp add: demo_second_def demo_lobby numeral_2_eq_2)
  obtain others where "Add_locked 0 1 (lob demo_second) = (lob demo_second_added, Inr others)"
    using demo_second_Add by blast
  then have 2: "lobby_step (\<lambda>s. s) demo_second demo_second_added"
    using lobby_step.join [of 1 demo_second 0 "lob demo_second_added" others "\<lambda>s. s"]
    by (simp add: demo_second_added_def demo_second_def demo_joined_def)
  have 3: "lobby_step (\<lambda>s. s) demo_second_added demo_second_joined"
    unfolding demo_second_joined_def by (rule lobby_step.joined) (simp add: demo_second_added_def)
  have 4: "lobby_step (\<lambda>s. s) demo_second_joined demo_duet"
    unfolding demo_duet_def by (rule lobby_step.attribute) simp_all
  from demo_run(2) 1 2 3 4 show ?thesis
    unfolding reachable_def by (meson rtranclp.rtrancl_into_rtrancl)
qed

lemma demo_duet_get:
  "next_room (lob demo_duet) = 1"
  "peers (room_at (lob demo_duet) 0) = [(demo_id, 0), (of_bytes [2], 1)]"
  "peer_at (lob demo_duet) 0 = (NewPeer demo_id ''ann'' '''' 0)\<lparr>curRoom := Some 0\<rparr>"
  "peer_at (lob demo_duet) 1 = (NewPeer (of_bytes [2]) ''bob'' '''' 0)\<lparr>curRoom := Some 0, send := Some 7\<rparr>"
  "udpAddr (peer_at (lob demo_duet) p) = None"
  using demo_room_admits
  by (simp_all add: demo_duet_def demo_second_joined_def demo_second_added_def Add_locked_eq demo_second_def
      demo_lobby Let_def)

definition demo_duet_world :: world where
  "demo_duet_world = (world0 2 2 10 100)\<lparr>wlobby := lob demo_duet\<rparr>"

lemma demo_duet_inv: "udp_inv demo_duet_world"
  by (simp add: udp_inv_def demo_duet_world_def world0_def NewServer_def demo_duet_get(5))

lemma demo_duet_sent:
  "sent_udp all_net [1] demo_duet_world (Suc 0) = []" "sent_ws all_net all_ws [1] demo_duet_world (Suc 0) = [(7, [1], True)]"
  "datagrams demo_duet_world = []" "wsframes demo_duet_world = []"
proof -
  have "route all_net [1] demo_duet_world (Suc 0) = None"
    by (simp add: route_def demo_duet_world_def demo_duet_get(5))
  moreover have "send (the_peer demo_duet_world (Suc 0)) = Some 7"
    using demo_duet_get(4) by (simp add: demo_duet_world_def)
  ultimately show "sent_udp all_net [1] demo_duet_world (Suc 0) = []"
    "sent_ws all_net all_ws [1] demo_duet_world (Suc 0) = [(7, [1], True)]"
    by (simp_all add: sent_udp_def sent_ws_def)
qed (simp_all add: demo_duet_world_def world0_def)

abbreviation demo_hears :: "peer_ref \<Rightarrow> bool" where
  "demo_hears p \<equiv>
     (\<exists>s. map_of (peers (room_at (lob demo_duet) 0)) demo_id = Some s \<and> \<not> muted (peer_at (lob demo_duet) s)) \<and>
     map_of (peers (room_at (lob demo_duet) 0)) (peerID (peer_at (lob demo_duet) p)) = Some p \<and>
     peerID (peer_at (lob demo_duet) p) \<noteq> demo_id \<and> IsSubscribed (peer_at (lob demo_duet) p) demo_id"

lemma demo_hears_second: "demo_hears (Suc 0)"
  by (simp add: demo_duet_get(2,3) demo_duet_get(4) [unfolded One_nat_def] IsSubscribed_def)

lemma demo_hears_only: "demo_hears p \<Longrightarrow> p = Suc 0"
  unfolding demo_duet_get(2) by (auto split: if_splits)

lemma one_hearer:
  assumes "distinct ps" "\<And>q. q \<in> set ps \<longleftrightarrow> q = x"
  shows "ps = [x]"
proof -
  have "set ps = {x}"
    using assms(2) by auto
  with distinct_card [OF assms(1)] have "length ps = Suc 0"
    by simp
  with \<open>set ps = {x}\<close> show ?thesis
    by (cases ps) auto
qed

text \<open>The first peer's frame goes to the second, on its connection, and to nobody else.\<close>

theorem fan_out_reaches_subscribers_witness:
  "let w' = fanOut all_net all_ws 0 \<lparr>frameSource = demo_id, framePayload = [1], frameDone = None\<rparr> demo_duet_world
   in wsframes w' = [(7, [1], True)] \<and> datagrams w' = []"
proof -
  let ?f = "\<lparr>frameSource = demo_id, framePayload = [1], frameDone = None\<rparr>"
  have r: "0 < next_room (lob demo_duet)" and L: "wlobby demo_duet_world = lob demo_duet"
    by (simp_all add: demo_duet_get demo_duet_world_def)
  from fan_out_reaches_subscribers [OF demo_duet_run r L demo_duet_inv, of ?f all_net all_ws, unfolded frame.select_convs]
  obtain hearers where h: "distinct hearers" and m: "\<And>p. p \<in> set hearers \<longleftrightarrow> demo_hears p"
    and out: "datagrams (fanOut all_net all_ws 0 ?f demo_duet_world) =
      datagrams demo_duet_world @ concat (map (sent_udp all_net [1] demo_duet_world) hearers)"
      "wsframes (fanOut all_net all_ws 0 ?f demo_duet_world) =
      wsframes demo_duet_world @ concat (map (sent_ws all_net all_ws [1] demo_duet_world) hearers)"
    by (elim exE conjE) (rule that, assumption, erule spec, assumption+)
  have "hearers = [Suc 0]"
    by (rule one_hearer [OF h]) (use m demo_hears_second demo_hears_only in blast)
  with out show ?thesis
    by (simp add: demo_duet_sent Let_def)
qed

text \<open>The bound peer sends an audio frame of two bytes.\<close>

definition demo_audio :: "byte list" where
  "demo_audio = audio_layout demo_id 1 2 [6, 7]"

lemma demo_audio_ok: "Unpack demo_audio = Inr (\<lparr>SourcePeerID = demo_id, Seq = 1, Length = 2\<rparr>, [6, 7])"
  using Unpack_layout [of "[6, 7]" demo_id 1] by (simp add: demo_audio_def MaxAudioPayload_def)

theorem no_spoofed_audio_witness:
  "audioCh (room_at (wlobby (receive all_net demo_audio demo_addr demo_bound)) 0) =
     [\<lparr>frameSource = demo_id, framePayload = demo_audio, frameDone = None\<rparr>]"
proof -
  have shape: "take maxDatagramSize demo_audio = demo_audio" "demo_audio \<noteq> []" "hd demo_audio = AudioFrameType"
    by (simp_all add: demo_audio_def audio_layout_def maxDatagramSize_def)
  have lim: "snd (audio_limited demo_bound demo_id)"
    by (simp add: audio_limited_def limiter_eval)
  have acc: "audio_accepts demo_audio demo_addr demo_bound demo_binding"
    by (simp add: audio_accepts_def demo_binding_def lim demo_audio_ok)
  then have "handleAudio demo_audio demo_addr demo_bound = audio_pass demo_audio demo_addr demo_binding demo_bound"
    using handleAudio_eq [of demo_audio demo_addr demo_bound] by (auto simp: audio_accepts_def)
  moreover have "receive all_net demo_audio demo_addr demo_bound = handleAudio demo_audio demo_addr demo_bound"
    using shape by (simp add: receive_def Let_def)
  ultimately have q: "audioCh (room_at (wlobby (receive all_net demo_audio demo_addr demo_bound)) 0) \<noteq>
      audioCh (room_at (wlobby demo_bound) 0)"
    by (simp add: audio_pass_def demo_binding_def Forward_room demo_lobby audioChBuffer_def Let_def)
  from no_spoofed_audio [OF demo_bound_inv q] obtain hdr payload where
    "Unpack demo_audio = Inr (hdr, payload)"
    "audioCh (room_at (wlobby (receive all_net demo_audio demo_addr demo_bound)) 0) =
      audioCh (room_at (wlobby demo_bound) 0) @
      [\<lparr>frameSource = SourcePeerID hdr, framePayload = demo_audio, frameDone = None\<rparr>]"
    unfolding shape(1) by blast
  then show ?thesis
    by (simp add: demo_audio_ok demo_lobby(5)) (metis AudioFrameHeader.select_convs(1))
qed

end
