(* ===== verification/Write_Queue.thy ===== *)
theory Write_Queue
  imports Prelude "HOL-Library.Multiset"
begin

text \<open>
  \<open>internal/ws/conn.go\<close>: the write queue of one WebSocket connection.  Any number of senders call
  \<open>write\<close> concurrently while one goroutine drains the queue, so the model is a step relation: a
  step is one channel operation, with the position of every goroutine in the state.  A \<open>select\<close>
  with several ready cases may take any of them.
\<close>

declare map_of_eq_Some_iff [simp del]
declare Some_eq_map_of_iff [simp del]

section \<open>Connection and goroutines\<close>

definition connWriteQueueDepth :: nat where
  "connWriteQueueDepth = 1024"

datatype MessageType = MessageText | MessageBinary

record outgoing =
  mt :: MessageType
  payload :: "byte list"

datatype write_error = ConnClosed | ControlQueueStuck | AudioQueueJammed

text \<open>
  Where a sender stands: at its first \<open>select\<close>, in the timed wait of \<open>writeControl\<close>, at the
  dropping \<open>select\<close> of \<open>writeAudio\<close>, holding a control frame it took from the head, or returned.
\<close>

datatype writer =
    Try outgoing
  | Wait outgoing
  | Shed outgoing
  | Requeue outgoing outgoing
  | Returned "write_error option"

datatype write_loop = LoopReady | LoopWriting outgoing | LoopExited

text \<open>\<open>accepted\<close>, \<open>wire\<close> and \<open>lost\<close> record which frames senders got into the queue and what became of them.\<close>

record conn =
  writeCh :: "outgoing list"
  doneCh :: bool
  writers :: "writer list"
  loop :: write_loop
  wire_out :: "outgoing list"
  lost :: "outgoing list"
  accepted :: "outgoing list"

definition newConn :: "nat \<Rightarrow> conn" where
  "newConn senders =
     \<lparr>writeCh = [], doneCh = False, writers = replicate senders (Returned None), loop = LoopReady,
      wire_out = [], lost = [], accepted = []\<rparr>"

abbreviation full :: "conn \<Rightarrow> bool" where
  "full c \<equiv> connWriteQueueDepth \<le> length (writeCh c)"

definition goto :: "nat \<Rightarrow> writer \<Rightarrow> conn \<Rightarrow> conn" where
  "goto w pc c = c\<lparr>writers := (writers c)[w := pc]\<rparr>"

definition close :: "conn \<Rightarrow> conn" where
  "close c = c\<lparr>doneCh := True\<rparr>"

definition accept :: "outgoing \<Rightarrow> conn \<Rightarrow> conn" where
  "accept m c = c\<lparr>writeCh := writeCh c @ [m], accepted := accepted c @ [m]\<rparr>"

definition lose :: "outgoing \<Rightarrow> conn \<Rightarrow> conn" where
  "lose m c = c\<lparr>lost := lost c @ [m]\<rparr>"

definition at_pc :: "nat \<Rightarrow> writer \<Rightarrow> conn \<Rightarrow> bool" where
  "at_pc w pc c \<longleftrightarrow> w < length (writers c) \<and> writers c ! w = pc"

section \<open>Steps\<close>

text \<open>\<open>write\<close>, the first \<open>select\<close> of \<open>writeControl\<close> and \<open>writeAudio\<close>, and the timed wait.\<close>

inductive write_step :: "conn \<Rightarrow> conn \<Rightarrow> bool" where
  call: "at_pc w (Returned e) c \<Longrightarrow> write_step c (goto w (Try m) c)"
| try_sent: "at_pc w (Try m) c \<Longrightarrow> \<not> full c \<Longrightarrow> write_step c (goto w (Returned None) (accept m c))"
| try_closed: "at_pc w (Try m) c \<Longrightarrow> doneCh c \<Longrightarrow> write_step c (goto w (Returned (Some ConnClosed)) c)"
| try_full_control: "at_pc w (Try m) c \<Longrightarrow> full c \<Longrightarrow> \<not> doneCh c \<Longrightarrow> mt m \<noteq> MessageBinary \<Longrightarrow>
    write_step c (goto w (Wait m) c)"
| try_full_audio: "at_pc w (Try m) c \<Longrightarrow> full c \<Longrightarrow> \<not> doneCh c \<Longrightarrow> mt m = MessageBinary \<Longrightarrow>
    write_step c (goto w (Shed m) c)"
| wait_sent: "at_pc w (Wait m) c \<Longrightarrow> \<not> full c \<Longrightarrow> write_step c (goto w (Returned None) (accept m c))"
| wait_closed: "at_pc w (Wait m) c \<Longrightarrow> doneCh c \<Longrightarrow> write_step c (goto w (Returned (Some ConnClosed)) c)"
| wait_timeout: "at_pc w (Wait m) c \<Longrightarrow> write_step c (goto w (Returned (Some ControlQueueStuck)) (close c))"

text \<open>The second half of \<open>writeAudio\<close>: the head leaves the queue; a control frame goes to its tail.\<close>

inductive shed_step :: "conn \<Rightarrow> conn \<Rightarrow> bool" where
  shed_audio: "at_pc w (Shed m) c \<Longrightarrow> writeCh c = x # q \<Longrightarrow> mt x = MessageBinary \<Longrightarrow>
    shed_step c (goto w (Try m) (lose x (c\<lparr>writeCh := q\<rparr>)))"
| shed_control: "at_pc w (Shed m) c \<Longrightarrow> writeCh c = x # q \<Longrightarrow> mt x \<noteq> MessageBinary \<Longrightarrow>
    shed_step c (goto w (Requeue m x) (c\<lparr>writeCh := q\<rparr>))"
| shed_closed: "at_pc w (Shed m) c \<Longrightarrow> doneCh c \<Longrightarrow> shed_step c (goto w (Returned (Some ConnClosed)) c)"
| shed_empty: "at_pc w (Shed m) c \<Longrightarrow> writeCh c = [] \<Longrightarrow> \<not> doneCh c \<Longrightarrow> shed_step c (goto w (Try m) c)"
| requeue_sent: "at_pc w (Requeue m x) c \<Longrightarrow> \<not> full c \<Longrightarrow>
    shed_step c (goto w (Try m) (c\<lparr>writeCh := writeCh c @ [x]\<rparr>))"
| requeue_full: "at_pc w (Requeue m x) c \<Longrightarrow> full c \<Longrightarrow>
    shed_step c (goto w (Returned (Some AudioQueueJammed)) (close (lose x c)))"

text \<open>\<open>writeLoop\<close>, and \<open>close\<close> from the session that owns the connection.\<close>

inductive loop_step :: "conn \<Rightarrow> conn \<Rightarrow> bool" where
  loop_take: "loop c = LoopReady \<Longrightarrow> writeCh c = x # q \<Longrightarrow>
    loop_step c (c\<lparr>writeCh := q, loop := LoopWriting x\<rparr>)"
| loop_sent: "loop c = LoopWriting x \<Longrightarrow> loop_step c (c\<lparr>loop := LoopReady, wire_out := wire_out c @ [x]\<rparr>)"
| loop_failed: "loop c = LoopWriting x \<Longrightarrow> loop_step c (close (lose x (c\<lparr>loop := LoopExited\<rparr>)))"
| loop_done: "loop c = LoopReady \<Longrightarrow> doneCh c \<Longrightarrow> loop_step c (c\<lparr>loop := LoopExited\<rparr>)"
| session_close: "loop_step c (close c)"

definition conn_step :: "conn \<Rightarrow> conn \<Rightarrow> bool" where
  "conn_step c d \<longleftrightarrow> write_step c d \<or> shed_step c d \<or> loop_step c d"

section \<open>Where every frame is\<close>

fun held :: "writer \<Rightarrow> outgoing list" where
  "held (Requeue m x) = [x]"
| "held _ = []"

fun in_flight :: "write_loop \<Rightarrow> outgoing list" where
  "in_flight (LoopWriting x) = [x]"
| "in_flight _ = []"

definition alive :: "conn \<Rightarrow> outgoing multiset" where
  "alive c = mset (writeCh c) + mset (concat (map held (writers c))) + mset (in_flight (loop c)) + mset (wire_out c)"

definition conn_inv :: "conn \<Rightarrow> bool" where
  "conn_inv c \<longleftrightarrow>
     length (writeCh c) \<le> connWriteQueueDepth \<and>
     mset (accepted c) = alive c + mset (lost c) \<and>
     (doneCh c \<or> (\<forall>x \<in> set (lost c). mt x = MessageBinary))"

lemma held_update:
  assumes "w < length ws"
  shows "mset (concat (map held (ws[w := pc]))) + mset (held (ws ! w)) =
    mset (concat (map held ws)) + mset (held pc)"
proof -
  have e: "concat (map held ws) = concat (map held (take w ws)) @ held (ws ! w) @ concat (map held (drop (Suc w) ws))"
    using assms by (metis concat.simps(2) concat_append id_take_nth_drop list.simps(9) map_append)
  have "concat (map held (ws[w := pc])) = concat (map held (take w ws)) @ held pc @ concat (map held (drop (Suc w) ws))"
    using assms by (simp add: upd_conv_take_nth_drop)
  with e show ?thesis
    by simp
qed

lemma alive_goto:
  "at_pc w old c \<Longrightarrow> alive (goto w new c) + mset (held old) = alive c + mset (held new)"
  using held_update [of w "writers c" new] by (auto simp: alive_def goto_def at_pc_def)

lemma conn_get [simp]:
  "writeCh (goto w pc c) = writeCh c" "doneCh (goto w pc c) = doneCh c" "lost (goto w pc c) = lost c"
  "accepted (goto w pc c) = accepted c" "loop (goto w pc c) = loop c" "wire_out (goto w pc c) = wire_out c"
  "writeCh (close c) = writeCh c" "doneCh (close c)" "lost (close c) = lost c" "accepted (close c) = accepted c"
  "loop (close c) = loop c" "wire_out (close c) = wire_out c" "writers (close c) = writers c"
  "writeCh (accept m c) = writeCh c @ [m]" "doneCh (accept m c) = doneCh c" "lost (accept m c) = lost c"
  "accepted (accept m c) = accepted c @ [m]" "writers (accept m c) = writers c" "wire_out (accept m c) = wire_out c"
  "loop (accept m c) = loop c"
  "writeCh (lose m c) = writeCh c" "doneCh (lose m c) = doneCh c" "lost (lose m c) = lost c @ [m]"
  "accepted (lose m c) = accepted c" "writers (lose m c) = writers c" "wire_out (lose m c) = wire_out c"
  "loop (lose m c) = loop c"
  by (simp_all add: goto_def close_def accept_def lose_def)

lemma alive_get [simp]:
  "alive (close c) = alive c" "alive (accept m c) = add_mset m (alive c)" "alive (lose m c) = alive c"
  by (simp_all add: alive_def)

lemma at_pc_get [simp]:
  "at_pc w pc (close c) = at_pc w pc c" "at_pc w pc (accept m c) = at_pc w pc c" "at_pc w pc (lose m c) = at_pc w pc c"
  "at_pc w pc (c\<lparr>writeCh := q\<rparr>) = at_pc w pc c"
  by (simp_all add: at_pc_def)

lemma inv_goto:
  assumes at: "at_pc w old d"
    and len: "length (writeCh d) \<le> connWriteQueueDepth"
    and acc: "mset (accepted d) + mset (held old) = alive d + mset (held new) + mset (lost d)"
    and ok: "doneCh d \<or> (\<forall>x \<in> set (lost d). mt x = MessageBinary)"
  shows "conn_inv (goto w new d)"
proof -
  from alive_goto [OF at, of new] acc
  have "mset (accepted d) + mset (held old) = alive (goto w new d) + mset (lost d) + mset (held old)"
    by (simp add: ac_simps)
  with len ok show ?thesis
    by (simp add: conn_inv_def)
qed

lemma inv_write: "write_step c d \<Longrightarrow> conn_inv c \<Longrightarrow> conn_inv d"
  by (induction rule: write_step.induct)
    (erule inv_goto [OF at_pc_get(1) [THEN iffD2]] inv_goto [OF at_pc_get(2) [THEN iffD2]] inv_goto;
      auto simp: conn_inv_def)+

lemma alive_pop: "writeCh c = x # q \<Longrightarrow> alive c = add_mset x (alive (c\<lparr>writeCh := q\<rparr>))"
  by (simp add: alive_def)

lemma inv_shed: "shed_step c d \<Longrightarrow> conn_inv c \<Longrightarrow> conn_inv d"
proof (induction rule: shed_step.induct)
  case (shed_audio w m c x q)
  then show ?case
    by (intro inv_goto [of w "Shed m"]) (auto simp: conn_inv_def alive_pop)
next
  case (shed_control w m c x q)
  then show ?case
    by (intro inv_goto [of w "Shed m"]) (auto simp: conn_inv_def alive_pop)
next
  case (shed_closed w m c)
  then show ?case
    by (intro inv_goto [of w "Shed m"]) (auto simp: conn_inv_def)
next
  case (shed_empty w m c)
  then show ?case
    by (intro inv_goto [of w "Shed m"]) (auto simp: conn_inv_def)
next
  case (requeue_sent w m x c)
  then show ?case
    by (intro inv_goto [of w "Requeue m x"]) (auto simp: conn_inv_def alive_def)
next
  case (requeue_full w m x c)
  then show ?case
    by (intro inv_goto [of w "Requeue m x"]) (auto simp: conn_inv_def)
qed

lemma inv_loop: "loop_step c d \<Longrightarrow> conn_inv c \<Longrightarrow> conn_inv d"
  by (induction rule: loop_step.induct) (auto simp: conn_inv_def alive_def)

interpretation write_queue: machine conn_step conn_inv
  by unfold_locales (auto simp: conn_step_def intro: inv_write inv_shed inv_loop)

lemma newConn_inv: "conn_inv (newConn n)"
proof -
  have "concat (map held (replicate n (Returned None))) = []"
    by (induction n) auto
  then show ?thesis
    by (simp add: newConn_def conn_inv_def alive_def)
qed

definition conn_reachable :: "conn \<Rightarrow> bool" where
  "conn_reachable c \<longleftrightarrow> (\<exists>n. conn_step\<^sup>*\<^sup>* (newConn n) c)"

lemma conn_reachable_inv: "conn_reachable c \<Longrightarrow> conn_inv c"
  unfolding conn_reachable_def using write_queue.run_keeps newConn_inv by blast

section \<open>Filling the queue\<close>

lemma fill:
  assumes "length q \<le> connWriteQueueDepth" "0 < n"
  shows "conn_step\<^sup>*\<^sup>* (newConn n) ((newConn n)\<lparr>writeCh := q, accepted := q\<rparr>)"
  using assms(1)
proof (induction q rule: rev_induct)
  case Nil
  have "(newConn n)\<lparr>writeCh := [], accepted := []\<rparr> = newConn n"
    by (simp add: newConn_def)
  then show ?case
    by simp
next
  case (snoc m q)
  let ?c = "(newConn n)\<lparr>writeCh := q, accepted := q\<rparr>"
  have at: "at_pc 0 (Returned None) ?c" "at_pc 0 (Try m) (goto 0 (Try m) ?c)"
    using assms(2) by (simp_all add: at_pc_def newConn_def goto_def)
  have "conn_step ?c (goto 0 (Try m) ?c)"
    using write_step.call [OF at(1)] by (simp add: conn_step_def)
  moreover have "conn_step (goto 0 (Try m) ?c) (goto 0 (Returned None) (accept m (goto 0 (Try m) ?c)))"
    using write_step.try_sent [OF at(2)] snoc.prems by (simp add: conn_step_def)
  moreover have "goto 0 (Returned None) (accept m (goto 0 (Try m) ?c)) =
      (newConn n)\<lparr>writeCh := q @ [m], accepted := q @ [m]\<rparr>"
    using assms(2) by (cases n) (simp_all add: goto_def accept_def newConn_def)
  ultimately show ?case
    using snoc by (metis (no_types, lifting) Suc_leD length_append_singleton rtranclp.rtrancl_into_rtrancl)
qed

section \<open>\<open>writeAudio\<close> with nobody else running\<close>

text \<open>The loop on an open connection, when neither another sender nor the write loop moves.\<close>

partial_function (option) writeAudio ::
  "outgoing \<Rightarrow> outgoing list \<Rightarrow> (write_error option \<times> outgoing list) option" where
  "writeAudio m q =
     (if length q < connWriteQueueDepth then Some (None, q @ [m])
      else case q of
          [] \<Rightarrow> writeAudio m q
        | x # r \<Rightarrow>
            if mt x \<noteq> MessageBinary then
              (if length r < connWriteQueueDepth then writeAudio m (r @ [x])
               else Some (Some AudioQueueJammed, r))
            else writeAudio m r)"

text \<open>A run of \<open>writeAudio\<close> is a run of the connection, one turn of its loop at a time.\<close>

lemma at_pc_goto: "at_pc w old c \<Longrightarrow> at_pc w new (goto w new c)"
  by (simp add: at_pc_def goto_def)

lemma sent_run:
  assumes "at_pc w (Try m) c" "\<not> full c"
  shows "\<exists>d. conn_step\<^sup>*\<^sup>* c d \<and> at_pc w (Returned None) d \<and> writeCh d = writeCh c @ [m]"
proof (intro exI conjI)
  show "conn_step\<^sup>*\<^sup>* c (goto w (Returned None) (accept m c))"
    using write_step.try_sent [OF assms] by (auto simp: conn_step_def)
  show "at_pc w (Returned None) (goto w (Returned None) (accept m c))"
    using assms by (intro at_pc_goto [of w "Try m"]) simp
qed simp

lemma shed_run:
  assumes "at_pc w (Try m) c" "full c" "\<not> doneCh c" "mt m = MessageBinary" "writeCh c = x # r"
    "length r < connWriteQueueDepth"
  shows "\<exists>d. conn_step\<^sup>*\<^sup>* c d \<and> at_pc w (Try m) d \<and> \<not> doneCh d \<and>
    writeCh d = (if mt x = MessageBinary then r else r @ [x])"
proof -
  let ?s = "goto w (Shed m) c"
  let ?h = "goto w (Requeue m x) (?s\<lparr>writeCh := r\<rparr>)"
  have s: "at_pc w (Shed m) ?s" "writeCh ?s = x # r"
    using at_pc_goto [OF assms(1)] assms(5) by simp_all
  have c_s: "conn_step c ?s"
    using write_step.try_full_audio [OF assms(1-4)] by (simp add: conn_step_def)
  show ?thesis
  proof (cases "mt x = MessageBinary")
    case True
    let ?d = "goto w (Try m) (lose x (?s\<lparr>writeCh := r\<rparr>))"
    have "conn_step ?s ?d"
      using shed_step.shed_audio [OF s True] by (simp add: conn_step_def)
    with c_s have "conn_step\<^sup>*\<^sup>* c ?d"
      by (meson converse_rtranclp_into_rtranclp rtranclp.rtrancl_refl)
    moreover have "at_pc w (Try m) ?d"
      using s by (intro at_pc_goto [of w "Shed m"]) simp
    ultimately show ?thesis
      using True assms(3) by (intro exI [of _ ?d]) simp
  next
    case False
    have h: "at_pc w (Requeue m x) ?h" "\<not> full ?h"
      using s assms(6) by (auto intro: at_pc_goto [of w "Shed m"])
    let ?d = "goto w (Try m) (?h\<lparr>writeCh := writeCh ?h @ [x]\<rparr>)"
    have "conn_step ?s ?h"
      using shed_step.shed_control [OF s False] by (simp add: conn_step_def)
    moreover have "conn_step ?h ?d"
      using shed_step.requeue_sent [OF h] by (simp add: conn_step_def)
    ultimately have "conn_step\<^sup>*\<^sup>* c ?d"
      using c_s by (meson converse_rtranclp_into_rtranclp rtranclp.rtrancl_refl)
    moreover have "at_pc w (Try m) ?d"
      using h by (intro at_pc_goto [of w "Requeue m x"]) simp
    ultimately show ?thesis
      using False assms(3) by (intro exI [of _ ?d]) simp
  qed
qed

definition writes_to :: "nat \<Rightarrow> conn \<Rightarrow> write_error option \<times> outgoing list \<Rightarrow> bool" where
  "writes_to w c y \<longleftrightarrow> (\<exists>d. conn_step\<^sup>*\<^sup>* c d \<and> at_pc w (Returned (fst y)) d \<and> writeCh d = snd y)"

lemma writeAudio_run:
  "writeAudio m q = Some y \<Longrightarrow> mt m = MessageBinary \<longrightarrow> length q \<le> connWriteQueueDepth \<longrightarrow>
    (\<forall>c. at_pc w (Try m) c \<longrightarrow> writeCh c = q \<longrightarrow> \<not> doneCh c \<longrightarrow> writes_to w c y)"
proof (induction rule: writeAudio.raw_induct [rotated, consumes 1])
  case (1 again m q y)
  show ?case
  proof (intro impI allI)
    fix c :: conn
    assume m: "mt m = MessageBinary" and len: "length q \<le> connWriteQueueDepth"
      and at: "at_pc w (Try m) c" and q: "writeCh c = q" and up: "\<not> doneCh c"
    show "writes_to w c y"
    proof (cases "full c")
      case False
      then show ?thesis
        using sent_run [OF at False] "1"(2) q by (auto simp: writes_to_def)
    next
      case True
      then have "0 < length q"
        by (cases q) (simp_all add: q connWriteQueueDepth_def)
      then obtain x r where xr: "q = x # r" and r: "length r < connWriteQueueDepth"
        using len by (cases q) auto
      obtain d where d: "conn_step\<^sup>*\<^sup>* c d" "at_pc w (Try m) d" "\<not> doneCh d"
        "writeCh d = (if mt x = MessageBinary then r else r @ [x])"
        using shed_run [OF at True up m _ r] q xr by blast
      have "again m (writeCh d) = Some y"
        using "1"(2) True q xr r by (auto simp: d(4))
      from "1"(1) [OF this] d m r have "writes_to w d y"
        by auto
      with d(1) show ?thesis
        unfolding writes_to_def by (meson rtranclp_trans)
    qed
  qed
qed

section \<open>What \<open>writeAudio\<close> does\<close>

lemma writeAudio_rotate:
  "list_all (\<lambda>x. mt x \<noteq> MessageBinary) cs \<Longrightarrow> mt a = MessageBinary \<Longrightarrow>
    length (cs @ a # r) = connWriteQueueDepth \<Longrightarrow> writeAudio m (cs @ a # r) = Some (None, r @ cs @ [m])"
proof (induction cs arbitrary: r)
  case Nil
  then have r: "length r < connWriteQueueDepth" "\<not> length (a # r) < connWriteQueueDepth"
    by auto
  then have "writeAudio m (a # r) = writeAudio m r"
    using Nil by (subst writeAudio.simps) simp
  also have "\<dots> = Some (None, r @ [m])"
    using r by (subst writeAudio.simps) simp
  finally show ?case
    by simp
next
  case (Cons x cs)
  then have "writeAudio m ((x # cs) @ a # r) = writeAudio m (cs @ a # (r @ [x]))"
    by (subst writeAudio.simps) auto
  with Cons show ?case
    by simp
qed

lemma writeAudio_needs_audio:
  "writeAudio m q = Some y \<Longrightarrow> length q \<le> connWriteQueueDepth \<longrightarrow>
    length q < connWriteQueueDepth \<or> (\<exists>x \<in> set q. mt x = MessageBinary)"
proof (induction rule: writeAudio.raw_induct [rotated, consumes 1])
  case (1 again m q y)
  show ?case
  proof (cases q)
    case (Cons x r)
    show ?thesis
    proof (rule impI, rule ccontr)
      assume len: "length q \<le> connWriteQueueDepth"
        and no: "\<not> (length q < connWriteQueueDepth \<or> (\<exists>x \<in> set q. mt x = MessageBinary))"
      with Cons "1"(2) have "again m (r @ [x]) = Some y"
        by (auto split: if_splits)
      from "1"(1) [OF this] len no Cons show False
        by auto
    qed
  qed (simp add: connWriteQueueDepth_def)
qed

section \<open>Properties of the write queue\<close>

text \<open>
  C32. In every interleaving of senders, write loop and close, the queue never exceeds its depth and
  every accepted frame is accounted for: sent, queued, in the hands of one goroutine, or lost; and
  while the connection is open only audio frames are ever lost, so no control frame disappears.
\<close>

theorem control_frames_survive:
  assumes "conn_reachable c"
  shows "length (writeCh c) \<le> connWriteQueueDepth \<and> mset (accepted c) = alive c + mset (lost c) \<and>
    (doneCh c \<or> filter_mset (\<lambda>x. mt x = MessageText) (mset (accepted c)) = filter_mset (\<lambda>x. mt x = MessageText) (alive c))"
proof -
  from conn_reachable_inv [OF assms] have i: "length (writeCh c) \<le> connWriteQueueDepth"
    "mset (accepted c) = alive c + mset (lost c)" "doneCh c \<or> (\<forall>x \<in> set (lost c). mt x = MessageBinary)"
    by (simp_all add: conn_inv_def)
  have "filter_mset (\<lambda>x. mt x = MessageText) (mset (lost c)) = {#}" if "\<forall>x \<in> set (lost c). mt x = MessageBinary"
    using that by (simp add: mset_filter [symmetric] filter_empty_conv)
  with i show ?thesis
    by auto
qed

text \<open>
  C33. When no other goroutine moves, \<open>writeAudio\<close> returns exactly when the queue has room or holds an
  audio frame, and then it enqueues its frame: at the tail if there is room, else in place of
  the oldest audio frame, with the control frames before that one moved to the tail in order.  On a
  queue full of control frames it does not return at all.
\<close>

theorem audio_write_sheds_oldest:
  assumes "length q \<le> connWriteQueueDepth"
  shows "writeAudio m q =
    (if length q < connWriteQueueDepth then Some (None, q @ [m])
     else let i = length (takeWhile (\<lambda>x. mt x \<noteq> MessageBinary) q)
          in if i < length q then Some (None, drop (Suc i) q @ take i q @ [m]) else None)"
proof (cases "length q < connWriteQueueDepth")
  case True
  then show ?thesis
    by (subst writeAudio.simps) simp
next
  case False
  with assms have full: "length q = connWriteQueueDepth"
    by simp
  define cs where "cs = takeWhile (\<lambda>x. mt x \<noteq> MessageBinary) q"
  have tk: "take (length cs) q = cs"
    unfolding cs_def by (rule takeWhile_eq_take [symmetric])
  have control: "list_all (\<lambda>x. mt x \<noteq> MessageBinary) cs"
    by (auto simp: list_all_iff cs_def dest: set_takeWhileD)
  have "writeAudio m q = (if length cs < length q then Some (None, drop (Suc (length cs)) q @ cs @ [m]) else None)"
  proof (cases "length cs < length q")
    case True
    then have a: "mt (q ! length cs) = MessageBinary"
      unfolding cs_def using nth_length_takeWhile [of "\<lambda>x. mt x \<noteq> MessageBinary" q] by blast
    have q: "q = cs @ q ! length cs # drop (Suc (length cs)) q"
      using id_take_nth_drop [OF True] tk by simp
    show ?thesis
      using writeAudio_rotate [OF control a, of "drop (Suc (length cs)) q" m] q full True by simp
  next
    case none: False
    then have "cs = q"
      using tk by simp
    then have "\<forall>x \<in> set q. mt x \<noteq> MessageBinary"
      using control by (simp add: list_all_iff)
    then have "writeAudio m q = None"
      using writeAudio_needs_audio [of m q] False assms by (cases "writeAudio m q") auto
    with none show ?thesis
      by simp
  qed
  then show ?thesis
    using False tk unfolding cs_def by (simp only: Let_def if_False)
qed

definition text_frame :: "byte \<Rightarrow> outgoing" where
  "text_frame b = \<lparr>mt = MessageText, payload = [b]\<rparr>"

definition audio_frame :: outgoing where
  "audio_frame = \<lparr>mt = MessageBinary, payload = []\<rparr>"

definition busy_queue :: "outgoing list" where
  "busy_queue = text_frame 1 # text_frame 2 # replicate 1022 audio_frame"

definition busy :: conn where
  "busy = (newConn 1)\<lparr>writeCh := busy_queue, accepted := busy_queue\<rparr>"

lemma busy_run: "conn_step\<^sup>*\<^sup>* (newConn 1) busy"
  unfolding busy_def by (rule fill) (simp_all add: busy_queue_def connWriteQueueDepth_def)

lemma busy_state:
  "at_pc 0 (Returned None) busy" "full busy" "\<not> doneCh busy" "loop busy = LoopReady"
  "writeCh busy = text_frame 1 # text_frame 2 # replicate 1022 audio_frame" "wire_out busy = []"
  "accepted busy = busy_queue"
  by (simp_all add: busy_def newConn_def at_pc_def busy_queue_def connWriteQueueDepth_def)

text \<open>
  Control frames can overtake each other: with two control frames at the head of a full queue, an
  audio sender that has taken the first off the head lets the write loop send the second, and puts
  the first behind the audio at the tail.
\<close>

lemma control_frame_overtaken:
  "\<exists>c. conn_reachable c \<and> \<not> doneCh c \<and> take 2 (accepted c) = [text_frame 1, text_frame 2] \<and>
    wire_out c = [text_frame 2] \<and> last (writeCh c) = text_frame 1"
proof -
  let ?m = audio_frame and ?as = "replicate 1022 audio_frame"
  define c1 where "c1 = goto 0 (Try ?m) busy"
  define c2 where "c2 = goto 0 (Shed ?m) c1"
  define c3 where "c3 = goto 0 (Requeue ?m (text_frame 1)) (c2\<lparr>writeCh := text_frame 2 # ?as\<rparr>)"
  define c4 where "c4 = c3\<lparr>writeCh := ?as, loop := LoopWriting (text_frame 2)\<rparr>"
  define c5 where "c5 = c4\<lparr>loop := LoopReady, wire_out := wire_out c4 @ [text_frame 2]\<rparr>"
  define c6 where "c6 = goto 0 (Try ?m) (c5\<lparr>writeCh := writeCh c5 @ [text_frame 1]\<rparr>)"
  note defs = c1_def c2_def c3_def c4_def c5_def c6_def
  have at1: "at_pc 0 (Try ?m) c1" and at2: "at_pc 0 (Shed ?m) c2"
    unfolding c1_def c2_def by (auto intro!: at_pc_goto busy_state(1))
  have at3: "at_pc 0 (Requeue ?m (text_frame 1)) c3"
    unfolding c3_def using at2 by (intro at_pc_goto [of _ "Shed ?m"]) simp
  then have at5: "at_pc 0 (Requeue ?m (text_frame 1)) c5"
    by (simp add: c4_def c5_def at_pc_def)
  have "conn_step busy c1" "conn_step c1 c2"
    using write_step.call [OF busy_state(1)] write_step.try_full_audio [OF at1] busy_state
    by (auto simp: conn_step_def c1_def c2_def audio_frame_def)
  moreover have "conn_step c2 c3"
    using shed_step.shed_control [OF at2] busy_state
    by (auto simp: conn_step_def c1_def c2_def c3_def text_frame_def)
  moreover have "conn_step c3 c4" "conn_step c4 c5"
    using loop_step.loop_take [of c3] loop_step.loop_sent [of c4] busy_state
    by (auto simp: conn_step_def c1_def c2_def c3_def c4_def c5_def)
  moreover have "conn_step c5 c6"
    using shed_step.requeue_sent [OF at5] unfolding c6_def
    by (simp add: conn_step_def c4_def c5_def connWriteQueueDepth_def)
  ultimately have "conn_step\<^sup>*\<^sup>* busy c6"
    by (meson converse_rtranclp_into_rtranclp rtranclp.rtrancl_refl)
  then have "conn_reachable c6"
    using busy_run unfolding conn_reachable_def by (meson rtranclp_trans)
  moreover have "\<not> doneCh c6" "take 2 (accepted c6) = [text_frame 1, text_frame 2]"
    "wire_out c6 = [text_frame 2]" "last (writeCh c6) = text_frame 1"
    using busy_state by (simp_all add: defs busy_queue_def)
  ultimately show ?thesis
    by blast
qed

theorem control_frames_survive_witness:
  "length (writeCh busy) \<le> connWriteQueueDepth \<and> mset (accepted busy) = alive busy + mset (lost busy)"
  using control_frames_survive [of busy] busy_run by (auto simp: conn_reachable_def)

theorem audio_write_sheds_oldest_witness:
  "writeAudio audio_frame busy_queue =
    Some (None, replicate 1021 audio_frame @ [text_frame 1, text_frame 2, audio_frame])"
proof -
  have "length (takeWhile (\<lambda>x. mt x \<noteq> MessageBinary) busy_queue) = 2"
    by (simp add: busy_queue_def text_frame_def audio_frame_def takeWhile_replicate)
  then show ?thesis
    using audio_write_sheds_oldest [of busy_queue audio_frame]
    by (simp add: busy_queue_def connWriteQueueDepth_def numeral_2_eq_2)
qed

end
