(* ===== verification/Messages.thy ===== *)
theory Messages
  imports Prelude
begin

text \<open>
  \<open>internal/proto/messages.go\<close>: the control protocol.  Message types and error codes with their
  text, the payloads of both directions, and the envelope.  The text form of JSON is a
  parameter here, and theory Wire gives the library's: a \<open>json\<close> holds what \<open>json.Unmarshal\<close> makes of a text for each type the server reads,
  and what \<open>json.Marshal\<close> gives for each type it writes.
\<close>

section \<open>Message types and error codes\<close>

definition ProtocolVersion :: int where
  "ProtocolVersion = 1"

datatype client_type =
    TypeHello | TypeRoomCreate | TypeRoomJoin | TypeRoomLeave | TypeRoomList | TypePeerMute | TypeSubscribe | TypePing

primrec client_text :: "client_type \<Rightarrow> string" where
  "client_text TypeHello = ''hello''"
| "client_text TypeRoomCreate = ''room_create''"
| "client_text TypeRoomJoin = ''room_join''"
| "client_text TypeRoomLeave = ''room_leave''"
| "client_text TypeRoomList = ''room_list''"
| "client_text TypePeerMute = ''peer_mute''"
| "client_text TypeSubscribe = ''subscribe''"
| "client_text TypePing = ''ping''"

datatype server_type =
    TypeWelcome | TypeError | TypeRoomJoined | TypeRoomLeft | TypePeerJoined | TypePeerLeft
  | TypePeerMuteChanged | TypeRoomListResult | TypeRoomListDelta | TypePong

primrec server_text :: "server_type \<Rightarrow> string" where
  "server_text TypeWelcome = ''welcome''"
| "server_text TypeError = ''error''"
| "server_text TypeRoomJoined = ''room_joined''"
| "server_text TypeRoomLeft = ''room_left''"
| "server_text TypePeerJoined = ''peer_joined''"
| "server_text TypePeerLeft = ''peer_left''"
| "server_text TypePeerMuteChanged = ''peer_mute_changed''"
| "server_text TypeRoomListResult = ''room_list_result''"
| "server_text TypeRoomListDelta = ''room_list_delta''"
| "server_text TypePong = ''pong''"

datatype error_code =
    RoomNameTaken | RoomNotFound | RoomFull | ServerFull | BadPassword | BadUsername | RateLimited
  | ProtocolError | InternalError | NotInRoom | AlreadyInRoom | UnsupportedVer
  | ServerPasswordRequired | BadServerPassword

primrec code_text :: "error_code \<Rightarrow> string" where
  "code_text RoomNameTaken = ''ROOM_NAME_TAKEN''"
| "code_text RoomNotFound = ''ROOM_NOT_FOUND''"
| "code_text RoomFull = ''ROOM_FULL''"
| "code_text ServerFull = ''SERVER_FULL''"
| "code_text BadPassword = ''BAD_PASSWORD''"
| "code_text BadUsername = ''BAD_USERNAME''"
| "code_text RateLimited = ''RATE_LIMITED''"
| "code_text ProtocolError = ''PROTOCOL_ERROR''"
| "code_text InternalError = ''INTERNAL_ERROR''"
| "code_text NotInRoom = ''NOT_IN_ROOM''"
| "code_text AlreadyInRoom = ''ALREADY_IN_ROOM''"
| "code_text UnsupportedVer = ''UNSUPPORTED_VERSION''"
| "code_text ServerPasswordRequired = ''SERVER_PASSWORD_REQUIRED''"
| "code_text BadServerPassword = ''BAD_SERVER_PASSWORD''"

section \<open>Payloads\<close>

record Envelope =
  Type :: string
  V :: int
  ID :: string
  Data :: "byte list"

record HelloData =
  hello_Username :: string
  hello_Client :: string
  hello_Platform :: string
  hello_ServerPassword :: string

record RoomCreateData =
  create_RoomName :: string
  create_Visibility :: string
  create_Password :: string

record RoomJoinData =
  join_RoomName :: string
  join_Password :: string
  join_Role :: string

record WelcomeData =
  welcome_PeerID :: string
  welcome_ServerVersion :: string
  welcome_UdpEndpoint :: string
  welcome_UdpToken :: string

record PeerInfo =
  info_PeerID :: string
  info_Username :: string
  info_Role :: string
  info_Muted :: bool
  info_JoinedAt :: int

record WireRoom =
  wire_RoomName :: string
  wire_PeerCount :: int
  wire_MaxPeers :: int
  wire_HasPassword :: bool
  wire_CreatedAt :: int

text \<open>What the server sends, one constructor per payload type with its fields in order.\<close>

datatype payload =
    Welcome WelcomeData
  | Error string string
  | RoomJoined string string "PeerInfo list"
  | RoomLeft string
  | PeerJoined PeerInfo
  | PeerLeft string string
  | PeerMuteChanged string bool
  | RoomListResult "WireRoom list"
  | RoomListUpdate "WireRoom list" "string list" "WireRoom list"
  | Pong int int

section \<open>Encoding and decoding\<close>

record json =
  un_envelope :: "byte list \<Rightarrow> Envelope option"
  un_hello :: "byte list \<Rightarrow> HelloData option"
  un_create :: "byte list \<Rightarrow> RoomCreateData option"
  un_join :: "byte list \<Rightarrow> RoomJoinData option"
  un_mute :: "byte list \<Rightarrow> bool option"
  un_subscribe :: "byte list \<Rightarrow> string list option"
  un_ping :: "byte list \<Rightarrow> int"
  marshal :: "payload \<Rightarrow> byte list option"
  marshal_envelope :: "Envelope \<Rightarrow> byte list option"

definition Encode :: "json \<Rightarrow> server_type \<Rightarrow> string \<Rightarrow> payload \<Rightarrow> byte list option" where
  "Encode J typ reqID p =
     (case marshal J p of
        None \<Rightarrow> None
      | Some raw \<Rightarrow> marshal_envelope J \<lparr>Type = server_text typ, V = ProtocolVersion, ID = reqID, Data = raw\<rparr>)"

definition Decode :: "json \<Rightarrow> byte list \<Rightarrow> Envelope option" where
  "Decode J b =
     (case un_envelope J b of
        None \<Rightarrow> None
      | Some env \<Rightarrow>
          if Type env = '''' then None
          else Some (if V env = 0 then env\<lparr>V := 1\<rparr> else env))"

lemma Decode_normal: "Decode J b = Some env \<Longrightarrow> Type env \<noteq> '''' \<and> V env \<noteq> 0"
  by (auto simp: Decode_def split: option.splits if_splits)

lemma texts_distinct: "inj client_text" "inj server_text" "inj code_text"
proof -
  show "inj client_text"
    by (rule injI, case_tac x; case_tac y; simp)
  show "inj server_text"
    by (rule injI, case_tac x; case_tac y; simp)
  show "inj code_text"
    by (rule injI, case_tac x; case_tac y; simp)
qed

end
