(* ===== verification/Base64.thy ===== *)
theory Base64
  imports Strs
begin

text \<open>
  Go's \<open>encoding/base64\<close>, \<open>StdEncoding\<close>: UDP tokens travel in the welcome as Base64 text.  The
  decoder skips line breaks and does not look at the unused bits before the padding, so a text that
  decodes need not be the encoding of what it decodes to.
\<close>

section \<open>The alphabet\<close>

definition alphabet :: string where
  "alphabet = ''ABCDEFGHIJKLMNOPQRSTUVWXYZabcdefghijklmnopqrstuvwxyz0123456789+/''"

definition b64 :: "nat \<Rightarrow> char" where
  "b64 n = alphabet ! (n mod 64)"

definition unb64 :: "char \<Rightarrow> nat option" where
  "unb64 c = IndexByte alphabet c"

lemma alphabet_length [simp]: "length alphabet = 64"
  by (simp add: alphabet_def)

lemma alphabet_distinct: "distinct alphabet"
  by (simp add: alphabet_def)

lemma alphabet_plain: "set alphabet \<inter> {CHR ''='', CHR 0x0A, CHR 0x0D} = {}"
  by (simp add: alphabet_def)

lemma IndexByte_nth: "distinct s \<Longrightarrow> n < length s \<Longrightarrow> IndexByte s (s ! n) = Some n"
proof -
  assume d: "distinct s" and n: "n < length s"
  have "takeWhile (\<lambda>x. x \<noteq> s ! n) s = take n s"
    using d n by (intro takeWhile_eq_take_P_nth) (auto simp: nth_eq_iff_index_eq)
  with n show ?thesis
    by (simp add: IndexByte_def)
qed

lemma unb64_b64 [simp]: "unb64 (b64 n) = Some (n mod 64)"
  by (simp add: unb64_def b64_def IndexByte_nth alphabet_distinct)

lemma unb64_Some: "unb64 c = Some n \<Longrightarrow> n < 64 \<and> b64 n = c"
  using IndexByte_Some [of alphabet c n] by (auto simp: unb64_def b64_def)

lemma b64_plain: "b64 n \<noteq> CHR ''=''" "b64 n \<noteq> CHR 0x0A" "b64 n \<noteq> CHR 0x0D"
proof -
  have "b64 n \<in> set alphabet"
    by (simp add: b64_def)
  with alphabet_plain show "b64 n \<noteq> CHR ''=''" "b64 n \<noteq> CHR 0x0A" "b64 n \<noteq> CHR 0x0D"
    by auto
qed

lemma unb64_plain [simp]: "unb64 CHR ''='' = None"
  using alphabet_plain by (auto simp: unb64_def IndexByte_None)

section \<open>Encoding and decoding\<close>

fun EncodeToString :: "byte list \<Rightarrow> string" where
  "EncodeToString (a # b # c # bs) =
     (let v = 65536 * unat a + 256 * unat b + unat c
      in b64 (v div 262144) # b64 (v div 4096) # b64 (v div 64) # b64 v # EncodeToString bs)"
| "EncodeToString [a, b] =
     (let v = 65536 * unat a + 256 * unat b in [b64 (v div 262144), b64 (v div 4096), b64 (v div 64), CHR ''=''])"
| "EncodeToString [a] =
     (let v = 65536 * unat a in [b64 (v div 262144), b64 (v div 4096), CHR ''='', CHR ''=''])"
| "EncodeToString [] = []"

definition quad :: "nat \<Rightarrow> nat \<Rightarrow> nat \<Rightarrow> nat \<Rightarrow> byte list" where
  "quad a b c d =
     (let v = 262144 * a + 4096 * b + 64 * c + d
      in [of_nat (v div 65536), of_nat (v div 256), of_nat v])"

text \<open>The quanta of \<open>decodeQuantum\<close> on a text without line breaks.\<close>

fun decode_quads :: "string \<Rightarrow> byte list option" where
  "decode_quads [] = Some []"
| "decode_quads (a # b # c # d # s) =
     (case (unb64 a, unb64 b) of
        (Some x, Some y) \<Rightarrow>
          if c = CHR ''='' then (if d = CHR ''='' \<and> s = [] then Some (take 1 (quad x y 0 0)) else None)
          else (case unb64 c of
                  None \<Rightarrow> None
                | Some z \<Rightarrow>
                    if d = CHR ''='' then (if s = [] then Some (take 2 (quad x y z 0)) else None)
                    else (case unb64 d of
                            None \<Rightarrow> None
                          | Some w \<Rightarrow> map_option ((@) (quad x y z w)) (decode_quads s)))
      | _ \<Rightarrow> None)"
| "decode_quads _ = None"

definition DecodeString :: "string \<Rightarrow> byte list option" where
  "DecodeString s = decode_quads (filter (\<lambda>c. c \<noteq> CHR 0x0A \<and> c \<noteq> CHR 0x0D) s)"

section \<open>Round trip\<close>

lemma byte_bound: "unat (a :: byte) < 256"
  using unsigned_less [of a, where ?'a = nat] by simp

lemma sextets:
  assumes "v < (16777216 :: nat)"
  shows "262144 * (v div 262144 mod 64) + 4096 * (v div 4096 mod 64) + 64 * (v div 64 mod 64) + v mod 64 = v"
proof -
  have d: "v div 4096 = v div 64 div 64" "v div 262144 = v div 64 div 64 div 64"
    by (simp_all add: div_mult2_eq [symmetric])
  have "v div 64 div 64 div 64 < 64"
    using assms by (simp add: div_mult2_eq [symmetric] less_mult_imp_div_less)
  moreover have "v = 64 * (v div 64) + v mod 64" "v div 64 = 64 * (v div 64 div 64) + v div 64 mod 64"
    "v div 64 div 64 = 64 * (v div 64 div 64 div 64) + v div 64 div 64 mod 64"
    by simp_all
  ultimately show ?thesis
    unfolding d by (simp only: mod_less)
qed

lemma triple_div:
  assumes "b < (256 :: nat)" "c < 256"
  shows "(65536 * a + 256 * b + c) div 65536 = a" "(65536 * a + 256 * b + c) div 256 = 256 * a + b"
proof -
  show s: "(65536 * a + 256 * b + c) div 256 = 256 * a + b"
    using assms by simp
  have "(65536 * a + 256 * b + c) div 65536 = (65536 * a + 256 * b + c) div 256 div 256"
    by (simp add: div_mult2_eq [symmetric])
  then show "(65536 * a + 256 * b + c) div 65536 = a"
    using assms unfolding s by simp
qed

lemma byte_overflow [simp]: "256 * (x :: byte) = 0" "65536 * (x :: byte) = 0"
proof -
  have "(256 :: byte) = 0" "(65536 :: byte) = 0"
    by simp_all
  then show "256 * x = 0" "65536 * x = 0"
    by (simp_all only: mult_zero_left)
qed

lemma quad_bytes:
  "quad ((65536 * unat a + 256 * unat b + unat c) div 262144 mod 64)
        ((65536 * unat a + 256 * unat b + unat c) div 4096 mod 64)
        ((65536 * unat a + 256 * unat b + unat c) div 64 mod 64)
        ((65536 * unat a + 256 * unat b + unat c) mod 64) = [a, b, c]"
proof -
  let ?v = "65536 * unat a + 256 * unat b + unat c"
  have "?v < 16777216"
    using byte_bound [of a] byte_bound [of b] byte_bound [of c] by linarith
  note s = sextets [OF this]
  show ?thesis
    unfolding quad_def Let_def s triple_div [OF byte_bound byte_bound] by simp
qed

lemma encode_quads: "decode_quads (EncodeToString bs) = Some bs"
proof (induction bs rule: EncodeToString.induct)
  case (1 a b c bs)
  then show ?case
    using quad_bytes [of a b c] by (simp add: Let_def b64_plain)
next
  case (2 a b)
  show ?case
    using quad_bytes [of a b 0] by (simp add: Let_def b64_plain quad_def)
next
  case (3 a)
  show ?case
    using quad_bytes [of a 0 0] by (simp add: Let_def b64_plain quad_def)
qed simp

lemma encode_chars: "set (EncodeToString bs) \<subseteq> insert CHR ''='' (range b64)"
  by (induction bs rule: EncodeToString.induct) (auto simp: Let_def)

lemma encode_no_breaks: "filter (\<lambda>c. c \<noteq> CHR 0x0A \<and> c \<noteq> CHR 0x0D) (EncodeToString bs) = EncodeToString bs"
  using encode_chars [of bs] b64_plain [symmetric] by (intro filter_True) fastforce

lemma decode_encode: "DecodeString (EncodeToString bs) = Some bs"
  by (simp add: DecodeString_def encode_no_breaks encode_quads)

text \<open>
  Base64 loses nothing: every byte string decodes from its encoding.  So a text is the encoding
  of the bytes it decodes to, the test the bridge makes on a token, exactly when it is the encoding
  of some bytes.
\<close>

lemma base64_roundtrip:
  "DecodeString (EncodeToString bs) = Some bs \<and>
   ((\<exists>raw. DecodeString t = Some raw \<and> EncodeToString raw = t) = (t \<in> range EncodeToString))"
  using decode_encode by auto

text \<open>The decoder alone is not injective: line breaks and stray bits before the padding do not matter.\<close>

lemma decode_not_injective: "DecodeString ''QR=='' = DecodeString ''QQ=='' \<and> DecodeString (''QQ'' @ [CHR 0x0A] @ ''=='') = DecodeString ''QQ==''"
  by (simp add: DecodeString_def unb64_def IndexByte_def alphabet_def quad_def)

end
