(* ===== verification/Dispatch.thy ===== *)
theory Dispatch
  imports Udp_Run Client_Ip Messages Base64
begin

text \<open>
  The WebSocket control plane (\<open>internal/ws/dispatch.go\<close>): admission of connections, the hello
  handshake, the control and audio handlers of a session, and its end.  A handler is one function
  on the whole state; the interleavings inside rooms and registry are those of Lobby_Run, to which
  the effect of every handler on the lobby is related in Dispatch_Run.
\<close>

declare map_of_eq_Some_iff [simp del]
declare Some_eq_map_of_iff [simp del]

section \<open>Configuration, surroundings and state\<close>

record RateLimits =
  HelloPerIPPerMinute :: int
  RoomCreatePerPeerPerMinute :: int
  RoomJoinPerPeerPerMinute :: int
  RoomListPerPeerPerMinute :: int
  ControlPerPeerPerMinute :: int
  AudioFramesPerPeerPerSec :: int
  PasswordChecksConcurrent :: int

text \<open>The fields of \<open>ws.Server\<close> that are set at startup; \<open>UdpOn\<close> is \<open>s.Udp != nil\<close>.\<close>

record server_config =
  MaxConnections :: int
  Limits :: RateLimits
  Version :: string
  TrustedProxyPrefixes :: "netip_prefix list"
  ServerPasswordHash :: "byte list"
  UdpEndpoint :: string
  UdpPort :: int
  UdpOn :: bool

text \<open>
  What lies outside the sources: JSON, bcrypt, the Unicode tables, \<open>uuid.Parse\<close>, and whether the
  write queue of a connection takes a frame.
\<close>

record env =
  server :: server_config
  json_text :: json
  bcrypt_compare :: "byte list \<Rightarrow> string \<Rightarrow> bool"
  bcrypt_generate :: "string \<Rightarrow> byte list option"
  unicode_lower :: "string \<Rightarrow> string"
  parse_uuid :: "string \<Rightarrow> uuid option"
  write_queue :: "conn_ref \<Rightarrow> byte list \<Rightarrow> bool \<Rightarrow> bool"

text \<open>\<open>passwordBusy\<close> is the number of tokens taken from \<open>passwordSem\<close>.\<close>

record ws_state =
  base :: world
  connLimiter :: limiter
  peerLimiter :: limiter
  passwordBusy :: nat
  curConns :: int

abbreviation hall :: "ws_state \<Rightarrow> lobby" where
  "hall s \<equiv> wlobby (base s)"

abbreviation peer_of :: "ws_state \<Rightarrow> peer_ref \<Rightarrow> peer" where
  "peer_of s p \<equiv> peer_at (hall s) p"

definition on_base :: "(world \<Rightarrow> world) \<Rightarrow> ws_state \<Rightarrow> ws_state" where
  "on_base f s = s\<lparr>base := f (base s)\<rparr>"

definition on_hall :: "(lobby \<Rightarrow> lobby) \<Rightarrow> ws_state \<Rightarrow> ws_state" where
  "on_hall f = on_base (\<lambda>w. w\<lparr>wlobby := f (wlobby w)\<rparr>)"

definition meter :: "(metrics \<Rightarrow> metrics) \<Rightarrow> ws_state \<Rightarrow> ws_state" where
  "meter f = on_base (metered f)"

definition passwordCap :: "env \<Rightarrow> nat" where
  "passwordCap E =
     (let n = PasswordChecksConcurrent (Limits (server E)) in if n \<le> 0 then 4 else nat n)"

definition version :: "env \<Rightarrow> string" where
  "version E = (if Version (server E) = '''' then ''dev'' else Version (server E))"

definition UnixMilli :: "time \<Rightarrow> int" where
  "UnixMilli t = t div 1000000"

text \<open>A byte slice read as text.\<close>

definition as_text :: "byte list \<Rightarrow> string" where
  "as_text = map (\<lambda>b. char_of (unat b))"

section \<open>Sending\<close>

definition send_msg :: "env \<Rightarrow> conn_ref \<Rightarrow> server_type \<Rightarrow> string \<Rightarrow> payload \<Rightarrow> ws_state \<Rightarrow> ws_state \<times> bool" where
  "send_msg E c typ reqID p s =
     (case Encode (json_text E) typ reqID p of
        None \<Rightarrow> (s, False)
      | Some body \<Rightarrow>
          let (w, ok) = ws_write (write_queue E) c body False (base s) in (s\<lparr>base := w\<rparr>, ok))"

text \<open>The flush after an error only waits.\<close>

definition sendError :: "env \<Rightarrow> conn_ref \<Rightarrow> string \<Rightarrow> error_code \<Rightarrow> string \<Rightarrow> ws_state \<Rightarrow> ws_state" where
  "sendError E c reqID err msg s =
     meter (labeled_inc ''nu_errors_total'' ''code'' (code_text err))
       (fst (send_msg E c TypeError reqID (Error (code_text err) msg) s))"

definition protoError :: "env \<Rightarrow> conn_ref \<Rightarrow> string \<Rightarrow> ws_state \<Rightarrow> ws_state" where
  "protoError E c reason s = sendError E c '''' ProtocolError reason s"

definition broadcastToOthers ::
  "env \<Rightarrow> room_ref \<Rightarrow> uuid \<Rightarrow> server_type \<Rightarrow> string \<Rightarrow> payload \<Rightarrow> ws_state \<Rightarrow> ws_state" where
  "broadcastToOthers E r except typ reqID p s =
     (case Encode (json_text E) typ reqID p of
        None \<Rightarrow> s
      | Some body \<Rightarrow>
          on_base (fold (\<lambda>q w. if peerID (the_peer w q) = except then w
                               else fst (SendText (ws_write (write_queue E)) (the_peer w q) body w))
                     (map snd (peers (room_at (hall s) r)))) s)"

section \<open>Validation and admission of requests\<close>

definition validHumanLabel :: "string \<Rightarrow> nat \<Rightarrow> bool" where
  "validHumanLabel v maxRunes =
     (case runes v of
        None \<Rightarrow> False
      | Some rs \<Rightarrow>
          if list_ex IsControl rs then False
          else (case runes (TrimSpace v) of
                  None \<Rightarrow> False
                | Some ts \<Rightarrow> 1 \<le> length ts \<and> length ts \<le> maxRunes))"

definition validUsername :: "string \<Rightarrow> bool" where
  "validUsername u = validHumanLabel u MaxUsernameRunes"

definition validRoomName :: "string \<Rightarrow> bool" where
  "validRoomName name = validHumanLabel name MaxRoomNameRunes"

datatype subscription_error = TooManyIDs | InvalidID | DuplicateID

primrec subscription_text :: "subscription_error \<Rightarrow> string" where
  "subscription_text TooManyIDs = ''sourcePeerIds exceeds protocol limit of 8''"
| "subscription_text InvalidID = ''sourcePeerIds contains an invalid UUID''"
| "subscription_text DuplicateID = ''sourcePeerIds contains a duplicate UUID''"

text \<open>The loop of \<open>parseSubscriptionIDs\<close>, with the identifiers appended so far.\<close>

fun subscription_loop :: "(string \<Rightarrow> uuid option) \<Rightarrow> string list \<Rightarrow> uuid list \<Rightarrow> subscription_error + uuid list" where
  "subscription_loop parse [] ids = Inr ids"
| "subscription_loop parse (text # rest) ids =
     (case parse text of
        None \<Rightarrow> Inl InvalidID
      | Some i \<Rightarrow> if i \<in> set ids then Inl DuplicateID else subscription_loop parse rest (ids @ [i]))"

definition parseSubscriptionIDs :: "env \<Rightarrow> string list \<Rightarrow> subscription_error + uuid list" where
  "parseSubscriptionIDs E raw =
     (if MaxPeersPerRoom < int (length raw) then Inl TooManyIDs
      else subscription_loop (parse_uuid E) raw [])"

definition allowPeer :: "peer_ref \<Rightarrow> string \<Rightarrow> int \<Rightarrow> duration \<Rightarrow> ws_state \<Rightarrow> ws_state \<times> bool" where
  "allowPeer p action limit window s =
     (let (l, ok) = AllowPair (peerLimiter s) (''peer:'' @ uuid_String (peerID (peer_of s p)) @ '':'' @ action)
            (''ip:'' @ RemoteIP (peer_of s p) @ '':'' @ action) limit window (clock (hall s))
      in (s\<lparr>peerLimiter := l\<rparr>, ok))"

text \<open>\<open>None\<close> is \<open>errPasswordWorkBusy\<close>; the token is given back when the work is done.\<close>

definition doPasswordWork :: "env \<Rightarrow> 'a \<Rightarrow> ws_state \<Rightarrow> 'a option" where
  "doPasswordWork E result s = (if passwordBusy s < passwordCap E then Some result else None)"

text \<open>\<open>HandleHTTP\<close>: the origin gate and the connection cap, then the end of the connection.\<close>

datatype admission = Forbidden | Unavailable | Upgrade

definition HandleHTTP :: "env \<Rightarrow> string list \<Rightarrow> ws_state \<Rightarrow> ws_state \<times> admission" where
  "HandleHTTP E origins s =
     (if list_ex (\<lambda>origin. TrimSpace origin \<noteq> '''') origins then (s, Forbidden)
      else if MaxConnections (server E) \<le> curConns s then
        (meter (labeled_inc ''nu_errors_total'' ''code'' (code_text ServerFull)) s, Unavailable)
      else (s\<lparr>curConns := curConns s + 1\<rparr>, Upgrade))"

definition HandleHTTP_accepted :: "ws_state \<Rightarrow> ws_state" where
  "HandleHTTP_accepted s = meter (counter_inc ''nu_ws_connections_total'') s"

definition HandleHTTP_closed :: "ws_state \<Rightarrow> ws_state" where
  "HandleHTTP_closed s = s\<lparr>curConns := curConns s - 1\<rparr>"

section \<open>The hello handshake\<close>

text \<open>Allocation of \<open>room.NewPeer\<close> with its remote address and sender; \<open>uid\<close> is \<open>uuid.New\<close>.\<close>

definition connect_peer :: "uuid \<Rightarrow> string \<Rightarrow> string \<Rightarrow> conn_ref \<Rightarrow> lobby \<Rightarrow> lobby" where
  "connect_peer uid username remoteIP c L =
     (let p = next_peer L;
          L = L\<lparr>peer_at := (peer_at L)(p := NewPeer uid username '''' (clock L)), next_peer := p + 1\<rparr>;
          L = upd_peer p (\<lambda>q. q\<lparr>RemoteIP := remoteIP\<rparr>) L
      in upd_peer p (AttachSender c) L)"

text \<open>The UDP endpoint a welcome advertises; empty when there is none.\<close>

definition advertised :: "env \<Rightarrow> string \<Rightarrow> string" where
  "advertised E hostHeader =
     (if \<not> UdpOn (server E) then ''''
      else if UdpEndpoint (server E) \<noteq> '''' then UdpEndpoint (server E)
      else if 0 < UdpPort (server E) \<and> hostHeader \<noteq> '''' then
        let h = (case SplitHostPort hostHeader of None \<Rightarrow> hostHeader | Some (h, _) \<Rightarrow> h)
        in if h \<noteq> '''' then JoinHostPort h (show_int (UdpPort (server E))) else ''''
      else '''')"

text \<open>The checks of \<open>run\<close> before there is a peer: the envelope's id and the trimmed username.\<close>

definition check_password ::
  "env \<Rightarrow> conn_ref \<Rightarrow> string \<Rightarrow> string \<Rightarrow> ws_state \<Rightarrow> ws_state \<times> bool" where
  "check_password E c reqID password s =
     (if ServerPasswordHash (server E) = [] then (s, True)
      else if password = '''' then
        (sendError E c reqID ServerPasswordRequired
           ''this server requires a password; please set it in the client and reconnect'' s, False)
      else case doPasswordWork E (bcrypt_compare E (ServerPasswordHash (server E)) password) s of
          None \<Rightarrow> (sendError E c reqID RateLimited ''password verification busy'' s, False)
        | Some False \<Rightarrow> (sendError E c reqID BadServerPassword ''bad server password'' s, False)
        | Some True \<Rightarrow> (s, True))"

definition check_hello ::
  "env \<Rightarrow> conn_ref \<Rightarrow> string \<Rightarrow> bool \<Rightarrow> byte list \<Rightarrow> ws_state \<Rightarrow> ws_state \<times> (string \<times> string) option" where
  "check_hello E c remoteIP isText bytes s =
     (if \<not> isText then (protoError E c ''first frame must be hello (text)'' s, None)
      else if \<not> ValidUTF8 (as_text bytes) then (protoError E c ''hello must be valid UTF-8'' s, None)
      else
        case Allow (connLimiter s) remoteIP (HelloPerIPPerMinute (Limits (server E))) Minute (clock (hall s)) of
          (l, False) \<Rightarrow> (sendError E c '''' RateLimited ''too many hello attempts'' (s\<lparr>connLimiter := l\<rparr>), None)
        | (l, True) \<Rightarrow>
            let s = s\<lparr>connLimiter := l\<rparr> in
            case Decode (json_text E) bytes of
              None \<Rightarrow> (protoError E c ''bad hello'' s, None)
            | Some env \<Rightarrow>
                if Type env \<noteq> client_text TypeHello \<or> ProtocolVersion < V env then (protoError E c ''bad hello'' s, None)
                else case un_hello (json_text E) (Data env) of
                    None \<Rightarrow> (protoError E c ''bad hello data'' s, None)
                  | Some hello \<Rightarrow>
                      if \<not> validUsername (hello_Username hello) then
                        (sendError E c (ID env) BadUsername ''username invalid'' s, None)
                      else if MaxPasswordBytes < length (hello_ServerPassword hello) then
                        (protoError E c ''serverPassword exceeds bcrypt 72-byte limit'' s, None)
                      else case check_password E c (ID env) (hello_ServerPassword hello) s of
                          (s, False) \<Rightarrow> (s, None)
                        | (s, True) \<Rightarrow> (s, Some (ID env, TrimSpace (hello_Username hello))))"

text \<open>The deferred calls of a session, in the order they run.\<close>

definition leave_session :: "env \<Rightarrow> bool \<Rightarrow> peer_ref \<Rightarrow> ws_state \<Rightarrow> ws_state" where
  "leave_session E attached p s =
     (let s = (if attached then on_base (DetachPeer p) s else s);
          s = on_hall (upd_peer p DetachSender) s
      in meter (gauge_add ''nu_active_peers'' (- 1)) s)"

text \<open>
  \<open>run\<close> up to its main loop; the result is the peer of the session, or \<open>None\<close> when \<open>run\<close> returns.
  \<open>random\<close> is what the entropy source gives a token.
\<close>

definition run_hello ::
  "env \<Rightarrow> conn_ref \<Rightarrow> string \<Rightarrow> string \<Rightarrow> uuid \<Rightarrow> token option \<Rightarrow> bool \<Rightarrow> byte list \<Rightarrow> ws_state \<Rightarrow>
    ws_state \<times> peer_ref option" where
  "run_hello E c remoteIP hostHeader uid random isText bytes s =
     (case check_hello E c remoteIP isText bytes s of
        (s, None) \<Rightarrow> (s, None)
      | (s, Some (reqID, username)) \<Rightarrow>
          let p = next_peer (hall s);
              s = on_hall (connect_peer uid username remoteIP c) s;
              s = meter (gauge_add ''nu_active_peers'' 1) s;
              endpoint = advertised E hostHeader;
              minted = (if endpoint \<noteq> '''' then MintToken random uid (base s) else (base s, Some (of_bytes [])))
          in case minted of
               (w, None) \<Rightarrow> (leave_session E False p s, None)
             | (w, Some t) \<Rightarrow>
                 let s = s\<lparr>base := w\<rparr>;
                     s = (if UdpOn (server E) then on_base (AttachPeer p) s else s);
                     welcome = \<lparr>welcome_PeerID = uuid_String uid, welcome_ServerVersion = version E,
                       welcome_UdpEndpoint = endpoint,
                       welcome_UdpToken = (if endpoint \<noteq> '''' then EncodeToString (bytes_of t) else '''')\<rparr>
                 in case send_msg E c TypeWelcome reqID (Welcome welcome) s of
                      (s, False) \<Rightarrow> (leave_session E (UdpOn (server E)) p s, None)
                    | (s, True) \<Rightarrow> (s, Some p))"

section \<open>Rooms\<close>

definition active_rooms :: "ws_state \<Rightarrow> ws_state" where
  "active_rooms s = meter (gauge_set ''nu_active_rooms'' (of_int (CountRooms (hall s)))) s"

definition info_of :: "PeerSnapshot \<Rightarrow> PeerInfo" where
  "info_of p =
     \<lparr>info_PeerID = uuid_String (snapID p), info_Username = snapUsername p, info_Role = snapRole p,
      info_Muted = snapMuted p, info_JoinedAt = UnixMilli (snapJoinedAt p)\<rparr>"

definition joinPeerToRoom ::
  "env \<Rightarrow> conn_ref \<Rightarrow> peer_ref \<Rightarrow> room_ref \<Rightarrow> string \<Rightarrow> string \<Rightarrow> ws_state \<Rightarrow> ws_state" where
  "joinPeerToRoom E c p r role reqID s =
     (let s = on_hall (upd_peer p (\<lambda>q. q\<lparr>Role := role\<rparr>)) s in
      case Add r p (hall s) of
        (L, Inl ErrRoomNotFound) \<Rightarrow>
          sendError E c reqID RoomNotFound ''room expired before join'' (on_hall (\<lambda>_. L) s)
      | (L, Inl _) \<Rightarrow> sendError E c reqID RoomFull ''room full'' (on_hall (\<lambda>_. L) s)
      | (L, Inr others) \<Rightarrow>
          let s = on_hall (\<lambda>_. L) s;
              s = fst (send_msg E c TypeRoomJoined reqID
                (RoomJoined (uuid_String (roomID (room_at (hall s) r))) (Name (room_at (hall s) r)) (map info_of others)) s);
              s = broadcastToOthers E r (peerID (peer_of s p)) TypePeerJoined ''''
                (PeerJoined (info_of (snapshot_of (peer_of s p)))) s
          in on_hall (PublishUpdate r) s)"

definition cleanupPeer :: "env \<Rightarrow> peer_ref \<Rightarrow> string \<Rightarrow> ws_state \<Rightarrow> ws_state" where
  "cleanupPeer E p reason s =
     (case curRoom (peer_of s p) of
        None \<Rightarrow> s
      | Some r \<Rightarrow>
          let pid = peerID (peer_of s p);
              s = active_rooms (on_hall (Remove r pid) s);
              s = broadcastToOthers E r pid TypePeerLeft '''' (PeerLeft (uuid_String pid) reason) s
          in on_hall (PublishUpdate r) s)"

text \<open>\<open>err.Error()\<close> of what \<open>Create\<close> returns.\<close>

definition create_error :: "room_error \<Rightarrow> error_code \<times> string" where
  "create_error e =
     (case e of
        ErrRoomNameTaken \<Rightarrow> (RoomNameTaken, ''room name taken'')
      | ErrServerFull \<Rightarrow> (ServerFull, ''max rooms reached'')
      | ErrEmptyName \<Rightarrow> (InternalError, ''empty name'')
      | ErrRoomFull \<Rightarrow> (InternalError, ''room full'')
      | ErrBadPassword \<Rightarrow> (InternalError, ''bad password'')
      | ErrRoomNotFound \<Rightarrow> (InternalError, ''room not found''))"

definition bad_room_name :: string where
  "bad_room_name = ''roomName must be 1..64 Unicode characters without control characters''"

definition create_room ::
  "env \<Rightarrow> conn_ref \<Rightarrow> peer_ref \<Rightarrow> string \<Rightarrow> uuid \<Rightarrow> string \<Rightarrow> string \<Rightarrow> byte list option \<Rightarrow> ws_state \<Rightarrow> ws_state" where
  "create_room E c p reqID uid name visibility hash s =
     (case Create (unicode_lower E) uid name visibility hash (hall s) of
        (L, Inl e) \<Rightarrow> sendError E c reqID (fst (create_error e)) (snd (create_error e)) (on_hall (\<lambda>_. L) s)
      | (L, Inr r) \<Rightarrow>
          let s = meter (counter_inc ''nu_room_create_total'') (on_hall (\<lambda>_. L) s)
          in joinPeerToRoom E c p r ''send'' reqID (active_rooms s))"

definition handleRoomCreate :: "env \<Rightarrow> conn_ref \<Rightarrow> peer_ref \<Rightarrow> Envelope \<Rightarrow> uuid \<Rightarrow> ws_state \<Rightarrow> ws_state" where
  "handleRoomCreate E c p env uid s =
     (case allowPeer p ''room_create'' (RoomCreatePerPeerPerMinute (Limits (server E))) Minute s of
        (s, False) \<Rightarrow> sendError E c (ID env) RateLimited ''room create rate exceeded'' s
      | (s, True) \<Rightarrow>
          if curRoom (peer_of s p) \<noteq> None then sendError E c (ID env) AlreadyInRoom ''leave first'' s
          else case un_create (json_text E) (Data env) of
              None \<Rightarrow> sendError E c (ID env) ProtocolError ''bad data'' s
            | Some d \<Rightarrow>
                if \<not> validRoomName (create_RoomName d) then sendError E c (ID env) ProtocolError bad_room_name s
                else if MaxPasswordBytes < length (create_Password d) then
                  sendError E c (ID env) ProtocolError ''password exceeds bcrypt 72-byte limit'' s
                else
                  let name = TrimSpace (create_RoomName d);
                      visibility = (if create_Visibility d \<in> {''public'', ''private''} then create_Visibility d else ''private'')
                  in if create_Password d = '''' then create_room E c p (ID env) uid name visibility None s
                     else case doPasswordWork E (HashPassword (bcrypt_generate E) (create_Password d)) s of
                         None \<Rightarrow> sendError E c (ID env) RateLimited ''password hashing busy'' s
                       | Some HashFailed \<Rightarrow> sendError E c (ID env) InternalError ''password hashing failed'' s
                       | Some NoPassword \<Rightarrow> create_room E c p (ID env) uid name visibility None s
                       | Some (Hashed h) \<Rightarrow> create_room E c p (ID env) uid name visibility (Some h) s)"

definition handleRoomJoin :: "env \<Rightarrow> conn_ref \<Rightarrow> peer_ref \<Rightarrow> Envelope \<Rightarrow> ws_state \<Rightarrow> ws_state" where
  "handleRoomJoin E c p env s =
     (case allowPeer p ''room_join'' (RoomJoinPerPeerPerMinute (Limits (server E))) Minute s of
        (s, False) \<Rightarrow> sendError E c (ID env) RateLimited ''room join rate exceeded'' s
      | (s, True) \<Rightarrow>
          if curRoom (peer_of s p) \<noteq> None then sendError E c (ID env) AlreadyInRoom ''leave first'' s
          else case un_join (json_text E) (Data env) of
              None \<Rightarrow> sendError E c (ID env) ProtocolError ''bad data'' s
            | Some d \<Rightarrow>
                if \<not> validRoomName (join_RoomName d) then sendError E c (ID env) ProtocolError bad_room_name s
                else if MaxPasswordBytes < length (join_Password d) then
                  sendError E c (ID env) ProtocolError ''password exceeds bcrypt 72-byte limit'' s
                else case Find (unicode_lower E) (TrimSpace (join_RoomName d)) (hall s) of
                    None \<Rightarrow> sendError E c (ID env) RoomNotFound ''no such room'' s
                  | Some r \<Rightarrow>
                      let role = (if join_Role d \<in> {''send'', ''recv''} then join_Role d else ''send'')
                      in if \<not> HasPassword (room_at (hall s) r) then joinPeerToRoom E c p r role (ID env) s
                         else case doPasswordWork E
                             (CheckPassword (bcrypt_compare E) (room_at (hall s) r) (join_Password d)) s of
                             None \<Rightarrow> sendError E c (ID env) RateLimited ''password verification busy'' s
                           | Some (Some _) \<Rightarrow> sendError E c (ID env) BadPassword ''bad password'' s
                           | Some None \<Rightarrow> joinPeerToRoom E c p r role (ID env) s)"

definition handleRoomLeave :: "env \<Rightarrow> conn_ref \<Rightarrow> peer_ref \<Rightarrow> Envelope \<Rightarrow> ws_state \<Rightarrow> ws_state" where
  "handleRoomLeave E c p env s =
     (if curRoom (peer_of s p) = None then sendError E c (ID env) NotInRoom ''not in room'' s
      else fst (send_msg E c TypeRoomLeft (ID env) (RoomLeft ''leave'') (cleanupPeer E p ''leave'' s)))"

definition wire_room :: "RoomListEntry \<Rightarrow> WireRoom" where
  "wire_room e =
     \<lparr>wire_RoomName = entryName e, wire_PeerCount = entryPeerCount e, wire_MaxPeers = entryMaxPeers e,
      wire_HasPassword = entryHasPassword e, wire_CreatedAt = UnixMilli (entryCreatedAt e)\<rparr>"

definition handleRoomList :: "env \<Rightarrow> conn_ref \<Rightarrow> peer_ref \<Rightarrow> Envelope \<Rightarrow> ws_state \<Rightarrow> ws_state" where
  "handleRoomList E c p env s =
     (case allowPeer p ''room_list'' (RoomListPerPeerPerMinute (Limits (server E))) Minute s of
        (s, False) \<Rightarrow> sendError E c (ID env) RateLimited ''room list rate exceeded'' s
      | (s, True) \<Rightarrow>
          fst (send_msg E c TypeRoomListResult (ID env) (RoomListResult (map wire_room (PublicList (hall s)))) s))"

section \<open>The other requests\<close>

definition handlePeerMute :: "env \<Rightarrow> conn_ref \<Rightarrow> peer_ref \<Rightarrow> Envelope \<Rightarrow> ws_state \<Rightarrow> ws_state" where
  "handlePeerMute E c p env s =
     (case un_mute (json_text E) (Data env) of
        None \<Rightarrow> sendError E c (ID env) ProtocolError ''bad data'' s
      | Some v \<Rightarrow>
          let s = on_hall (upd_peer p (SetMuted v)) s; pid = peerID (peer_of s p)
          in case curRoom (peer_of s p) of
               None \<Rightarrow> s
             | Some r \<Rightarrow> broadcastToOthers E r pid TypePeerMuteChanged '''' (PeerMuteChanged (uuid_String pid) v) s)"

definition handleSubscribe :: "env \<Rightarrow> conn_ref \<Rightarrow> peer_ref \<Rightarrow> Envelope \<Rightarrow> ws_state \<Rightarrow> ws_state" where
  "handleSubscribe E c p env s =
     (case un_subscribe (json_text E) (Data env) of
        None \<Rightarrow> sendError E c (ID env) ProtocolError ''bad data'' s
      | Some raw \<Rightarrow>
          (case parseSubscriptionIDs E raw of
             Inl e \<Rightarrow> sendError E c (ID env) ProtocolError (subscription_text e) s
           | Inr ids \<Rightarrow> on_hall (upd_peer p (SetSubscribed (Some ids))) s))"

definition handlePing_ws :: "env \<Rightarrow> conn_ref \<Rightarrow> Envelope \<Rightarrow> ws_state \<Rightarrow> ws_state" where
  "handlePing_ws E c env s =
     fst (send_msg E c TypePong (ID env) (Pong (un_ping (json_text E) (Data env)) (UnixMilli (clock (hall s)))) s)"

text \<open>\<open>handleControl\<close> after its checks: one handler per type.\<close>

definition dispatch_type :: "env \<Rightarrow> conn_ref \<Rightarrow> peer_ref \<Rightarrow> Envelope \<Rightarrow> uuid \<Rightarrow> ws_state \<Rightarrow> ws_state" where
  "dispatch_type E c p env uid s =
     (if Type env = client_text TypeRoomCreate then handleRoomCreate E c p env uid s
      else if Type env = client_text TypeRoomJoin then handleRoomJoin E c p env s
      else if Type env = client_text TypeRoomLeave then handleRoomLeave E c p env s
      else if Type env = client_text TypeRoomList then handleRoomList E c p env s
      else if Type env = client_text TypePeerMute then handlePeerMute E c p env s
      else if Type env = client_text TypeSubscribe then handleSubscribe E c p env s
      else if Type env = client_text TypePing then handlePing_ws E c env s
      else sendError E c (ID env) ProtocolError (''unknown type '' @ Type env) s)"

definition handleControl :: "env \<Rightarrow> conn_ref \<Rightarrow> peer_ref \<Rightarrow> byte list \<Rightarrow> uuid \<Rightarrow> ws_state \<Rightarrow> ws_state" where
  "handleControl E c p bytes uid s =
     (case allowPeer p ''control'' (ControlPerPeerPerMinute (Limits (server E))) Minute s of
        (s, False) \<Rightarrow> sendError E c '''' RateLimited ''control message rate exceeded'' s
      | (s, True) \<Rightarrow>
          if \<not> ValidUTF8 (as_text bytes) then sendError E c '''' ProtocolError ''control message must be valid UTF-8'' s
          else case Decode (json_text E) bytes of
              None \<Rightarrow> sendError E c '''' ProtocolError ''bad json'' s
            | Some env \<Rightarrow> dispatch_type E c p env uid s)"

definition handleAudio_ws :: "env \<Rightarrow> peer_ref \<Rightarrow> byte list \<Rightarrow> ws_state \<Rightarrow> ws_state" where
  "handleAudio_ws E p bytes s =
     (case allowPeer p ''ws_audio'' (AudioFramesPerPeerPerSec (Limits (server E))) Second s of
        (s, False) \<Rightarrow> meter (labeled_inc ''nu_audio_frames_dropped_total'' ''reason'' ''rate_limit'') s
      | (s, True) \<Rightarrow>
          case Unpack bytes of
            Inl _ \<Rightarrow> meter (labeled_inc ''nu_errors_total'' ''code'' (code_text ProtocolError)) s
          | Inr (hdr, _) \<Rightarrow>
              case curRoom (peer_of s p) of
                None \<Rightarrow> meter (labeled_inc ''nu_errors_total'' ''code'' (code_text NotInRoom)) s
              | Some r \<Rightarrow>
                  let pid = peerID (peer_of s p) in
                  if SourcePeerID hdr \<noteq> pid then meter (labeled_inc ''nu_errors_total'' ''code'' (code_text ProtocolError)) s
                  else if muted (peer_of s p) then meter (labeled_inc ''nu_audio_frames_dropped_total'' ''reason'' ''muted'') s
                  else case Forward r \<lparr>frameSource = pid, framePayload = bytes, frameDone = None\<rparr> (hall s) of
                      (L, False) \<Rightarrow> meter (labeled_inc ''nu_audio_frames_dropped_total'' ''reason'' ''backpressure'') (on_hall (\<lambda>_. L) s)
                    | (L, True) \<Rightarrow>
                        meter (counter_add ''nu_audio_bytes_forwarded_total'' (of_nat (length bytes)))
                          (meter (counter_inc ''nu_audio_frames_forwarded_total'') (on_hall (\<lambda>_. L) s)))"

text \<open>The end of a session: the connection is gone, the peer leaves its room, the deferred calls run.\<close>

definition end_session :: "env \<Rightarrow> peer_ref \<Rightarrow> ws_state \<Rightarrow> ws_state" where
  "end_session E p s = leave_session E (UdpOn (server E)) p (cleanupPeer E p ''disconnect'' s)"

end
