(* ===== verification/Dispatch_Run.thy ===== *)
theory Dispatch_Run
  imports Dispatch
begin

text \<open>
  Runs of the whole server: connections, sessions, the UDP socket, the forwarders and the timers.
  Every operation acts on the lobby as a run of Lobby_Run, so the invariants proved there hold under
  the WebSocket handlers, and every member of a room has an open session.
\<close>

declare map_of_eq_Some_iff [simp del]
declare Some_eq_map_of_iff [simp del]

section \<open>Reads after the operations of Dispatch\<close>

lemma on_get [simp]:
  "base (on_base f s) = f (base s)" "hall (on_hall g s) = g (hall s)"
  "connLimiter (on_base f s) = connLimiter s" "peerLimiter (on_base f s) = peerLimiter s"
  "passwordBusy (on_base f s) = passwordBusy s" "curConns (on_base f s) = curConns s"
  "connLimiter (on_hall g s) = connLimiter s" "peerLimiter (on_hall g s) = peerLimiter s"
  "passwordBusy (on_hall g s) = passwordBusy s" "curConns (on_hall g s) = curConns s"
  "wudp (base (on_hall g s)) = wudp (base s)" "datagrams (base (on_hall g s)) = datagrams (base s)"
  by (simp_all add: on_base_def on_hall_def)

lemma meter_get [simp]:
  "hall (meter f s) = hall s" "curConns (meter f s) = curConns s" "wudp (base (meter f s)) = wudp (base s)" "datagrams (base (meter f s)) = datagrams (base s)"
  "passwordBusy (meter f s) = passwordBusy s" "wsframes (base (meter f s)) = wsframes (base s)"
  by (simp_all add: meter_def)

lemma send_msg_get [simp]:
  "hall (fst (send_msg E c typ i p s)) = hall s" "curConns (fst (send_msg E c typ i p s)) = curConns s"
  "wudp (base (fst (send_msg E c typ i p s))) = wudp (base s)" "datagrams (base (fst (send_msg E c typ i p s))) = datagrams (base s)"
  "passwordBusy (fst (send_msg E c typ i p s)) = passwordBusy s"
  by (simp_all add: send_msg_def ws_write_def split: option.splits prod.splits)

lemma sendError_get [simp]:
  "hall (sendError E c i err msg s) = hall s" "curConns (sendError E c i err msg s) = curConns s"
  "wudp (base (sendError E c i err msg s)) = wudp (base s)" "datagrams (base (sendError E c i err msg s)) = datagrams (base s)"
  "hall (protoError E c msg s) = hall s" "curConns (protoError E c msg s) = curConns s"
  "wudp (base (protoError E c msg s)) = wudp (base s)" "datagrams (base (protoError E c msg s)) = datagrams (base s)"
  by (simp_all add: sendError_def protoError_def)

lemma allowPeer_get [simp]:
  "base (fst (allowPeer p a l d s)) = base s" "curConns (fst (allowPeer p a l d s)) = curConns s"
  "passwordBusy (fst (allowPeer p a l d s)) = passwordBusy s"
  by (simp_all add: allowPeer_def split: prod.splits)

lemma SendText_get [simp]:
  "wlobby (fst (SendText (ws_write q) p body w)) = wlobby w" "wudp (fst (SendText (ws_write q) p body w)) = wudp w"
  "datagrams (fst (SendText (ws_write q) p body w)) = datagrams w"
  by (simp_all add: SendText_def split: option.splits)

lemma fold_texts:
  "wlobby (fold (\<lambda>q w. if P q w then w else fst (SendText (ws_write f) (g q w) body w)) ps w) = wlobby w"
  "wudp (fold (\<lambda>q w. if P q w then w else fst (SendText (ws_write f) (g q w) body w)) ps w) = wudp w"
  "datagrams (fold (\<lambda>q w. if P q w then w else fst (SendText (ws_write f) (g q w) body w)) ps w) = datagrams w"
  by (induction ps arbitrary: w) simp_all

lemma broadcast_get [simp]:
  "hall (broadcastToOthers E r x typ i p s) = hall s" "curConns (broadcastToOthers E r x typ i p s) = curConns s"
  "wudp (base (broadcastToOthers E r x typ i p s)) = wudp (base s)" "datagrams (base (broadcastToOthers E r x typ i p s)) = datagrams (base s)"
  by (simp_all add: broadcastToOthers_def fold_texts split: option.splits)

lemma active_rooms_get [simp]:
  "hall (active_rooms s) = hall s" "curConns (active_rooms s) = curConns s" "wudp (base (active_rooms s)) = wudp (base s)" "datagrams (base (active_rooms s)) = datagrams (base s)"
  by (simp_all add: active_rooms_def)

section \<open>Effects on the lobby are runs of the lobby\<close>

definition at_rest :: "lobby \<Rightarrow> (room_ref \<times> u64) list \<Rightarrow> sched" where
  "at_rest L cs = \<lparr>lob = L, pcs = (\<lambda>_. Idle), calls = cs\<rparr>"

definition lobby_run :: "(string \<Rightarrow> string) \<Rightarrow> lobby \<Rightarrow> lobby \<Rightarrow> bool" where
  "lobby_run u L L' \<longleftrightarrow> (\<forall>cs. (lobby_step u)\<^sup>*\<^sup>* (at_rest L cs) (at_rest L' cs))"

lemma at_rest_get [simp]:
  "lob (at_rest L cs) = L" "pcs (at_rest L cs) p = Idle" "sched.calls (at_rest L cs) = cs"
  "(at_rest L cs)\<lparr>lob := L'\<rparr> = at_rest L' cs" "goes p Idle L' (goes p pc L (at_rest M cs)) = at_rest L' cs"
  "goes p Idle L' (at_rest M cs) = at_rest L' cs"
  by (auto simp: at_rest_def goes_def fun_eq_iff)

lemma lobby_run_refl [simp]: "lobby_run u L L"
  by (simp add: lobby_run_def)

lemma lobby_run_trans: "lobby_run u L M \<Longrightarrow> lobby_run u M N \<Longrightarrow> lobby_run u L N"
  unfolding lobby_run_def by (meson rtranclp_trans)

lemma run_one: "(\<And>cs. lobby_step u (at_rest L cs) (at_rest M cs)) \<Longrightarrow> lobby_run u L M"
  by (simp add: lobby_run_def r_into_rtranclp)

lemma run_attribute:
  "peerID (f (peer_at L p)) = peerID (peer_at L p) \<Longrightarrow> curRoom (f (peer_at L p)) = curRoom (peer_at L p) \<Longrightarrow>
    lobby_run u L (upd_peer p f L)"
  using lobby_step.attribute [of f "at_rest L cs" p u for cs] by (intro run_one) simp

lemma run_publish: "lobby_run u L (L\<lparr>deltas := ds, released := rs\<rparr>)"
  using lobby_step.publish [of u "at_rest L cs" for cs] by (intro run_one) simp

lemma run_notify: "lobby_run u L (notify d L)"
  using run_publish [of u L, where ds = "deltas L @ [d]" and rs = "released L"] by (simp add: notify_def)

lemma run_PublishUpdate: "lobby_run u L (PublishUpdate r L)"
  by (simp add: PublishUpdate_def run_notify)

lemma run_queue: "lobby_run u L (upd_room r (\<lambda>rm. rm\<lparr>audioCh := q\<rparr>) L)"
  using lobby_step.queue [of u "at_rest L cs" for cs] by (intro run_one) simp

lemma run_release: "lobby_run u L (release f L)"
  using run_publish [of u L, where ds = "deltas L"] by (simp add: release_def split: option.splits)

lemma run_Forward: "lobby_run u L (fst (Forward r f L))"
proof -
  have "upd_room r (\<lambda>rm. rm\<lparr>audioCh := audioCh rm @ [f]\<rparr>) L =
    upd_room r (\<lambda>rm. rm\<lparr>audioCh := audioCh (room_at L r) @ [f]\<rparr>) L"
    by (simp add: upd_room_def)
  then show ?thesis
    using run_queue [of u L r "audioCh (room_at L r) @ [f]"] by (simp add: Forward_def run_release)
qed

lemma run_Create:
  assumes "p < next_peer L" "curRoom (peer_at L p) = None"
  shows "lobby_run u L (fst (Create u uid name vis hash L))"
proof (cases "Create_locked u uid name vis hash L")
  case (Pair M res)
  show ?thesis
  proof (cases res)
    case (Inl e)
    with Pair have "M = L"
      by (auto simp: Create_locked_def Let_def split: if_splits)
    with Pair Inl show ?thesis
      by (simp add: Create_def)
  next
    case (Inr r)
    let ?N = "scheduleDestroyIfEmpty r roomIdleNoJoinDur M"
    have "(lobby_step u)\<^sup>*\<^sup>* (at_rest L cs) (at_rest ?N cs)" for cs
    proof -
      let ?S = "goes p (Creating r) M (at_rest L cs)"
      have "lobby_step u (at_rest L cs) ?S"
        by (rule lobby_step.create) (use assms Pair Inr in simp_all)
      moreover have "lobby_step u ?S (at_rest ?N cs)"
        using lobby_step.created [of ?S p r u] by simp
      ultimately show ?thesis
        by (meson converse_rtranclp_into_rtranclp rtranclp.rtrancl_refl)
    qed
    then have "lobby_run u L ?N"
      by (simp add: lobby_run_def)
    then show ?thesis
      using Pair Inr by (auto simp: Create_def Let_def intro: lobby_run_trans run_notify)
  qed
qed

lemma run_Add:
  assumes "p < next_peer L" "curRoom (peer_at L p) = None" "r < next_room L"
  shows "lobby_run u L (fst (Add r p L))"
proof (cases "Add_locked r p L")
  case (Pair M res)
  show ?thesis
  proof (cases res)
    case (Inl e)
    with Pair have "M = L"
      by (auto simp: Add_locked_def Let_def split: if_splits)
    with Pair Inl show ?thesis
      by (simp add: Add_def)
  next
    case (Inr others)
    let ?N = "upd_peer p (setRoom (Some r)) M"
    have "(lobby_step u)\<^sup>*\<^sup>* (at_rest L cs) (at_rest ?N cs)" for cs
    proof -
      let ?S = "goes p (Added r) M (at_rest L cs)"
      have "lobby_step u (at_rest L cs) ?S"
        by (rule lobby_step.join) (use assms Pair Inr in simp_all)
      moreover have "lobby_step u ?S (at_rest ?N cs)"
        using lobby_step.joined [of ?S p r u] by simp
      ultimately show ?thesis
        by (meson converse_rtranclp_into_rtranclp rtranclp.rtrancl_refl)
    qed
    then show ?thesis
      using Pair Inr by (simp add: Add_def lobby_run_def)
  qed
qed

lemma run_Remove:
  assumes "p < next_peer L" "curRoom (peer_at L p) = Some r"
  shows "lobby_run u L (Remove r (peerID (peer_at L p)) L)"
proof (cases "Remove_locked r (peerID (peer_at L p)) L")
  case (Pair M res)
  show ?thesis
  proof (cases res)
    case None
    with Pair have "M = L"
      by (auto simp: Remove_locked_def Let_def split: option.splits)
    with Pair None show ?thesis
      by (simp add: Remove_def)
  next
    case (Some qe)
    obtain q e where qe: "qe = (q, e)"
      by (cases qe)
    let ?U = "upd_peer q (setRoom None) M"
    let ?sched = "e \<and> registry (room_at M r)"
    let ?N = "if ?sched then scheduleDestroyIfEmpty r roomEmptyDestroyDur ?U else ?U"
    have "(lobby_step u)\<^sup>*\<^sup>* (at_rest L cs) (at_rest ?N cs)" for cs
    proof -
      let ?S = "goes p (Deleted r q e) M (at_rest L cs)"
      let ?T = "goes p (if ?sched then Unset r else Idle) ?U ?S"
      have "lobby_step u (at_rest L cs) ?S"
        by (rule lobby_step.leave) (use assms Pair Some qe in simp_all)
      moreover have "lobby_step u ?S ?T"
        using lobby_step.unset [of ?S p r q e u] by simp
      moreover have "(lobby_step u)\<^sup>*\<^sup>* ?T (at_rest ?N cs)"
      proof (cases ?sched)
        case True
        have t: "goes p Idle L3 (goes p x L2 (goes p y L1 (at_rest L cs))) = at_rest L3 cs" for x y L1 L2 L3
          by (auto simp: at_rest_def goes_def fun_eq_iff)
        have "lobby_step u ?T (goes p Idle ?N ?T)"
          using lobby_step.scheduled [of ?T p r u] True by simp
        then show ?thesis
          using t by (simp add: r_into_rtranclp)
      next
        case False
        then show ?thesis
          by auto
      qed
      ultimately show ?thesis
        by (meson converse_rtranclp_into_rtranclp)
    qed
    then show ?thesis
      using Pair Some qe by (simp add: Remove_def lobby_run_def Let_def)
  qed
qed

section \<open>What a handler may change\<close>

text \<open>
  \<open>wires L\<close> is what the UDP layer reads of the peers.  A handler of the session of \<open>p\<close> \<open>acts\<close> on
  the lobby: it is a run, leaves the wires alone, and moves no other peer into a room.
\<close>

definition wires :: "lobby \<Rightarrow> nat \<times> (peer_ref \<Rightarrow> uuid \<times> UDPAddr option \<times> bool)" where
  "wires L = (next_peer L, \<lambda>q. (peerID (peer_at L q), udpAddr (peer_at L q), udpSend (peer_at L q)))"

definition acts :: "(string \<Rightarrow> string) \<Rightarrow> peer_ref \<Rightarrow> lobby \<Rightarrow> lobby \<Rightarrow> bool" where
  "acts u p L L' \<longleftrightarrow> lobby_run u L L' \<and> wires L' = wires L \<and>
     (\<forall>q. q \<noteq> p \<longrightarrow> curRoom (peer_at L' q) = curRoom (peer_at L q) \<or> curRoom (peer_at L' q) = None)"

lemma acts_refl [simp]: "acts u p L L"
  by (simp add: acts_def)

lemma acts_trans: "acts u p L M \<Longrightarrow> acts u p M N \<Longrightarrow> acts u p L N"
  unfolding acts_def using lobby_run_trans by metis

lemma acts_wires: "acts u p L L' \<Longrightarrow> next_peer L' = next_peer L \<and> peerID (peer_at L' q) = peerID (peer_at L q) \<and>
    udpAddr (peer_at L' q) = udpAddr (peer_at L q) \<and> udpSend (peer_at L' q) = udpSend (peer_at L q)"
  by (auto simp: acts_def wires_def fun_eq_iff)

lemma acts_attribute:
  assumes "\<And>q. peerID (f q) = peerID q" "\<And>q. curRoom (f q) = curRoom q"
    and "\<And>q. udpAddr (f q) = udpAddr q" "\<And>q. udpSend (f q) = udpSend q"
  shows "acts u p L (upd_peer p' f L)"
  using assms by (auto simp: acts_def wires_def fun_eq_iff intro: run_attribute)

lemma acts_same_peers:
  "lobby_run u L L' \<Longrightarrow> peer_at L' = peer_at L \<Longrightarrow> next_peer L' = next_peer L \<Longrightarrow> acts u p L L'"
  by (simp add: acts_def wires_def)

lemma acts_Create:
  assumes "p < next_peer L" "curRoom (peer_at L p) = None"
  shows "acts u p L (fst (Create u uid name vis hash L))" "peer_at (fst (Create u uid name vis hash L)) = peer_at L"
proof -
  show "peer_at (fst (Create u uid name vis hash L)) = peer_at L"
    by (auto simp: Create_def Create_locked_def notify_def Let_def split: if_splits)
  then show "acts u p L (fst (Create u uid name vis hash L))"
    using run_Create [OF assms] 
    by (intro acts_same_peers) (auto simp: Create_def Create_locked_def notify_def Let_def split: if_splits)
qed

lemma Create_room: "Create u uid name vis hash L = (M, Inr r) \<Longrightarrow> r < next_room M \<and> r = next_room L"
  by (auto simp: Create_def Create_locked_def notify_def Let_def split: if_splits)

lemma Add_peers:
  "wires (fst (Add r p L)) = wires L"
  "q \<noteq> p \<Longrightarrow> curRoom (peer_at (fst (Add r p L)) q) = curRoom (peer_at L q)"
  by (auto simp: Add_def Add_locked_def wires_def fun_eq_iff Let_def)

lemma acts_Add:
  assumes "p < next_peer L" "curRoom (peer_at L p) = None" "r < next_room L"
  shows "acts u p L (fst (Add r p L))"
  using run_Add [OF assms] Add_peers by (simp add: acts_def)

lemma Remove_peers:
  "wires (Remove r pid L) = wires L"
  "curRoom (peer_at (Remove r pid L) q) = curRoom (peer_at L q) \<or> curRoom (peer_at (Remove r pid L) q) = None"
  by (auto simp: Remove_def Remove_locked_def wires_def fun_eq_iff Let_def split: option.splits)

lemma acts_Remove:
  assumes "p < next_peer L" "curRoom (peer_at L p) = Some r"
  shows "acts u p L (Remove r (peerID (peer_at L p)) L)"
  using run_Remove [OF assms] Remove_peers by (simp add: acts_def)

lemma acts_PublishUpdate: "acts u p L (PublishUpdate r L)"
  by (rule acts_same_peers [OF run_PublishUpdate]) (simp_all add: PublishUpdate_def notify_def)

lemma acts_join:
  assumes "p < next_peer (hall s)" "curRoom (peer_of s p) = None" "r < next_room (hall s)"
  shows "acts u p (hall s) (hall (joinPeerToRoom E c p r role i s))"
proof -
  let ?L = "upd_peer p (\<lambda>q. q\<lparr>Role := role\<rparr>) (hall s)"
  have a: "acts u p (hall s) ?L"
    by (rule acts_attribute) simp_all
  have b: "acts u p ?L (fst (Add r p ?L))"
    using assms by (intro acts_Add) simp_all
  show ?thesis
  proof (cases "Add r p ?L")
    case (Pair M res)
    show ?thesis
    proof (cases res)
      case (Inl e)
      with Pair a b show ?thesis
        by (cases e) (auto simp: joinPeerToRoom_def intro: acts_trans)
    next
      case (Inr others)
      with Pair a b show ?thesis
        by (auto simp: joinPeerToRoom_def Let_def intro: acts_trans acts_PublishUpdate)
    qed
  qed
qed

lemma acts_cleanup:
  assumes "p < next_peer (hall s)"
  shows "acts u p (hall s) (hall (cleanupPeer E p reason s))"
proof (cases "curRoom (peer_of s p)")
  case (Some r)
  with assms show ?thesis
    using acts_Remove [OF assms Some, of u]
    by (auto simp: cleanupPeer_def Let_def intro: acts_trans acts_PublishUpdate)
qed (simp add: cleanupPeer_def)

lemma acts_create_room:
  assumes "p < next_peer (hall s)" "curRoom (peer_of s p) = None"
  shows "acts (unicode_lower E) p (hall s) (hall (create_room E c p i uid name vis hash s))"
proof (cases "Create (unicode_lower E) uid name vis hash (hall s)")
  case (Pair M res)
  have a: "acts (unicode_lower E) p (hall s) M" "peer_at M = peer_at (hall s)"
    using acts_Create [OF assms, of "unicode_lower E" uid name vis hash] Pair by simp_all
  show ?thesis
  proof (cases res)
    case (Inl e)
    with Pair a show ?thesis
      by (simp add: create_room_def)
  next
    case (Inr r)
    let ?s = "active_rooms (meter (counter_inc ''nu_room_create_total'') (on_hall (\<lambda>_. M) s))"
    have "acts (unicode_lower E) p (hall ?s) (hall (joinPeerToRoom E c p r ''send'' i ?s))"
      using assms a acts_wires [OF a(1)] Create_room [OF Pair [unfolded Inr]] by (intro acts_join) simp_all
    with Pair Inr a show ?thesis
      by (auto simp: create_room_def Let_def intro: acts_trans)
  qed
qed

section \<open>The handlers\<close>

lemma allowPeer_case:
  "(case allowPeer p a l d s of (t, False) \<Rightarrow> f t | (t, True) \<Rightarrow> g t) =
    (if snd (allowPeer p a l d s) then g (fst (allowPeer p a l d s)) else f (fst (allowPeer p a l d s)))"
  by (cases "allowPeer p a l d s") (simp split: bool.splits)

lemma acts_handleRoomCreate:
  "p < next_peer (hall s) \<Longrightarrow> acts (unicode_lower E) p (hall s) (hall (handleRoomCreate E c p env uid s))"
  unfolding handleRoomCreate_def allowPeer_case
  using acts_create_room [of p "fst (allowPeer p ''room_create'' (RoomCreatePerPeerPerMinute (Limits (server E))) Minute s)" E]
  by (auto simp: Let_def split: option.splits hash_result.splits)

lemma Find_room: "names_ok L \<Longrightarrow> Find u name L = Some r \<Longrightarrow> r < next_room L"
  using names_ok_rooms by (auto simp: Find_def)

lemma acts_handleRoomJoin:
  "p < next_peer (hall s) \<Longrightarrow> names_ok (hall s) \<Longrightarrow>
    acts (unicode_lower E) p (hall s) (hall (handleRoomJoin E c p env s))"
  unfolding handleRoomJoin_def allowPeer_case
  using acts_join [of p "fst (allowPeer p ''room_join'' (RoomJoinPerPeerPerMinute (Limits (server E))) Minute s)" _ "unicode_lower E" E]
  by (auto simp: Let_def split: option.splits dest: Find_room)

lemma acts_handleRoomLeave:
  "p < next_peer (hall s) \<Longrightarrow> acts u p (hall s) (hall (handleRoomLeave E c p env s))"
  by (simp add: handleRoomLeave_def acts_cleanup)

lemma acts_handleRoomList: "hall (handleRoomList E c p env s) = hall s"
  unfolding handleRoomList_def allowPeer_case by simp

lemma acts_handlePeerMute: "acts u p (hall s) (hall (handlePeerMute E c p env s))"
proof -
  have "acts u p (hall s) (upd_peer p (SetMuted v) (hall s))" for v
    by (rule acts_attribute) simp_all
  then show ?thesis
    by (auto simp: handlePeerMute_def Let_def split: option.splits)
qed

lemma acts_handleSubscribe: "acts u p (hall s) (hall (handleSubscribe E c p env s))"
proof -
  have "acts u p (hall s) (upd_peer p (SetSubscribed ids) (hall s))" for ids
    by (rule acts_attribute) (simp_all add: SetSubscribed_def split: option.splits)
  then show ?thesis
    by (auto simp: handleSubscribe_def split: option.splits sum.splits)
qed

lemma acts_handleControl:
  assumes "p < next_peer (hall s)" "names_ok (hall s)"
  shows "acts (unicode_lower E) p (hall s) (hall (handleControl E c p bytes uid s))"
proof -
  have d: "acts (unicode_lower E) p (hall t) (hall (dispatch_type E c p env uid t))"
    if "p < next_peer (hall t)" "names_ok (hall t)" for env t
    using that
    by (simp add: dispatch_type_def acts_handleRoomCreate acts_handleRoomJoin acts_handleRoomLeave
        acts_handleRoomList acts_handlePeerMute acts_handleSubscribe handlePing_ws_def del: client_text.simps)
  show ?thesis
    using assms d [of "fst (allowPeer p ''control'' (ControlPerPeerPerMinute (Limits (server E))) Minute s)"]
    unfolding handleControl_def allowPeer_case by (auto split: option.splits)
qed

lemma acts_Forward: "acts u p L (fst (Forward r f L))"
  by (rule acts_same_peers [OF run_Forward]) (simp_all add: Forward_get)

lemma acts_handleAudio: "acts u p (hall s) (hall (handleAudio_ws E p bytes s))"
proof -
  have f: "acts u p L M" if "Forward r fr L = (M, b)" for r fr L M b
    using acts_Forward [of u p L r fr] that by simp
  show ?thesis
    unfolding handleAudio_ws_def allowPeer_case
    by (auto simp: Let_def split: sum.splits option.splits prod.splits bool.splits intro: f)
qed

section \<open>The end of a session and the UDP layer\<close>

text \<open>\<open>calm\<close>: a run that neither admits a peer nor moves one.\<close>

definition people :: "lobby \<Rightarrow> nat \<times> (peer_ref \<Rightarrow> uuid \<times> room_ref option)" where
  "people L = (next_peer L, \<lambda>q. (peerID (peer_at L q), curRoom (peer_at L q)))"

definition calm :: "(string \<Rightarrow> string) \<Rightarrow> lobby \<Rightarrow> lobby \<Rightarrow> bool" where
  "calm u L L' \<longleftrightarrow> lobby_run u L L' \<and> people L' = people L"

lemma calm_refl [simp]: "calm u L L"
  by (simp add: calm_def)

lemma calm_trans: "calm u L M \<Longrightarrow> calm u M N \<Longrightarrow> calm u L N"
  unfolding calm_def using lobby_run_trans by metis

lemma calm_people: "calm u L L' \<Longrightarrow> next_peer L' = next_peer L \<and> peerID (peer_at L' q) = peerID (peer_at L q) \<and>
    curRoom (peer_at L' q) = curRoom (peer_at L q)"
  by (auto simp: calm_def people_def fun_eq_iff)

lemma calm_peer:
  assumes "\<And>q. peerID (f q) = peerID q" "\<And>q. curRoom (f q) = curRoom q"
  shows "calm u L (upd_peer p f L)"
  using assms by (auto simp: calm_def people_def fun_eq_iff intro: run_attribute)

lemma calm_same_peers: "lobby_run u L L' \<Longrightarrow> peer_at L' = peer_at L \<Longrightarrow> next_peer L' = next_peer L \<Longrightarrow> calm u L L'"
  by (simp add: calm_def people_def)

lemma calm_on_peer:
  assumes "calm u L (wlobby w)" "\<And>q. peerID (f q) = peerID q" "\<And>q. curRoom (f q) = curRoom q"
  shows "calm u L (wlobby (on_peer p f w))"
proof -
  have "calm u (wlobby w) (upd_peer p f (wlobby w))"
    using assms(2,3) by (rule calm_peer)
  with assms(1) show ?thesis
    by (auto intro: calm_trans)
qed

lemma calm_addr [simp]: "calm u L (upd_peer p (SetUdpAddr a) L)"
  by (rule calm_peer) simp_all

lemma calm_Forward: "calm u L (fst (Forward r f L))"
  by (rule calm_same_peers [OF run_Forward]) (simp_all add: Forward_get)

lemma calm_release: "calm u L (release f L)"
  by (rule calm_same_peers [OF run_release]) (simp_all add: release_def split: option.splits)

lemma calm_bound: "calm u (wlobby w) (wlobby (bound src p t w))"
  by (simp add: bound_def calm_peer)

lemma calm_hello: "calm u (wlobby w) (wlobby (handleHello net pkt src w))"
  using calm_bound [of u "hello_charged pkt w"]
  by (auto simp: handleHello_eq split: verdict.splits prod.splits)

lemma calm_ping: "calm u (wlobby w) (wlobby (handlePing net pkt src w))"
  by (simp add: handlePing_eq split: sum.splits option.splits)

lemma calm_udp_audio: "calm u (wlobby w) (wlobby (handleAudio pkt src w))"
proof -
  have f: "calm u (wlobby w) M" if "Forward r fr (wlobby w) = (M, b)" for r fr M b
    using calm_Forward [of u "wlobby w" r fr] that by simp
  have l: "wlobby v = wlobby w" if "audio_limited w pid = (v, ok)" for pid v ok
    using limited_get(7) [of w pid] that by simp
  show ?thesis
    unfolding handleAudio_def
    by (auto simp: Let_def l split: option.splits sum.splits prod.splits bool.splits intro: f)
qed

lemma calm_receive: "calm u (wlobby w) (wlobby (receive net pkt src w))"
  by (auto simp: receive_def Let_def calm_hello calm_ping calm_udp_audio)

lemma calm_sender: "calm u (wlobby w) (wlobby (fst (makeUdpSender net p payload w)))"
proof -
  have l: "wlobby v = wlobby w" if "write_udp net pl a w = (v, ok)" for pl a v ok
    using write_udp_get(2) [of net pl a w] that by simp
  show ?thesis
    unfolding makeUdpSender_def
    by (auto simp: Let_def l split: option.splits prod.splits bool.splits)
qed

lemma calm_send_to: "calm u (wlobby w) (wlobby (fst (send_to net wsq p payload w)))"
proof -
  have "calm u (wlobby w) (wlobby v)" if "makeUdpSender net p payload w = (v, ok)" for v ok
    using calm_sender [of u w net p payload] that by simp
  then show ?thesis
    by (auto simp: send_to_def SendBinary_def split: prod.splits option.splits)
qed

lemma calm_fan: "calm u (wlobby w) (wlobby (fold (\<lambda>p w. fst (send_to net wsq p payload w)) ps w))"
  by (induction ps arbitrary: w) (auto intro: calm_trans calm_send_to)

lemma calm_fanOut: "calm u (wlobby w) (wlobby (fanOut net wsq r f w))"
  by (auto simp: fanOut_def Let_def split: option.splits intro: calm_release calm_trans calm_fan)

lemma calm_turn: "calm u (wlobby w) (wlobby (forward_turn net wsq r w))"
proof (cases "audioCh (room_at (wlobby w) r)")
  case (Cons f fs)
  let ?L = "upd_room r (\<lambda>rm. rm\<lparr>audioCh := fs\<rparr>) (wlobby w)"
  have "calm u (wlobby w) ?L"
    by (rule calm_same_peers [OF run_queue]) simp_all
  moreover have "calm u ?L (wlobby (fanOut net wsq r f (w\<lparr>wlobby := ?L\<rparr>)))"
    using calm_fanOut [of u "w\<lparr>wlobby := ?L\<rparr>"] by simp
  ultimately show ?thesis
    using Cons by (auto simp: forward_turn_def take_frame_def intro: calm_trans)
qed (simp add: forward_turn_def take_frame_def)

lemma calm_expire: "calm u (wlobby w) (wlobby (expireIdle t w))"
proof -
  have one: "calm u (wlobby w) (wlobby (expire_one t kb w))" for kb and w :: world
    by (auto simp: expire_one_def Let_def)
  have "calm u (wlobby w) (wlobby (fold (expire_one t) kbs w))" for kbs
    by (induction kbs arbitrary: w) (auto intro: calm_trans one)
  then show ?thesis
    by (simp add: expireIdle_def)
qed

lemma calm_attach: "calm u (wlobby w) (wlobby (AttachPeer p w))"
  by (simp add: AttachPeer_def Let_def calm_peer)

lemma calm_detach: "calm u (wlobby w) (wlobby (DetachPeer p w))"
proof -
  have "calm u (wlobby w) (upd_peer p (AttachUdpSender False) (wlobby w))"
    by (rule calm_peer) simp_all
  then show ?thesis
    by (auto simp: DetachPeer_def Let_def intro: calm_trans split: option.splits)
qed

lemma calm_leave: "calm u (hall s) (hall (leave_session E b p s))"
proof -
  have "calm u L (upd_peer p DetachSender L)" for L
    by (rule calm_peer) simp_all
  then show ?thesis
    by (auto simp: leave_session_def Let_def intro: calm_trans calm_detach)
qed

section \<open>What the handlers leave alone\<close>

definition apart :: "ws_state \<Rightarrow> udp_server \<times> (UDPAddr \<times> byte list) list \<times> int" where
  "apart s = (wudp (base s), datagrams (base s), curConns s)"

lemma apart_get [simp]:
  "apart (meter f s) = apart s" "apart (on_hall g s) = apart s" "apart (fst (send_msg E c typ i m s)) = apart s"
  "apart (sendError E c i err msg s) = apart s" "apart (protoError E c msg s) = apart s"
  "apart (fst (allowPeer p a l d s)) = apart s" "apart (broadcastToOthers E r x typ i q s) = apart s"
  "apart (active_rooms s) = apart s" "apart (s\<lparr>connLimiter := cl\<rparr>) = apart s"
  by (simp_all add: apart_def)

lemma apart_join [simp]: "apart (joinPeerToRoom E c p r role i s) = apart s"
  by (auto simp: joinPeerToRoom_def Let_def split: prod.splits sum.splits room_error.splits)

lemma apart_cleanup [simp]: "apart (cleanupPeer E p reason s) = apart s"
  by (simp add: cleanupPeer_def Let_def split: option.splits)

lemma apart_create_room [simp]: "apart (create_room E c p i uid name vis hash s) = apart s"
  by (auto simp: create_room_def Let_def split: prod.splits sum.splits)

lemma apart_handlers [simp]:
  "apart (handleRoomCreate E c p env uid s) = apart s" "apart (handleRoomJoin E c p env s) = apart s"
  "apart (handleRoomLeave E c p env s) = apart s" "apart (handleRoomList E c p env s) = apart s"
  "apart (handlePeerMute E c p env s) = apart s" "apart (handleSubscribe E c p env s) = apart s"
  "apart (handlePing_ws E c env s) = apart s"
  unfolding handleRoomCreate_def handleRoomJoin_def handleRoomLeave_def handleRoomList_def handlePeerMute_def
    handleSubscribe_def handlePing_ws_def allowPeer_case
  by (auto simp: Let_def split: option.splits hash_result.splits sum.splits)

lemma apart_handleControl [simp]: "apart (handleControl E c p bytes uid s) = apart s"
  unfolding handleControl_def allowPeer_case
  by (simp add: dispatch_type_def split: option.splits del: client_text.simps)

lemma apart_handleAudio [simp]: "apart (handleAudio_ws E p bytes s) = apart s"
  unfolding handleAudio_ws_def allowPeer_case
  by (auto simp: Let_def split: sum.splits option.splits prod.splits bool.splits)

lemma check_hello_case:
  "check_hello E c ip isText bytes s = (s', res) \<Longrightarrow> hall s' = hall s \<and> apart s' = apart s"
  by (auto simp: check_hello_def check_password_def Let_def split: if_splits prod.splits bool.splits option.splits)

lemma udp_inv_wires:
  assumes "wudp w' = wudp w" "wires (wlobby w') = wires (wlobby w)"
  shows "udp_inv w' = udp_inv w"
  using assms by (simp add: udp_inv_def wires_def fun_eq_iff Let_def)

section \<open>Runs of the server\<close>

text \<open>
  \<open>conns\<close> are the connections \<open>HandleHTTP\<close> counts, \<open>sessions\<close> those whose \<open>run\<close> is in its main loop, with
  their peers, and \<open>expired\<close> the destroy callbacks whose timer has fired.
\<close>

record server_run =
  st :: ws_state
  conns :: "conn_ref list"
  sessions :: "(conn_ref \<times> peer_ref) list"
  expired :: "(room_ref \<times> u64) list"

definition fresh_id :: "uuid \<Rightarrow> lobby \<Rightarrow> bool" where
  "fresh_id uid L \<longleftrightarrow> (\<forall>q < next_peer L. peerID (peer_at L q) \<noteq> uid)"

inductive server_step ::
  "env \<Rightarrow> (UDPAddr \<Rightarrow> byte list \<Rightarrow> bool) \<Rightarrow> server_run \<Rightarrow> server_run \<Rightarrow> bool" for E net where
  upgrade: "HandleHTTP E origins (st R) = (s, Upgrade) \<Longrightarrow> c \<notin> set (conns R) \<Longrightarrow>
    server_step E net R (R\<lparr>st := HandleHTTP_accepted s, conns := c # conns R\<rparr>)"
| upgrade_failed: "HandleHTTP E origins (st R) = (s, Upgrade) \<Longrightarrow>
    server_step E net R (R\<lparr>st := HandleHTTP_closed s\<rparr>)"
| refuse: "HandleHTTP E origins (st R) = (s, a) \<Longrightarrow> a \<noteq> Upgrade \<Longrightarrow> server_step E net R (R\<lparr>st := s\<rparr>)"
| silent: "c \<in> set (conns R) \<Longrightarrow> map_of (sessions R) c = None \<Longrightarrow>
    server_step E net R (R\<lparr>st := HandleHTTP_closed (st R), conns := remove1 c (conns R)\<rparr>)"
| hello: "c \<in> set (conns R) \<Longrightarrow> map_of (sessions R) c = None \<Longrightarrow> fresh_id uid (hall (st R)) \<Longrightarrow>
    run_hello E c ip host uid random isText bytes (st R) = (s, Some p) \<Longrightarrow>
    server_step E net R (R\<lparr>st := s, sessions := (c, p) # sessions R\<rparr>)"
| bad_hello: "c \<in> set (conns R) \<Longrightarrow> map_of (sessions R) c = None \<Longrightarrow> fresh_id uid (hall (st R)) \<Longrightarrow>
    run_hello E c ip host uid random isText bytes (st R) = (s, None) \<Longrightarrow>
    server_step E net R (R\<lparr>st := HandleHTTP_closed s, conns := remove1 c (conns R)\<rparr>)"
| control: "map_of (sessions R) c = Some p \<Longrightarrow> server_step E net R (R\<lparr>st := handleControl E c p bytes uid (st R)\<rparr>)"
| audio: "map_of (sessions R) c = Some p \<Longrightarrow> server_step E net R (R\<lparr>st := handleAudio_ws E p bytes (st R)\<rparr>)"
| hangup: "map_of (sessions R) c = Some p \<Longrightarrow>
    server_step E net R (R\<lparr>st := HandleHTTP_closed (end_session E p (st R)), conns := remove1 c (conns R),
      sessions := AList.delete c (sessions R)\<rparr>)"
| listen: "server_step E net R (R\<lparr>st := on_base (on_udp Listen) (st R)\<rparr>)"
| datagram: "server_step E net R (R\<lparr>st := on_base (receive net pkt src) (st R)\<rparr>)"
| forward: "server_step E net R (R\<lparr>st := on_base (forward_turn net (write_queue E) r) (st R)\<rparr>)"
| sweep: "server_step E net R (R\<lparr>st := on_base (\<lambda>w. expireIdle (now w) w) (st R)\<rparr>)"
| fire: "map_of (timers (hall (st R))) t = Some T \<Longrightarrow> timerAt T \<le> clock (hall (st R)) \<Longrightarrow>
    server_step E net R (R\<lparr>st := on_hall (\<lambda>L. L\<lparr>timers := AList.delete t (timers L)\<rparr>) (st R),
      expired := (timerRoom T, timerGeneration T) # expired R\<rparr>)"
| expire_room: "(r, g) \<in> set (expired R) \<Longrightarrow>
    server_step E net R (R\<lparr>st := on_hall (destroy r g) (st R), expired := remove1 (r, g) (expired R)\<rparr>)"
| tick: "0 \<le> d \<Longrightarrow> server_step E net R (R\<lparr>st := on_hall (\<lambda>L. L\<lparr>clock := clock L + d\<rparr>) (st R)\<rparr>)"

definition start_server :: "env \<Rightarrow> int \<Rightarrow> int \<Rightarrow> server_run" where
  "start_server E max_rooms max_peers =
     \<lparr>st = \<lparr>base = (world0 max_rooms max_peers (HelloPerIPPerMinute (Limits (server E)))
               (AudioFramesPerPeerPerSec (Limits (server E))))
                 \<lparr>wlobby := SetDeltaListener True (NewRegistry max_rooms max_peers)\<rparr>,
            connLimiter = New, peerLimiter = New, passwordBusy = 0, curConns = 0\<rparr>,
      conns = [], sessions = [], expired = []\<rparr>"

text \<open>The lobby of a server, at rest between handlers.\<close>

definition lobby_of :: "server_run \<Rightarrow> sched" where
  "lobby_of R = at_rest (hall (st R)) (expired R)"

definition conns_ok :: "env \<Rightarrow> server_run \<Rightarrow> bool" where
  "conns_ok E R \<longleftrightarrow> distinct (conns R) \<and> curConns (st R) = int (length (conns R)) \<and>
     int (length (conns R)) \<le> max 0 (MaxConnections (server E))"

definition sessions_ok :: "env \<Rightarrow> server_run \<Rightarrow> bool" where
  "sessions_ok E R \<longleftrightarrow> wf_map (sessions R) \<and> distinct (map snd (sessions R)) \<and>
     (\<forall>c p. map_of (sessions R) c = Some p \<longrightarrow> c \<in> set (conns R) \<and> p < next_peer (hall (st R)) \<and>
        (UdpOn (server E) \<longrightarrow> map_of (peerByID (wudp (base (st R)))) (peerID (peer_of (st R) p)) = Some p)) \<and>
     (\<forall>p. curRoom (peer_of (st R) p) \<noteq> None \<longrightarrow> p \<in> set (map snd (sessions R)))"

definition server_inv :: "env \<Rightarrow> server_run \<Rightarrow> bool" where
  "server_inv E R \<longleftrightarrow> lobby_inv (lobby_of R) \<and> udp_inv (base (st R)) \<and> conns_ok E R \<and> sessions_ok E R"

section \<open>The handshake\<close>

lemma run_inv: "lobby_run u L L' \<Longrightarrow> lobby_inv (at_rest L cs) \<Longrightarrow> lobby_inv (at_rest L' cs)"
  unfolding lobby_run_def using lobby.run_keeps by blast

text \<open>\<open>joins u uid s t\<close>: from \<open>s\<close> to \<open>t\<close> one peer has been admitted, with identifier \<open>uid\<close> and in no room.\<close>

definition joins :: "(string \<Rightarrow> string) \<Rightarrow> uuid \<Rightarrow> ws_state \<Rightarrow> ws_state \<Rightarrow> bool" where
  "joins u uid s t \<longleftrightarrow> (let n = next_peer (hall s) in
     curConns t = curConns s \<and> udp_inv (base t) \<and> lobby_run u (hall s) (hall t) \<and> next_peer (hall t) = Suc n \<and>
     (\<forall>q. q \<noteq> n \<longrightarrow> peerID (peer_of t q) = peerID (peer_of s q) \<and> curRoom (peer_of t q) = curRoom (peer_of s q)) \<and>
     peerID (peer_of t n) = uid \<and> curRoom (peer_of t n) = None \<and>
     (\<forall>i. i \<noteq> uid \<longrightarrow> map_of (peerByID (wudp (base t))) i = map_of (peerByID (wudp (base s))) i))"

lemma joins_calm:
  assumes "joins u uid s t" "calm u (hall t) (hall t')" "udp_inv (base t')" "curConns t' = curConns t"
    and "\<And>i. i \<noteq> uid \<Longrightarrow> map_of (peerByID (wudp (base t'))) i = map_of (peerByID (wudp (base t))) i"
  shows "joins u uid s t'"
  using assms calm_people [OF assms(2)] unfolding joins_def Let_def calm_def by (auto intro: lobby_run_trans)

lemma run_connect:
  assumes "fresh_id uid L"
  shows "lobby_run u L (connect_peer uid username ip c L)"
proof -
  let ?M = "L\<lparr>peer_at := (peer_at L)(next_peer L := NewPeer uid username '''' (clock L)), next_peer := next_peer L + 1\<rparr>"
  have "lobby_run u L ?M"
    using lobby_step.connect [of "at_rest L cs" uid u username "''''" for cs] assms
    by (intro run_one) (simp add: fresh_id_def)
  moreover have "lobby_run u ?M (upd_peer p f ?M)" if "f = (\<lambda>q. q\<lparr>RemoteIP := ip\<rparr>)" for p f
    by (rule run_attribute) (simp_all add: that)
  moreover have "lobby_run u M (upd_peer p (AttachSender c) M)" for M p
    by (rule run_attribute) simp_all
  ultimately show ?thesis
    unfolding connect_peer_def Let_def by (blast intro: lobby_run_trans)
qed

lemma connect_get [simp]:
  "next_peer (connect_peer uid username ip c L) = Suc (next_peer L)"
  "q \<noteq> next_peer L \<Longrightarrow> peer_at (connect_peer uid username ip c L) q = peer_at L q"
  "peerID (peer_at (connect_peer uid username ip c L) (next_peer L)) = uid"
  "curRoom (peer_at (connect_peer uid username ip c L) (next_peer L)) = None"
  "udpAddr (peer_at (connect_peer uid username ip c L) (next_peer L)) = None"
  by (simp_all add: connect_peer_def Let_def)

lemma unallocated_addr: "udp_inv w \<Longrightarrow> next_peer (wlobby w) \<le> p \<Longrightarrow> udpAddr (the_peer w p) = None"
proof (rule ccontr)
  assume inv: "udp_inv w" and p: "next_peer (wlobby w) \<le> p" and "udpAddr (the_peer w p) \<noteq> None"
  then obtain a where "udpAddr (the_peer w p) = Some a"
    by blast
  then obtain b where "map_of (peerByAddr (wudp w)) (addr_String a) = Some b" "bindPeer b = p"
    using inv_addr [OF inv] by blast
  with inv_binding [OF inv] inv_attached [OF inv] p show False
    by fastforce
qed

lemma joins_connect:
  assumes inv: "udp_inv (base s)" and fresh: "fresh_id uid (hall s)"
  shows "joins u uid s (on_hall (connect_peer uid username ip c) s)"
proof -
  let ?L = "connect_peer uid username ip c (hall s)"
  have "udpAddr (peer_at ?L p) = None" if "next_peer (hall s) \<le> p" for p
    using that unallocated_addr [OF inv that] by (cases "p = next_peer (hall s)") simp_all
  then have "udp_inv ((base s)\<lparr>wlobby := ?L\<rparr>)"
    by (intro inv_lobby [OF inv]) simp_all
  then show ?thesis
    using run_connect [OF fresh] by (simp add: joins_def Let_def on_hall_def on_base_def)
qed

lemma fresh_not_attached: "udp_inv w \<Longrightarrow> fresh_id uid (wlobby w) \<Longrightarrow> map_of (peerByID (wudp w)) uid = None"
proof (rule ccontr)
  assume inv: "udp_inv w" and fresh: "fresh_id uid (wlobby w)" and "map_of (peerByID (wudp w)) uid \<noteq> None"
  then obtain p where "map_of (peerByID (wudp w)) uid = Some p"
    by blast
  from inv_attached [OF inv this] fresh show False
    by (auto simp: fresh_id_def)
qed

lemma leave_udp:
  assumes "udp_inv (base s)" "b \<Longrightarrow> map_of (peerByID (wudp (base s))) (peerID (peer_of s p)) = Some p"
  shows "udp_inv (base (leave_session E b p s))"
    and "i \<noteq> peerID (peer_of s p) \<Longrightarrow>
      map_of (peerByID (wudp (base (leave_session E b p s)))) i = map_of (peerByID (wudp (base s))) i"
    and "curConns (leave_session E b p s) = curConns s"
proof -
  let ?t = "if b then on_base (DetachPeer p) s else s"
  have "udp_inv (base ?t)"
    using assms inv_detach by auto
  moreover have "wires (upd_peer p DetachSender L) = wires L" for L
    by (simp add: wires_def fun_eq_iff)
  ultimately show "udp_inv (base (leave_session E b p s))"
    using udp_inv_wires [of "(base ?t)\<lparr>wlobby := upd_peer p DetachSender (hall ?t)\<rparr>" "base ?t"]
    by (simp add: leave_session_def meter_def on_hall_def Let_def)
  show "i \<noteq> peerID (peer_of s p) \<Longrightarrow>
      map_of (peerByID (wudp (base (leave_session E b p s)))) i = map_of (peerByID (wudp (base s))) i"
    using assms(1) by (auto simp: leave_session_def Let_def DetachPeer_eq go_map split: option.splits)
  show "curConns (leave_session E b p s) = curConns s"
    by (simp add: leave_session_def Let_def)
qed

lemma joins_leave:
  assumes j: "joins u uid s t" and b: "b \<Longrightarrow> map_of (peerByID (wudp (base t))) uid = Some (next_peer (hall s))"
  shows "joins u uid s (leave_session E b (next_peer (hall s)) t)"
proof -
  let ?p = "next_peer (hall s)"
  from j have p: "peerID (peer_of t ?p) = uid" "udp_inv (base t)"
    by (simp_all add: joins_def Let_def)
  with b have a: "b \<Longrightarrow> map_of (peerByID (wudp (base t))) (peerID (peer_of t ?p)) = Some ?p"
    by simp
  show ?thesis
    using leave_udp [OF p(2) a] p by (intro joins_calm [OF j calm_leave]) simp_all
qed

lemma joins_mint:
  assumes j: "joins u uid s t" and none: "map_of (peerByID (wudp (base t))) uid = None"
  shows "joins u uid s (t\<lparr>base := fst (MintToken random uid (base t))\<rparr>)"
    and "map_of (peerByID (wudp (fst (MintToken random uid (base t))))) uid = None"
proof -
  have inv: "udp_inv (base t)"
    using j by (simp add: joins_def Let_def)
  have "wlobby (fst (MintToken random uid (base t))) = hall t"
    "peerByID (wudp (fst (MintToken random uid (base t)))) = peerByID (wudp (base t))"
    by (simp_all add: MintToken_def split: option.splits)
  with none show "joins u uid s (t\<lparr>base := fst (MintToken random uid (base t))\<rparr>)"
    "map_of (peerByID (wudp (fst (MintToken random uid (base t))))) uid = None"
    using inv_mint [OF inv none, of random] by (auto intro!: joins_calm [OF j])
qed

lemma joins_attach:
  assumes j: "joins u uid s t" and none: "map_of (peerByID (wudp (base t))) uid = None"
  defines "t' \<equiv> on_base (AttachPeer (next_peer (hall s))) t"
  shows "joins u uid s t'" and "map_of (peerByID (wudp (base t'))) uid = Some (next_peer (hall s))"
proof -
  let ?p = "next_peer (hall s)"
  have p: "peerID (peer_of t ?p) = uid" "?p < next_peer (hall t)" "udp_inv (base t)"
    using j by (simp_all add: joins_def Let_def)
  show "joins u uid s t'"
    using inv_attach [OF p(3), of ?p] none p calm_attach [of u "base t" ?p]
    by (intro joins_calm [OF j]) (simp_all add: t'_def AttachPeer_eq go_map)
  show "map_of (peerByID (wudp (base t'))) uid = Some ?p"
    using p by (simp add: t'_def AttachPeer_eq go_map)
qed

lemma joins_send: "joins u uid s t \<Longrightarrow> joins u uid s (fst (send_msg E c typ i m t))"
proof -
  assume j: "joins u uid s t"
  then have "udp_inv (base (fst (send_msg E c typ i m t))) = udp_inv (base t)"
    by (intro udp_inv_wires) simp_all
  with j show ?thesis
    by (simp add: joins_def Let_def)
qed

lemma joins_meter: "joins u uid s (meter f t) = joins u uid s t"
  by (simp add: joins_def Let_def meter_def)

text \<open>
  A failed handshake either leaves the lobby and the UDP server alone or takes back what it did; a
  successful one admits one peer, attached to the UDP server if there is one.
\<close>

definition same_state :: "ws_state \<Rightarrow> ws_state \<Rightarrow> bool" where
  "same_state s t \<longleftrightarrow> hall t = hall s \<and> apart t = apart s"

lemma hello_effect:
  assumes inv: "udp_inv (base s)" and fresh: "fresh_id uid (hall s)"
    and run: "run_hello E c ip host uid random isText bytes s = (s', res)"
  shows "(res = None \<and> same_state s s') \<or>
    (joins u uid s s' \<and> (\<forall>p. res = Some p \<longrightarrow> p = next_peer (hall s) \<and>
       (UdpOn (server E) \<longrightarrow> map_of (peerByID (wudp (base s'))) uid = Some p)))"
proof (cases "check_hello E c ip isText bytes s")
  case (Pair s1 r)
  have s1: "hall s1 = hall s" "apart s1 = apart s"
    using check_hello_case [OF Pair] by simp_all
  show ?thesis
  proof (cases r)
    case None
    with Pair run s1 show ?thesis
      by (simp add: run_hello_def same_state_def)
  next
    case (Some iu)
    obtain reqID username where iu: "iu = (reqID, username)"
      by (cases iu)
    let ?p = "next_peer (hall s)"
    let ?t0 = "meter (gauge_add ''nu_active_peers'' 1) (on_hall (connect_peer uid username ip c) s1)"
    let ?ep = "advertised E host"
    let ?m = "if ?ep \<noteq> '''' then MintToken random uid (base ?t0) else (base ?t0, Some (of_bytes []))"
    have inv1: "udp_inv (base s1)" and fresh1: "fresh_id uid (hall s1)"
      using s1 fresh inv udp_inv_wires [of "base s1" "base s"] by (simp_all add: apart_def)
    have same: "joins u uid s1 = joins u uid s"
      using s1 by (simp add: joins_def fun_eq_iff apart_def)
    have j0: "joins u uid s ?t0"
      using joins_connect [OF inv1 fresh1, of u username ip c] by (simp add: joins_meter same)
    have n0: "map_of (peerByID (wudp (base ?t0))) uid = None"
      using fresh_not_attached [OF inv1 fresh1] by simp
    let ?t1 = "?t0\<lparr>base := fst ?m\<rparr>"
    have j1: "joins u uid s ?t1" and n1: "map_of (peerByID (wudp (base ?t1))) uid = None"
      using joins_mint [OF j0 n0, of random] j0 n0 by simp_all
    let ?t2 = "if UdpOn (server E) then on_base (AttachPeer ?p) ?t1 else ?t1"
    have j2: "joins u uid s ?t2"
      and a2: "UdpOn (server E) \<longrightarrow> map_of (peerByID (wudp (base ?t2))) uid = Some ?p"
      using joins_attach [OF j1 n1] j1 by simp_all
    show ?thesis
    proof (cases "snd ?m")
      case None
      then have "s' = leave_session E False ?p ?t0 \<and> res = None"
        using run Pair Some iu s1 unfolding run_hello_def by (auto simp: Let_def split: prod.splits option.splits if_splits)
      then show ?thesis
        using joins_leave [OF j0, of False E] by simp
    next
      case tok: (Some t)
      let ?w = "\<lparr>welcome_PeerID = uuid_String uid, welcome_ServerVersion = version E, welcome_UdpEndpoint = ?ep,
        welcome_UdpToken = (if ?ep \<noteq> '''' then EncodeToString (bytes_of t) else '''')\<rparr>"
      let ?x = "send_msg E c TypeWelcome reqID (Welcome ?w) ?t2"
      have j3: "joins u uid s (fst ?x)" and a3: "UdpOn (server E) \<longrightarrow> map_of (peerByID (wudp (base (fst ?x)))) uid = Some ?p"
        using joins_send [OF j2] a2 by simp_all
      have m: "?m = (fst ?m, Some t)"
        using tok by (cases ?m) simp
      have "(s', res) = (if snd ?x then (fst ?x, Some ?p) else (leave_session E (UdpOn (server E)) ?p (fst ?x), None))"
        using run Pair Some iu s1 m unfolding run_hello_def Let_def
        by (auto split: prod.splits option.splits bool.splits)
      then show ?thesis
        using j3 a3 joins_leave [OF j3, of "UdpOn (server E)" E] by (auto split: if_splits)
    qed
  qed
qed

section \<open>The invariant of the server\<close>

lemma server_inv_parts:
  "server_inv E R \<Longrightarrow> lobby_inv (lobby_of R)" "server_inv E R \<Longrightarrow> udp_inv (base (st R))"
  "server_inv E R \<Longrightarrow> conns_ok E R" "server_inv E R \<Longrightarrow> sessions_ok E R"
  "server_inv E R \<Longrightarrow> names_ok (hall (st R))"
  by (simp_all add: server_inv_def lobby_inv_def lobby_of_def)

lemma session_peer:
  "server_inv E R \<Longrightarrow> map_of (sessions R) c = Some p \<Longrightarrow> c \<in> set (conns R) \<and> p < next_peer (hall (st R)) \<and>
    (UdpOn (server E) \<longrightarrow> map_of (peerByID (wudp (base (st R)))) (peerID (peer_of (st R) p)) = Some p)"
  by (simp add: server_inv_def sessions_ok_def)

text \<open>A step of the UDP layer or of a forwarder.\<close>

lemma server_calm:
  assumes inv: "server_inv E R" and calm: "calm u (hall (st R)) (hall s)" and udp: "udp_inv (base s)"
    and same: "curConns s = curConns (st R)" "peerByID (wudp (base s)) = peerByID (wudp (base (st R)))"
  shows "server_inv E (R\<lparr>st := s\<rparr>)"
proof -
  have "lobby_inv (at_rest (hall s) (expired R))"
    using calm server_inv_parts(1) [OF inv] unfolding calm_def lobby_of_def by (blast intro: run_inv)
  with inv udp same calm_people [OF calm] show ?thesis
    by (simp add: server_inv_def lobby_of_def conns_ok_def sessions_ok_def)
qed

text \<open>A handler of a session.\<close>

lemma session_member: "map_of ss c = Some p \<Longrightarrow> p \<in> set (map snd ss)"
  by (force dest: map_of_SomeD)

lemma server_acts:
  assumes inv: "server_inv E R" and c: "map_of (sessions R) c = Some p"
    and acts: "acts u p (hall (st R)) (hall s)" and same: "apart s = apart (st R)"
  shows "server_inv E (R\<lparr>st := s\<rparr>)"
proof -
  have "lobby_inv (at_rest (hall s) (expired R))"
    using acts server_inv_parts(1) [OF inv] unfolding acts_def lobby_of_def by (blast intro: run_inv)
  moreover have "udp_inv (base s)"
    using udp_inv_wires [of "base s" "base (st R)"] same acts server_inv_parts(2) [OF inv]
    by (simp add: apart_def acts_def)
  moreover have "curRoom (peer_of s q) \<noteq> None \<Longrightarrow> q \<in> set (map snd (sessions R))" for q
    using server_inv_parts(4) [OF inv] acts session_member [OF c]
    unfolding sessions_ok_def acts_def by (cases "q = p") metis+
  then have "sessions_ok E (R\<lparr>st := s\<rparr>)"
    using server_inv_parts(4) [OF inv] acts_wires [OF acts] same
    by (simp add: sessions_ok_def apart_def)
  ultimately show ?thesis
    using inv same by (simp add: server_inv_def lobby_of_def conns_ok_def apart_def)
qed

lemma conns_remove:
  "conns_ok E R \<Longrightarrow> c \<in> set (conns R) \<Longrightarrow> curConns s = curConns (st R) \<Longrightarrow>
    conns_ok E (R\<lparr>st := HandleHTTP_closed s, conns := remove1 c (conns R), sessions := ss\<rparr>)"
  using length_pos_if_in_set [of c "conns R"]
  by (cases "length (conns R)") (auto simp: conns_ok_def HandleHTTP_closed_def length_remove1)

lemma closed_get [simp]:
  "base (HandleHTTP_closed s) = base s" "curConns (HandleHTTP_closed s) = curConns s - 1"
  by (simp_all add: HandleHTTP_closed_def)

lemma HandleHTTP_get:
  "HandleHTTP E origins s = (s', a) \<Longrightarrow> hall s' = hall s \<and> wudp (base s') = wudp (base s) \<and>
    (if a = Upgrade then curConns s < MaxConnections (server E) \<and> curConns s' = curConns s + 1 \<and> base s' = base s
     else curConns s' = curConns s)"
  by (auto simp: HandleHTTP_def split: if_splits)

lemma server_hello:
  assumes inv: "server_inv E R" and c: "c \<in> set (conns R)" "map_of (sessions R) c = None"
    and fresh: "fresh_id uid (hall (st R))"
    and run: "run_hello E c ip host uid random isText bytes (st R) = (s, Some p)"
  shows "server_inv E (R\<lparr>st := s, sessions := (c, p) # sessions R\<rparr>)"
proof -
  let ?n = "next_peer (hall (st R))"
  from hello_effect [OF server_inv_parts(2) [OF inv] fresh run, of id]
  have j: "joins id uid (st R) s" and p: "p = ?n" "UdpOn (server E) \<longrightarrow> map_of (peerByID (wudp (base s))) uid = Some p"
    by auto
  note J = j [unfolded joins_def Let_def]
  note S = server_inv_parts(4) [OF inv, unfolded sessions_ok_def]
  have "lobby_inv (at_rest (hall s) (expired R))"
    using J server_inv_parts(1) [OF inv] unfolding lobby_of_def by (blast intro: run_inv)
  moreover have "sessions_ok E (R\<lparr>st := s, sessions := (c, p) # sessions R\<rparr>)"
  proof -
    have old: "q < ?n \<and> peerID (peer_of (st R) q) \<noteq> uid" if "map_of (sessions R) d = Some q" for d q
      using S that fresh by (auto simp: fresh_id_def)
    have "p \<notin> set (map snd (sessions R))"
    proof
      assume "p \<in> set (map snd (sessions R))"
      then obtain d where "(d, p) \<in> set (sessions R)"
        by auto
      then have "map_of (sessions R) d = Some p"
        using S by (simp add: map_of_set_iff)
      with old p(1) show False
        by auto
    qed
    moreover have "c \<notin> fst ` set (sessions R)"
      using c(2) by (simp add: map_of_eq_None_iff)
    moreover have "curRoom (peer_of s q) \<noteq> None \<Longrightarrow> q \<in> set (map snd ((c, p) # sessions R))" for q
      using J S p(1) by (cases "q = ?n") auto
    moreover have "d \<in> set (conns R) \<and> q < next_peer (hall s) \<and>
        (UdpOn (server E) \<longrightarrow> map_of (peerByID (wudp (base s))) (peerID (peer_of s q)) = Some q)"
      if "map_of ((c, p) # sessions R) d = Some q" for d q
    proof (cases "d = c")
      case True
      with that c(1) p J show ?thesis
        by simp
    next
      case False
      with that have q: "map_of (sessions R) d = Some q"
        by simp
      have "q \<noteq> ?n" "q < Suc ?n" "peerID (peer_of s q) \<noteq> uid"
        using old [OF q] J by auto
      with q J S show ?thesis
        by simp
    qed
    ultimately show ?thesis
      using S unfolding sessions_ok_def by simp
  qed
  ultimately show ?thesis
    using inv J by (simp add: server_inv_def lobby_of_def conns_ok_def)
qed

lemma server_bad_hello:
  assumes inv: "server_inv E R" and c: "c \<in> set (conns R)" "map_of (sessions R) c = None"
    and fresh: "fresh_id uid (hall (st R))"
    and run: "run_hello E c ip host uid random isText bytes (st R) = (s, None)"
  shows "server_inv E (R\<lparr>st := HandleHTTP_closed s, conns := remove1 c (conns R)\<rparr>)"
proof -
  let ?n = "next_peer (hall (st R))"
  note S = server_inv_parts(4) [OF inv, unfolded sessions_ok_def]
  have c': "d \<noteq> c" if "map_of (sessions R) d = Some q" for d q
    using that c(2) by auto
  consider "same_state (st R) s" | "joins id uid (st R) s"
    using hello_effect [OF server_inv_parts(2) [OF inv] fresh run, of id] by auto
  then have "lobby_inv (at_rest (hall s) (expired R)) \<and> udp_inv (base s) \<and> curConns s = curConns (st R) \<and>
    sessions_ok E (R\<lparr>st := HandleHTTP_closed s, conns := remove1 c (conns R)\<rparr>)"
  proof cases
    case 1
    then show ?thesis
      using inv S c' udp_inv_wires [of "base s" "base (st R)"]
      by (auto simp: same_state_def apart_def server_inv_def lobby_of_def sessions_ok_def in_set_remove1)
  next
    case 2
    note J = 2 [unfolded joins_def Let_def]
    have old: "q < ?n \<and> peerID (peer_of (st R) q) \<noteq> uid" if "map_of (sessions R) d = Some q" for d q
      using S that fresh by (auto simp: fresh_id_def)
    have "lobby_inv (at_rest (hall s) (expired R))"
      using J server_inv_parts(1) [OF inv] unfolding lobby_of_def by (blast intro: run_inv)
    moreover have "curRoom (peer_of s q) \<noteq> None \<Longrightarrow> q \<in> set (map snd (sessions R))" for q
      using J S by (cases "q = ?n") auto
    moreover have "d \<in> set (remove1 c (conns R)) \<and> q < next_peer (hall s) \<and>
        (UdpOn (server E) \<longrightarrow> map_of (peerByID (wudp (base s))) (peerID (peer_of s q)) = Some q)"
      if "map_of (sessions R) d = Some q" for d q
    proof -
      have "q \<noteq> ?n" "q < Suc ?n" "peerID (peer_of s q) \<noteq> uid"
        using old [OF that] J by auto
      with that J S c' [OF that] show ?thesis
        by (simp add: in_set_remove1)
    qed
    ultimately show ?thesis
      using S J unfolding sessions_ok_def by simp
  qed
  then show ?thesis
    using conns_remove [OF server_inv_parts(3) [OF inv] c(1), of s "sessions R"]
    by (simp add: server_inv_def lobby_of_def)
qed

text \<open>The end of a session: the peer is out of its room before the session is forgotten.\<close>

lemma member_of_room:
  assumes inv: "server_inv E R" and p: "p < next_peer (hall (st R))" and r: "curRoom (peer_of (st R) p) = Some r"
  shows "r < next_room (hall (st R)) \<and> map_of (peers (room_at (hall (st R)) r)) (peerID (peer_of (st R) p)) = Some p"
proof -
  have "located (lobby_of R) p"
    using server_inv_parts(1) [OF inv] p by (simp add: lobby_inv_def members_ok_def lobby_of_def)
  with r show ?thesis
    by (simp add: located_def lobby_of_def Let_def)
qed

lemma cleanup_leaves:
  assumes inv: "server_inv E R" and p: "p < next_peer (hall (st R))"
  shows "curRoom (peer_of (cleanupPeer E p reason (st R)) p) = None"
proof (cases "curRoom (peer_of (st R) p)")
  case (Some r)
  have "peer_at (PublishUpdate r L) = peer_at L" for L
    by (simp add: PublishUpdate_def notify_def)
  with Some member_of_room [OF inv p Some] show ?thesis
    by (simp add: cleanupPeer_def Remove_def Remove_locked_def Let_def)
qed (simp add: cleanupPeer_def)

lemma server_hangup:
  assumes inv: "server_inv E R" and c: "map_of (sessions R) c = Some p"
  shows "server_inv E (R\<lparr>st := HandleHTTP_closed (end_session E p (st R)), conns := remove1 c (conns R),
      sessions := AList.delete c (sessions R)\<rparr>)"
proof -
  note P = session_peer [OF inv c]
  let ?s = "cleanupPeer E p ''disconnect'' (st R)" and ?e = "end_session E p (st R)"
  let ?Q = "R\<lparr>st := ?s\<rparr>"
  have invQ: "server_inv E ?Q"
    using P by (intro server_acts [OF inv c acts_cleanup]) simp_all
  have none: "curRoom (peer_of ?s p) = None"
    using P by (intro cleanup_leaves [OF inv]) simp
  note PQ = session_peer [OF invQ, of c p, simplified]
  note S = server_inv_parts(4) [OF invQ, unfolded sessions_ok_def, simplified]
  have e: "calm id (hall ?s) (hall ?e)"
    by (simp add: end_session_def calm_leave)
  note ce = calm_people [OF e]
  have att: "UdpOn (server E) \<Longrightarrow> map_of (peerByID (wudp (base ?s))) (peerID (peer_of ?s p)) = Some p"
    using PQ c by simp
  note udp = leave_udp [where b = "UdpOn (server E)" and E = E, OF server_inv_parts(2) [OF invQ, simplified] att,
      folded end_session_def]
  have "lobby_inv (at_rest (hall ?e) (expired R))"
    using e server_inv_parts(1) [OF invQ] unfolding calm_def lobby_of_def by (auto intro: run_inv)
  moreover have "conns_ok E (R\<lparr>st := HandleHTTP_closed ?e, conns := remove1 c (conns R), sessions := AList.delete c (sessions R)\<rparr>)"
    using conns_remove [OF server_inv_parts(3) [OF invQ], of c ?e] P udp(3) by simp
  moreover have "sessions_ok E (R\<lparr>st := HandleHTTP_closed ?e, conns := remove1 c (conns R), sessions := AList.delete c (sessions R)\<rparr>)"
  proof -
    have del: "set (AList.delete c (sessions R)) = {kv \<in> set (sessions R). fst kv \<noteq> c}"
      by (rule set_delete)
    have "inj_on snd (set (sessions R))"
      using S by (simp add: distinct_map)
    then have inj: "d = c" if "(d, p) \<in> set (sessions R)" for d
      using inj_onD [of snd "set (sessions R)" "(d, p)" "(c, p)"] that map_of_SomeD [OF c] by simp
    have members: "q \<in> set (map snd (AList.delete c (sessions R)))" if "curRoom (peer_of ?e q) \<noteq> None" for q
    proof -
      have "curRoom (peer_of ?s q) \<noteq> None" "q \<noteq> p"
        using that ce none by auto
      with S obtain d where "(d, q) \<in> set (sessions R)"
        by fastforce
      moreover have "d \<noteq> c"
        using \<open>(d, q) \<in> set (sessions R)\<close> \<open>q \<noteq> p\<close> S c by (metis map_of_is_SomeI option.inject)
      ultimately show ?thesis
        unfolding set_map del by force
    qed
    have entries: "d \<in> set (remove1 c (conns R)) \<and> q < next_peer (hall ?e) \<and>
        (UdpOn (server E) \<longrightarrow> map_of (peerByID (wudp (base ?e))) (peerID (peer_of ?e q)) = Some q)"
      if "map_of (AList.delete c (sessions R)) d = Some q" for d q
    proof -
      have d: "d \<noteq> c" "map_of (sessions R) d = Some q"
        using that by (auto simp: go_map split: if_splits)
      then have "q \<noteq> p"
        using inj [of d] map_of_SomeD by fastforce
      have "peerID (peer_of ?s q) \<noteq> peerID (peer_of ?s p)"
      proof
        assume "peerID (peer_of ?s q) = peerID (peer_of ?s p)"
        moreover have "q < next_peer (hall ?s)" "p < next_peer (hall ?s)"
          using S d(2) PQ c by auto
        moreover have "members_ok (lobby_of ?Q)"
          using server_inv_parts(1) [OF invQ] by (simp add: lobby_inv_def)
        ultimately show False
          using \<open>q \<noteq> p\<close> by (simp add: members_ok_def lobby_of_def)
      qed
      then show ?thesis
        using S d ce udp(2) by (simp add: in_set_remove1)
    qed
    have "distinct (map snd (AList.delete c (sessions R)))"
      using S by (simp add: AList.delete_eq distinct_map_filter)
    then show ?thesis
      unfolding sessions_ok_def using S members entries by (simp add: go_map)
  qed
  ultimately show ?thesis
    using udp(1) by (simp add: server_inv_def lobby_of_def)
qed

lemma server_lobby_step:
  assumes inv: "server_inv E R" and run: "lobby_step u (lobby_of R) (at_rest L cs)"
    and same: "peer_at L = peer_at (hall (st R))" "next_peer L = next_peer (hall (st R))"
  shows "server_inv E (R\<lparr>st := on_hall (\<lambda>_. L) (st R), expired := cs\<rparr>)"
proof -
  have "lobby_inv (at_rest L cs)"
    using lobby.step_keeps [OF run server_inv_parts(1) [OF inv]] .
  moreover have "udp_inv (base (on_hall (\<lambda>_. L) (st R)))"
    using udp_inv_wires [of "base (on_hall (\<lambda>_. L) (st R))" "base (st R)"] server_inv_parts(2) [OF inv] same
    by (simp add: wires_def)
  ultimately show ?thesis
    using inv same by (simp add: server_inv_def lobby_of_def conns_ok_def sessions_ok_def)
qed

lemma conns_upgrade:
  "conns_ok E R \<Longrightarrow> c \<notin> set (conns R) \<Longrightarrow> curConns (st R) < MaxConnections (server E) \<Longrightarrow>
    curConns s = curConns (st R) + 1 \<Longrightarrow> conns_ok E (R\<lparr>st := s, conns := c # conns R\<rparr>)"
  by (auto simp: conns_ok_def)

lemma server_same:
  assumes inv: "server_inv E R" and same: "hall s = hall (st R)" "wudp (base s) = wudp (base (st R))"
    and conns: "conns_ok E (R\<lparr>st := s, conns := cs\<rparr>)" and sub: "set (map fst (sessions R)) \<subseteq> set cs"
  shows "server_inv E (R\<lparr>st := s, conns := cs\<rparr>)"
proof -
  have "udp_inv (base s)"
    using udp_inv_wires [of "base s" "base (st R)"] server_inv_parts(2) [OF inv] same by simp
  moreover have "c \<in> set cs" if "map_of (sessions R) c = Some p" for c p
    using map_of_SomeD [OF that] sub by force
  ultimately show ?thesis
    using inv conns same by (simp add: server_inv_def lobby_of_def sessions_ok_def)
qed

lemma session_conns: "server_inv E R \<Longrightarrow> set (map fst (sessions R)) \<subseteq> set (conns R)"
proof
  fix c
  assume inv: "server_inv E R" and "c \<in> set (map fst (sessions R))"
  then obtain p where "map_of (sessions R) c = Some p"
    by (metis (no_types) map_of_eq_None_iff not_None_eq list.set_map)
  with session_peer [OF inv] show "c \<in> set (conns R)"
    by blast
qed

lemma peerByID_sender [simp]: "peerByID (wudp (fst (makeUdpSender net p payload w))) = peerByID (wudp w)"
  by (auto simp: makeUdpSender_def write_udp_def udp_error_def Let_def split: option.splits)

lemma peerByID_send [simp]: "peerByID (wudp (fst (send_to net wsq p payload w))) = peerByID (wudp w)"
  using peerByID_sender [of net p payload w]
  by (auto simp: send_to_def SendBinary_def ws_write_def Let_def simp del: peerByID_sender split: prod.splits option.splits)

lemma peerByID_fan [simp]:
  "peerByID (wudp (fold (\<lambda>p w. fst (send_to net wsq p payload w)) ps w)) = peerByID (wudp w)"
  by (induction ps arbitrary: w) simp_all

lemma peerByID_expire_one: "peerByID (wudp (expire_one t kb w)) = peerByID (wudp w)"
  by (simp add: expire_one_def Let_def)

lemma peerByID_udp [simp]:
  "peerByID (wudp (receive net pkt src w)) = peerByID (wudp w)"
  "peerByID (wudp (forward_turn net wsq r w)) = peerByID (wudp w)"
  "peerByID (wudp (expireIdle t w)) = peerByID (wudp w)"
proof -
  show "peerByID (wudp (receive net pkt src w)) = peerByID (wudp w)"
    by (simp add: receive_def Let_def)
  show "peerByID (wudp (forward_turn net wsq r w)) = peerByID (wudp w)"
    by (auto simp: forward_turn_def fanOut_def Let_def split: prod.splits option.splits)
  have "peerByID (wudp (fold (expire_one t) kbs w)) = peerByID (wudp w)" for kbs
    by (induction kbs arbitrary: w) (simp_all add: peerByID_expire_one)
  then show "peerByID (wudp (expireIdle t w)) = peerByID (wudp w)"
    by (simp add: expireIdle_def)
qed

lemma server_step_keeps: "server_step E net R R' \<Longrightarrow> server_inv E R \<Longrightarrow> server_inv E R'"
proof (induction rule: server_step.induct)
  case (upgrade origins R s c)
  note h = HandleHTTP_get [OF upgrade.hyps(1)]
  show ?case
    using h upgrade.hyps(2) server_inv_parts(3) [OF upgrade.prems] session_conns [OF upgrade.prems]
    by (intro server_same [OF upgrade.prems] conns_upgrade) (auto simp: HandleHTTP_accepted_def)
next
  case (upgrade_failed origins R s)
  note h = HandleHTTP_get [OF upgrade_failed.hyps(1)]
  have "server_inv E (R\<lparr>st := HandleHTTP_closed s, conns := conns R\<rparr>)"
    using h server_inv_parts(3) [OF upgrade_failed.prems] session_conns [OF upgrade_failed.prems]
    by (intro server_same [OF upgrade_failed.prems]) (auto simp: conns_ok_def)
  then show ?case
    by simp
next
  case (refuse origins R s a)
  note h = HandleHTTP_get [OF refuse.hyps(1)]
  have "server_inv E (R\<lparr>st := s, conns := conns R\<rparr>)"
    using h refuse.hyps(2) server_inv_parts(3) [OF refuse.prems] session_conns [OF refuse.prems]
    by (intro server_same [OF refuse.prems]) (auto simp: conns_ok_def)
  then show ?case
    by simp
next
  case (silent c R)
  have "c \<notin> set (map fst (sessions R))"
    using silent.hyps(2) by (simp add: map_of_eq_None_iff)
  then have "set (map fst (sessions R)) \<subseteq> set (remove1 c (conns R))"
    using session_conns [OF silent.prems] by (metis in_set_remove1 subsetD subsetI)
  then show ?case
    using conns_remove [OF server_inv_parts(3) [OF silent.prems] silent.hyps(1), of "st R" "sessions R"]
    by (intro server_same [OF silent.prems]) auto
next
  case (hello c R uid ip host random isText bytes s p)
  then show ?case
    by (blast intro: server_hello)
next
  case (bad_hello c R uid ip host random isText bytes s)
  then show ?case
    by (blast intro: server_bad_hello)
next
  case (control R c p bytes uid)
  have "acts (unicode_lower E) p (hall (st R)) (hall (handleControl E c p bytes uid (st R)))"
    using session_peer [OF control.prems control.hyps] server_inv_parts(5) [OF control.prems]
    by (intro acts_handleControl) simp_all
  then show ?case
    by (rule server_acts [OF control.prems control.hyps]) simp
next
  case (audio R c p bytes)
  show ?case
    by (rule server_acts [OF audio.prems audio.hyps acts_handleAudio]) simp
next
  case (hangup R c p)
  then show ?case
    by (rule server_hangup [rotated])
next
  case (listen R)
  then show ?case
    by (intro server_calm [of _ _ id]) (simp_all add: server_inv_parts(2) inv_listen Listen_def)
next
  case (datagram R pkt src)
  then show ?case
    by (intro server_calm [of _ _ id]) (simp_all add: server_inv_parts(2) inv_receive calm_receive)
next
  case (forward R r)
  then show ?case
    by (intro server_calm [of _ _ id]) (simp_all add: server_inv_parts(2) inv_turn calm_turn)
next
  case (sweep R)
  then show ?case
    by (intro server_calm [of _ _ id]) (simp_all add: server_inv_parts(2) expire_inv calm_expire)
next
  case (fire R t T)
  have "on_hall (\<lambda>L. L\<lparr>timers := AList.delete t (timers L)\<rparr>) (st R) =
    on_hall (\<lambda>_. (hall (st R))\<lparr>timers := AList.delete t (timers (hall (st R)))\<rparr>) (st R)"
    by (simp add: on_hall_def on_base_def)
  moreover have "lobby_step id (lobby_of R) (at_rest ((hall (st R))\<lparr>timers := AList.delete t (timers (hall (st R)))\<rparr>)
      ((timerRoom T, timerGeneration T) # expired R))"
    using lobby_step.fire [of "lobby_of R" t T id] fire.hyps by (simp add: lobby_of_def at_rest_def)
  ultimately show ?case
    using server_lobby_step [OF fire.prems, of id] by simp
next
  case (expire_room r g R)
  have "on_hall (destroy r g) (st R) = on_hall (\<lambda>_. destroy r g (hall (st R))) (st R)"
    by (simp add: on_hall_def on_base_def)
  moreover have "lobby_step id (lobby_of R) (at_rest (destroy r g (hall (st R))) (remove1 (r, g) (expired R)))"
    using lobby_step.call [of r g "lobby_of R" id] expire_room.hyps by (simp add: lobby_of_def at_rest_def)
  ultimately show ?case
    using server_lobby_step [OF expire_room.prems, of id] by simp
next
  case (tick d R)
  have "on_hall (\<lambda>L. L\<lparr>clock := clock L + d\<rparr>) (st R) = on_hall (\<lambda>_. (hall (st R))\<lparr>clock := clock (hall (st R)) + d\<rparr>) (st R)"
    by (simp add: on_hall_def on_base_def)
  moreover have "lobby_step id (lobby_of R) (at_rest ((hall (st R))\<lparr>clock := clock (hall (st R)) + d\<rparr>) (expired R))"
    using lobby_step.tick [of d id "lobby_of R"] tick.hyps by (simp add: lobby_of_def at_rest_def)
  ultimately show ?case
    using server_lobby_step [OF tick.prems, of id "(hall (st R))\<lparr>clock := clock (hall (st R)) + d\<rparr>" "expired R"] by simp
qed

interpretation whole_server: machine "server_step E net" "server_inv E" for E net
  by unfold_locales (rule server_step_keeps)

lemma start_server_lobby: "lobby_step u (start mr mp) (lobby_of (start_server E mr mp))"
  using lobby_step.listener [of u "start mr mp" True] by (simp add: lobby_of_def start_server_def start_def at_rest_def)

lemma start_server_inv: "server_inv E (start_server E mr mp)"
proof -
  have "lobby_inv (lobby_of (start_server E mr mp))"
    using lobby.step_keeps [OF start_server_lobby start_inv] .
  moreover have "udp_inv (base (st (start_server E mr mp)))"
    using world0_inv udp_inv_wires [of _ "world0 mr mp (HelloPerIPPerMinute (Limits (server E)))
      (AudioFramesPerPeerPerSec (Limits (server E)))"]
    by (simp add: start_server_def wires_def world0_def)
  ultimately show ?thesis
    by (simp add: server_inv_def conns_ok_def sessions_ok_def) (simp add: start_server_def NewRegistry_def)
qed

end
