(* ===== verification/Dispatch_Spec.thy ===== *)
theory Dispatch_Spec
  imports Dispatch_Run
begin

text \<open>
  The properties of the control plane: what the whole server keeps invariant, how it refines the
  lobby of Lobby_Run, who gets a session, and how requests are refused.
\<close>

declare map_of_eq_Some_iff [simp del]
declare Some_eq_map_of_iff [simp del]

section \<open>Invariants of the whole server\<close>

definition server_reachable :: "env \<Rightarrow> (UDPAddr \<Rightarrow> byte list \<Rightarrow> bool) \<Rightarrow> int \<Rightarrow> int \<Rightarrow> server_run \<Rightarrow> bool" where
  "server_reachable E net mr mp R \<longleftrightarrow> (server_step E net)\<^sup>*\<^sup>* (start_server E mr mp) R"

lemma server_reachable_inv: "server_reachable E net mr mp R \<Longrightarrow> server_inv E R"
  unfolding server_reachable_def by (rule whole_server.run_keeps [OF _ start_server_inv])

text \<open>
  C2. Connections, sessions and rooms fit together in every reachable state: the connections counted
  are those open and never exceed the cap; every member of every room is the peer of an open
  session, under its own identifier, and of no other; and with UDP on, that peer is the one
  attached to the UDP server.
\<close>

theorem every_member_has_a_session:
  assumes run: "server_reachable E net mr mp R"
  shows "curConns (st R) = int (card (set (conns R))) \<and> curConns (st R) \<le> max 0 (MaxConnections (server E)) \<and>
    (r < next_room (hall (st R)) \<and> map_of (peers (room_at (hall (st R)) r)) pid = Some p \<longrightarrow>
       peerID (peer_of (st R) p) = pid \<and> curRoom (peer_of (st R) p) = Some r \<and>
       (\<exists>!c. map_of (sessions R) c = Some p) \<and> (\<exists>c \<in> set (conns R). map_of (sessions R) c = Some p) \<and>
       (UdpOn (server E) \<longrightarrow> map_of (peerByID (wudp (base (st R)))) pid = Some p))"
proof (intro conjI impI)
  have inv: "server_inv E R"
    by (rule server_reachable_inv [OF run])
  show "curConns (st R) = int (card (set (conns R)))" "curConns (st R) \<le> max 0 (MaxConnections (server E))"
    using server_inv_parts(3) [OF inv] by (auto simp: conns_ok_def distinct_card)
  assume r: "r < next_room (hall (st R)) \<and> map_of (peers (room_at (hall (st R)) r)) pid = Some p"
  have m: "members_ok (lobby_of R)"
    using server_inv_parts(1) [OF inv] by (simp add: lobby_inv_def)
  from members_entry [OF m, of r pid p] r
  show p: "peerID (peer_of (st R) p) = pid" "curRoom (peer_of (st R) p) = Some r"
    by (auto simp: lobby_of_def place_def)
  note S = server_inv_parts(4) [OF inv, unfolded sessions_ok_def]
  with p(2) have "p \<in> set (map snd (sessions R))"
    by auto
  then obtain c where c: "(c, p) \<in> set (sessions R)"
    by auto
  with S have mc: "map_of (sessions R) c = Some p"
    by (simp add: map_of_set_iff)
  have "d = c" if "map_of (sessions R) d = Some p" for d
  proof -
    have "inj_on snd (set (sessions R))"
      using S by (simp add: distinct_map)
    from inj_onD [OF this, of "(d, p)" "(c, p)"] c map_of_SomeD [OF that] show ?thesis
      by simp
  qed
  with mc show "\<exists>!c. map_of (sessions R) c = Some p"
    by blast
  show "\<exists>c \<in> set (conns R). map_of (sessions R) c = Some p"
    using session_peer [OF inv mc] mc by blast
  show "map_of (peerByID (wudp (base (st R)))) pid = Some p" if "UdpOn (server E)"
    using session_peer [OF inv mc] p that by simp
qed

section \<open>The server refines the lobby\<close>

lemma at_rest_run: "lobby_run u (hall (st R)) (hall s) \<Longrightarrow>
    (lobby_step u)\<^sup>*\<^sup>* (lobby_of R) (at_rest (hall s) (expired R))"
  by (simp add: lobby_run_def lobby_of_def)

lemma server_step_lobby:
  assumes "server_step E net R R'" "server_inv E R"
  shows "(lobby_step (unicode_lower E))\<^sup>*\<^sup>* (lobby_of R) (lobby_of R')"
  using assms
proof (induction rule: server_step.induct)
  case (upgrade origins R s c)
  then show ?case
    using HandleHTTP_get [OF upgrade.hyps(1)] by (simp add: lobby_of_def HandleHTTP_accepted_def)
next
  case (upgrade_failed origins R s)
  then show ?case
    using HandleHTTP_get [OF upgrade_failed.hyps(1)] by (simp add: lobby_of_def)
next
  case (refuse origins R s a)
  then show ?case
    using HandleHTTP_get [OF refuse.hyps(1)] by (simp add: lobby_of_def)
next
  case (silent c R)
  then show ?case
    by (simp add: lobby_of_def)
next
  case (hello c R uid ip host random isText bytes s p)
  then have "lobby_run (unicode_lower E) (hall (st R)) (hall s)"
    using hello_effect [OF server_inv_parts(2) [OF hello.prems] hello.hyps(3,4), of "unicode_lower E"]
    by (auto simp: joins_def Let_def)
  then show ?case
    using at_rest_run [of "unicode_lower E" R s] by (simp add: lobby_of_def)
next
  case (bad_hello c R uid ip host random isText bytes s)
  then have "lobby_run (unicode_lower E) (hall (st R)) (hall s)"
    using hello_effect [OF server_inv_parts(2) [OF bad_hello.prems] bad_hello.hyps(3,4), of "unicode_lower E"]
    by (auto simp: joins_def same_state_def Let_def)
  then show ?case
    using at_rest_run [of "unicode_lower E" R s] by (simp add: lobby_of_def)
next
  case (control R c p bytes uid)
  have "acts (unicode_lower E) p (hall (st R)) (hall (handleControl E c p bytes uid (st R)))"
    using session_peer [OF control.prems control.hyps] server_inv_parts(5) [OF control.prems]
    by (intro acts_handleControl) simp_all
  then show ?case
    using at_rest_run [of "unicode_lower E" R] by (simp add: lobby_of_def acts_def)
next
  case (audio R c p bytes)
  then show ?case
    using at_rest_run [of "unicode_lower E" R] acts_handleAudio [of "unicode_lower E" p "st R" E bytes]
    by (simp add: lobby_of_def acts_def)
next
  case (hangup R c p)
  have "acts (unicode_lower E) p (hall (st R)) (hall (cleanupPeer E p ''disconnect'' (st R)))"
    using session_peer [OF hangup.prems hangup.hyps] by (intro acts_cleanup) simp
  then have "lobby_run (unicode_lower E) (hall (st R)) (hall (end_session E p (st R)))"
    unfolding end_session_def acts_def
    using calm_leave [of "unicode_lower E" "cleanupPeer E p ''disconnect'' (st R)" E "UdpOn (server E)" p]
    by (auto simp: calm_def intro: lobby_run_trans)
  then show ?case
    using at_rest_run [of "unicode_lower E" R "end_session E p (st R)"] by (simp add: lobby_of_def)
next
  case (listen R)
  then show ?case
    by (simp add: lobby_of_def)
next
  case (datagram R pkt src)
  then show ?case
    using at_rest_run [of "unicode_lower E" R "on_base (receive net pkt src) (st R)"]
      calm_receive [of "unicode_lower E" "base (st R)" net pkt src] by (simp add: lobby_of_def calm_def)
next
  case (forward R r)
  then show ?case
    using at_rest_run [of "unicode_lower E" R "on_base (forward_turn net (write_queue E) r) (st R)"]
      calm_turn [of "unicode_lower E" "base (st R)" net "write_queue E" r] by (simp add: lobby_of_def calm_def)
next
  case (sweep R)
  then show ?case
    using at_rest_run [of "unicode_lower E" R "on_base (\<lambda>w. expireIdle (now w) w) (st R)"]
      calm_expire [of "unicode_lower E" "base (st R)"] by (simp add: lobby_of_def calm_def)
next
  case (fire R t T)
  then show ?case
    using lobby_step.fire [of "lobby_of R" t T "unicode_lower E"] by (simp add: lobby_of_def at_rest_def r_into_rtranclp)
next
  case (expire_room r g R)
  then show ?case
    using lobby_step.call [of r g "lobby_of R" "unicode_lower E"] by (simp add: lobby_of_def at_rest_def r_into_rtranclp)
next
  case (tick d R)
  then show ?case
    using lobby_step.tick [of d "unicode_lower E" "lobby_of R"] by (simp add: lobby_of_def at_rest_def r_into_rtranclp)
qed

lemma server_lobby_run:
  assumes "server_reachable E net mr mp R"
  shows "reachable (unicode_lower E) mr mp (lobby_of R)"
proof -
  have "(lobby_step (unicode_lower E))\<^sup>*\<^sup>* (lobby_of (start_server E mr mp)) (lobby_of R)"
    using assms unfolding server_reachable_def
  proof (induction rule: rtranclp_induct)
    case (step R R')
    have "server_inv E R"
      using step.hyps(1) by (intro server_reachable_inv [of E net mr mp]) (simp add: server_reachable_def)
    from server_step_lobby [OF step.hyps(2) this] step.IH show ?case
      by (rule rtranclp_trans [rotated])
  qed simp
  moreover have "lobby_step (unicode_lower E) (start mr mp) (lobby_of (start_server E mr mp))"
    by (rule start_server_lobby)
  ultimately show ?thesis
    unfolding reachable_def by (meson converse_rtranclp_into_rtranclp)
qed

lemma server_room_count: "server_reachable E net mr mp R \<Longrightarrow> CountRooms (hall (st R)) \<le> max 0 mr"
  using inv_names [OF reachable_inv [OF server_lobby_run]] reachable_configured [OF server_lobby_run]
  by (fastforce simp: names_ok_def configured_def CountRooms_def lobby_of_def)

text \<open>
  C1. The server refines the lobby: whatever connections, control messages, datagrams, forwarder
  turns and timers do, in any order, the registry and rooms of the server have gone through a run
  of Lobby_Run's steps, so every property of reachable lobbies holds of the server's.
\<close>

theorem server_refines_lobby:
  assumes "server_reachable E net mr mp R"
  shows "reachable (unicode_lower E) mr mp (lobby_of R) \<and> CountRooms (hall (st R)) \<le> max 0 mr"
  using server_lobby_run [OF assms] server_room_count [OF assms] ..

section \<open>Who gets a session\<close>

lemma check_password_case:
  "check_password E c i pw s = (t, ok) \<Longrightarrow>
    (ok \<longrightarrow> t = s) \<and> (ok \<longleftrightarrow> ServerPasswordHash (server E) = [] \<or>
       (pw \<noteq> '''' \<and> passwordBusy s < passwordCap E \<and> bcrypt_compare E (ServerPasswordHash (server E)) pw))"
  by (auto simp: check_password_def doPasswordWork_def split: if_splits bool.splits)

lemma check_hello_Some:
  assumes "check_hello E c ip isText bytes s = (t, Some (i, u))"
  shows "\<exists>env hello. isText \<and> ValidUTF8 (as_text bytes) \<and>
    snd (Allow (connLimiter s) ip (HelloPerIPPerMinute (Limits (server E))) Minute (clock (hall s))) \<and>
    Decode (json_text E) bytes = Some env \<and> Type env = client_text TypeHello \<and> V env \<le> ProtocolVersion \<and>
    un_hello (json_text E) (Data env) = Some hello \<and> validUsername (hello_Username hello) \<and>
    length (hello_ServerPassword hello) \<le> MaxPasswordBytes \<and>
    (ServerPasswordHash (server E) = [] \<or> bcrypt_compare E (ServerPasswordHash (server E)) (hello_ServerPassword hello)) \<and>
    i = ID env \<and> u = TrimSpace (hello_Username hello)"
  using assms
  by (auto simp: check_hello_def Let_def not_less simp del: client_text.simps
      dest!: check_password_case split: if_splits prod.splits bool.splits option.splits)

text \<open>What the rest of the handshake leaves of a new peer.\<close>

definition identity :: "peer \<Rightarrow> uuid \<times> string \<times> string \<times> conn_ref option \<times> room_ref option" where
  "identity q = (peerID q, Username q, RemoteIP q, send q, curRoom q)"

lemma identity_udp [simp]: "identity (q\<lparr>udpSend := b\<rparr>) = identity q"
  by (simp add: identity_def)

lemma sent_hall: "send_msg E c ty i m s = (t, ok) \<Longrightarrow> hall t = hall s"
  using send_msg_get(1) [of E c ty i m s] by simp

lemma run_hello_Some:
  assumes "run_hello E c ip host uid random isText bytes s = (s', Some p)"
  obtains t i u where "check_hello E c ip isText bytes s = (t, Some (i, u))" "p = next_peer (hall s)"
    "identity (peer_of s' p) = (uid, u, ip, Some c, None)"
proof -
  obtain t i u where t: "check_hello E c ip isText bytes s = (t, Some (i, u))"
    using assms by (auto simp: run_hello_def split: prod.splits option.splits)
  let ?L = "connect_peer uid u ip c (hall t)"
  have hall: "hall t = hall s"
    using check_hello_case [OF t] by simp
  have new: "identity (peer_at ?L (next_peer (hall t))) = (uid, u, ip, Some c, None)"
    by (simp add: connect_peer_def Let_def identity_def NewPeer_def AttachSender_def)
  have mint: "wlobby (fst (MintToken r k w)) = wlobby w" for r k w
    by (simp add: MintToken_def split: option.splits)
  have "p = next_peer (hall t) \<and> identity (peer_of s' p) = identity (peer_at ?L p)"
    using assms t mint [of random uid "base (meter (gauge_add ''nu_active_peers'' 1) (on_hall (connect_peer uid u ip c) t))"]
    by (auto simp: run_hello_def Let_def AttachPeer_eq listed_def dest!: sent_hall
        split: prod.splits option.splits bool.splits if_splits)
  with t new hall show ?thesis
    by (intro that) auto
qed

text \<open>
  C3. The door of the server: a session is opened only by a text hello in valid UTF-8, within the
  budget of its address, whose protocol version is supported, whose username is 1 to 32 printable
  runes and whose server password bcrypt accepts when one is set; the peer it opens is new, carries
  the trimmed username, the address and the connection, and is in no room.
\<close>

theorem server_password_gate:
  assumes "run_hello E c ip host uid random isText bytes s = (s', Some p)"
  shows "isText \<and> ValidUTF8 (as_text bytes) \<and>
    snd (Allow (connLimiter s) ip (HelloPerIPPerMinute (Limits (server E))) Minute (clock (hall s))) \<and>
    (\<exists>env hello. Decode (json_text E) bytes = Some env \<and> Type env = ''hello'' \<and> V env \<le> ProtocolVersion \<and>
       un_hello (json_text E) (Data env) = Some hello \<and>
       validUsername (hello_Username hello) \<and> length (hello_ServerPassword hello) \<le> MaxPasswordBytes \<and>
       (ServerPasswordHash (server E) = [] \<or>
          bcrypt_compare E (ServerPasswordHash (server E)) (hello_ServerPassword hello)) \<and>
       Username (peer_of s' p) = TrimSpace (hello_Username hello)) \<and>
    p = next_peer (hall s) \<and> peerID (peer_of s' p) = uid \<and> RemoteIP (peer_of s' p) = ip \<and>
    send (peer_of s' p) = Some c \<and> curRoom (peer_of s' p) = None"
  using assms by (rule run_hello_Some) (auto simp: identity_def dest!: check_hello_Some)

section \<open>Refusals\<close>

text \<open>The error counters, by code.\<close>

definition errors :: "ws_state \<Rightarrow> string \<Rightarrow> u64" where
  "errors s = labeled_value (wmetrics (base s)) ''nu_errors_total''"

text \<open>
  A refusal is counted under one code, its error frame is the only frame sent, and nothing else of
  the lobby than the role the peer asked for changes.
\<close>

definition refused :: "env \<Rightarrow> conn_ref \<Rightarrow> peer_ref \<Rightarrow> ws_state \<Rightarrow> ws_state \<Rightarrow> bool" where
  "refused E c p s s' \<longleftrightarrow>
     (\<exists>code. errors s' = (errors s)(code_text code := errors s (code_text code) + 1) \<and>
        (hall s' = hall s \<or> (\<exists>role. hall s' = upd_peer p (\<lambda>q. q\<lparr>Role := role\<rparr>) (hall s))) \<and>
        (wsframes (base s') = wsframes (base s) \<or>
         (\<exists>i msg body. Encode (json_text E) TypeError i (Error (code_text code) msg) = Some body \<and>
            wsframes (base s') = wsframes (base s) @ [(c, body, False)])))"

lemma errors_get [simp]:
  "errors (on_hall g s) = errors s" "errors (fst (send_msg E c ty i m s)) = errors s"
  "errors (fst (allowPeer p a l d s)) = errors s"
  "errors (meter (counter_add n k) s) = errors s" "errors (meter (gauge_add n k) s) = errors s"
  "errors (meter (gauge_set n k) s) = errors s" "errors (active_rooms s) = errors s"
  "n \<noteq> ''nu_errors_total'' \<Longrightarrow> errors (meter (labeled_inc n key v) s) = errors s"
  by (simp_all add: errors_def meter_def on_hall_def on_base_def metered_def active_rooms_def send_msg_def ws_write_def
      allowPeer_def fun_eq_iff split: option.splits prod.splits)

lemma metrics_texts:
  "wmetrics (fold (\<lambda>q w. if P q w then w else fst (SendText (ws_write f) (g q w) body w)) ps w) = wmetrics w"
  by (induction ps arbitrary: w) (simp_all add: SendText_def ws_write_def split: option.splits)

lemma errors_broadcast [simp]: "errors (broadcastToOthers E r x ty i m s) = errors s"
  by (simp add: errors_def broadcastToOthers_def on_base_def metrics_texts split: option.splits)

lemma refused_sendError:
  assumes "base t = base s \<or> base t = base (on_hall (upd_peer p (\<lambda>q. q\<lparr>Role := role\<rparr>)) s)"
  shows "refused E c p s (sendError E c i err msg t)"
proof -
  have h: "hall (sendError E c i err msg t) = hall t" "wsframes (base t) = wsframes (base s)" "errors t = errors s"
    using assms by (auto simp: errors_def on_hall_def on_base_def)
  have "errors (sendError E c i err msg t) = (errors t)(code_text err := errors t (code_text err) + 1)"
    by (auto simp: sendError_def errors_def meter_def on_base_def metered_def send_msg_def ws_write_def fun_eq_iff
        split: option.splits prod.splits)
  moreover have "hall t = hall s \<or> (\<exists>role. hall t = upd_peer p (\<lambda>q. q\<lparr>Role := role\<rparr>) (hall s))"
    using assms by auto
  moreover have "wsframes (base (sendError E c i err msg t)) = wsframes (base t) \<or>
      (\<exists>body. Encode (json_text E) TypeError i (Error (code_text err) msg) = Some body \<and>
         wsframes (base (sendError E c i err msg t)) = wsframes (base t) @ [(c, body, False)])"
    by (auto simp: sendError_def send_msg_def ws_write_def split: option.splits prod.splits)
  ultimately show ?thesis
    unfolding refused_def h by blast
qed

text \<open>A handler either serves the request or refuses it.\<close>

definition outcome :: "env \<Rightarrow> conn_ref \<Rightarrow> peer_ref \<Rightarrow> ws_state \<Rightarrow> ws_state \<Rightarrow> bool" where
  "outcome E c p s s' \<longleftrightarrow> errors s' = errors s \<or> refused E c p s s'"

lemma outcome_error: "base t = base s \<Longrightarrow> outcome E c p s (sendError E c i err msg t)"
  by (simp add: outcome_def refused_sendError)

lemma outcome_base: "base t = base s \<Longrightarrow> outcome E c p t s' = outcome E c p s s'"
  by (simp add: outcome_def refused_def errors_def)

lemma outcome_served: "errors t = errors s \<Longrightarrow> outcome E c p s t"
  by (simp add: outcome_def)

lemma Add_Inl: "Add r p L = (M, Inl e) \<Longrightarrow> M = L"
  by (auto simp: Add_def Add_locked_eq Let_def split: prod.splits sum.splits if_splits)

lemma Create_Inl: "Create u uid name vis hash L = (M, Inl e) \<Longrightarrow> M = L"
  by (auto simp: Create_def Create_locked_def Let_def split: prod.splits sum.splits if_splits)

lemma outcome_join: "outcome E c p s (joinPeerToRoom E c p r role i s)"
proof (cases "Add r p (hall (on_hall (upd_peer p (\<lambda>q. q\<lparr>Role := role\<rparr>)) s))")
  case (Pair M res)
  show ?thesis
  proof (cases res)
    case (Inl e)
    have "base (on_hall (\<lambda>_. M) (on_hall (upd_peer p (\<lambda>q. q\<lparr>Role := role\<rparr>)) s)) =
      base (on_hall (upd_peer p (\<lambda>q. q\<lparr>Role := role\<rparr>)) s)"
      using Add_Inl [of r p "upd_peer p (\<lambda>q. q\<lparr>Role := role\<rparr>) (hall s)" M e] Pair Inl
      by (simp add: on_hall_def on_base_def)
    then show ?thesis
      using Pair Inl by (auto simp: joinPeerToRoom_def Let_def outcome_def intro!: refused_sendError split: room_error.splits)
  next
    case (Inr others)
    with Pair show ?thesis
      by (auto simp: joinPeerToRoom_def Let_def outcome_def)
  qed
qed

lemma join_admitted:
  assumes "admits r (hall s)"
  shows "errors (joinPeerToRoom E c p r role i s) = errors s"
proof -
  have "admits r (upd_peer p (\<lambda>q. q\<lparr>Role := role\<rparr>) (hall s))"
    using assms by (simp add: admits_def)
  then show ?thesis
    by (auto simp: joinPeerToRoom_def Let_def Add_def Add_locked_eq)
qed

lemma created_admits:
  assumes "Create u uid name vis hash L = (M, Inr r)" "0 < maxPeersPerRoom L"
  shows "admits r M"
  using assms by (auto simp: Create_def Create_locked_def admits_def Let_def go_map split: if_splits)

lemma outcome_create_room:
  assumes "0 < maxPeersPerRoom (hall s)"
  shows "outcome E c p s (create_room E c p i uid name vis hash s)"
proof (cases "Create (unicode_lower E) uid name vis hash (hall s)")
  case (Pair M res)
  show ?thesis
  proof (cases res)
    case (Inl e)
    have "base (on_hall (\<lambda>_. M) s) = base s"
      using Create_Inl Pair Inl by (auto simp: on_hall_def on_base_def)
    then show ?thesis
      using Pair Inl by (simp add: create_room_def outcome_error)
  next
    case (Inr r)
    have "admits r (hall (active_rooms (meter (counter_inc ''nu_room_create_total'') (on_hall (\<lambda>_. M) s))))"
      using created_admits [OF Pair [unfolded Inr] assms] by simp
    from join_admitted [OF this] Pair Inr show ?thesis
      by (simp add: create_room_def outcome_served)
  qed
qed

lemma outcome_allowed:
  assumes "\<And>t. base t = base s \<Longrightarrow> outcome E c p s (g t)"
  shows "outcome E c p s (case allowPeer p a l d s of (t, False) \<Rightarrow> sendError E c i err msg t | (t, True) \<Rightarrow> g t)"
  using assms [of "fst (allowPeer p a l d s)"] unfolding allowPeer_case by (simp add: outcome_error)

lemma outcome_create:
  "base t = base s \<Longrightarrow> 0 < maxPeersPerRoom (hall s) \<Longrightarrow> outcome E c p s (create_room E c p i uid name vis hash t)"
  using outcome_create_room [of t E c p] outcome_base [of t s E c p] by simp

lemma outcome_joining: "base t = base s \<Longrightarrow> outcome E c p s (joinPeerToRoom E c p r role i t)"
  using outcome_join [of E c p t r role i] outcome_base [of t s E c p] by simp

lemma outcome_create_handler:
  "0 < maxPeersPerRoom (hall s) \<Longrightarrow> outcome E c p s (handleRoomCreate E c p env uid s)"
  unfolding handleRoomCreate_def
  by (rule outcome_allowed) (simp add: Let_def outcome_error outcome_create split: option.split hash_result.split)

lemma outcome_join_handler: "outcome E c p s (handleRoomJoin E c p env s)"
  unfolding handleRoomJoin_def
  by (rule outcome_allowed) (simp add: Let_def outcome_error outcome_joining split: option.split)

lemma outcome_list_handler: "outcome E c p s (handleRoomList E c p env s)"
  unfolding handleRoomList_def
  by (rule outcome_allowed, rule outcome_served) (simp, simp add: errors_def)

lemma errors_cleanup [simp]: "errors (cleanupPeer E p reason s) = errors s"
  by (simp add: cleanupPeer_def Let_def split: option.split)

lemma outcome_handlers:
  "outcome E c p s (handleRoomLeave E c p env s)" "outcome E c p s (handlePeerMute E c p env s)"
  "outcome E c p s (handleSubscribe E c p env s)" "outcome E c p s (handlePing_ws E c env s)"
  unfolding handleRoomLeave_def handlePeerMute_def handleSubscribe_def handlePing_ws_def
  by (simp_all add: Let_def outcome_error outcome_served split: option.split sum.split)

text \<open>
  C21. Every control message is either served, counting no error, or refused: then one error code
  is counted once, at most one frame is sent, an error frame carrying that code, to the requester
  alone, and registry, rooms, timers and memberships are what they were.
\<close>

theorem refused_requests_change_nothing:
  assumes "0 < maxPeersPerRoom (hall s)"
  shows "errors (handleControl E c p bytes uid s) = errors s \<or> refused E c p s (handleControl E c p bytes uid s)"
proof -
  have "outcome E c p t (dispatch_type E c p env uid t)" if "base t = base s" for env t
    using assms that by (simp add: dispatch_type_def outcome_handlers outcome_create_handler outcome_join_handler
        outcome_list_handler outcome_error del: client_text.simps)
  then have d: "outcome E c p s (dispatch_type E c p env uid t)" if "base t = base s" for env t
    using that outcome_base [OF that] by blast
  have "outcome E c p s (handleControl E c p bytes uid s)"
    unfolding handleControl_def
    by (rule outcome_allowed) (simp add: outcome_error d split: option.split)
  then show ?thesis
    by (simp add: outcome_def)
qed

section \<open>Who enters a room\<close>

lemma join_room:
  "curRoom (peer_of (joinPeerToRoom E c p r role i s) p) =
    (if admits r (hall s) then Some r else curRoom (peer_of s p))"
  "Name (room_at (hall (joinPeerToRoom E c p r role i s)) r') = Name (room_at (hall s) r')"
  "passwordHash (room_at (hall (joinPeerToRoom E c p r role i s)) r') = passwordHash (room_at (hall s) r')"
  by (auto simp: joinPeerToRoom_def Let_def Add_def Add_locked_eq admits_def PublishUpdate_def
      split: room_error.split)

lemma create_enters:
  assumes "curRoom (peer_of (create_room E c p i uid name vis hash s) p) = Some r" "curRoom (peer_of s p) = None"
  shows "r = next_room (hall s) \<and> Name (room_at (hall (create_room E c p i uid name vis hash s)) r) = name \<and>
    passwordHash (room_at (hall (create_room E c p i uid name vis hash s)) r) = hash"
proof (cases "Create (unicode_lower E) uid name vis hash (hall s)")
  case (Pair M res)
  show ?thesis
  proof (cases res)
    case (Inl e)
    with Pair Create_Inl [of "unicode_lower E" uid name vis hash "hall s" M e] assms show ?thesis
      by (simp add: create_room_def)
  next
    case (Inr r')
    have new: "peer_at M = peer_at (hall s)" "r' = next_room (hall s)" "Name (room_at M r') = name"
      "passwordHash (room_at M r') = hash"
      using Pair unfolding Inr by (auto simp: Create_def Create_locked_def Let_def split: if_splits)
    with Pair Inr assms show ?thesis
      by (simp add: create_room_def join_room split: if_splits)
  qed
qed

text \<open>What a join and a create must have shown.\<close>

definition joined_properly :: "env \<Rightarrow> Envelope \<Rightarrow> lobby \<Rightarrow> room_ref \<Rightarrow> bool" where
  "joined_properly E env L r \<longleftrightarrow> (\<exists>d. un_join (json_text E) (Data env) = Some d \<and> validRoomName (join_RoomName d) \<and>
     Find (unicode_lower E) (TrimSpace (join_RoomName d)) L = Some r \<and> admits r L \<and>
     CheckPassword (bcrypt_compare E) (room_at L r) (join_Password d) = None)"

definition created_properly :: "env \<Rightarrow> Envelope \<Rightarrow> lobby \<Rightarrow> lobby \<Rightarrow> room_ref \<Rightarrow> bool" where
  "created_properly E env L L' r \<longleftrightarrow> (\<exists>d. un_create (json_text E) (Data env) = Some d \<and> validRoomName (create_RoomName d) \<and>
     r = next_room L \<and> Name (room_at L' r) = TrimSpace (create_RoomName d) \<and>
     passwordHash (room_at L' r) =
       (case HashPassword (bcrypt_generate E) (create_Password d) of Hashed h \<Rightarrow> Some h | _ \<Rightarrow> None) \<and>
     HashPassword (bcrypt_generate E) (create_Password d) \<noteq> HashFailed)"

lemma create_handler_cases:
  "hall (handleRoomCreate E c p env uid s) = hall s \<or>
    (curRoom (peer_of s p) = None \<and>
     (\<exists>d t visibility hash. base t = base s \<and> un_create (json_text E) (Data env) = Some d \<and>
        validRoomName (create_RoomName d) \<and> HashPassword (bcrypt_generate E) (create_Password d) \<noteq> HashFailed \<and>
        hash = (case HashPassword (bcrypt_generate E) (create_Password d) of Hashed h \<Rightarrow> Some h | _ \<Rightarrow> None) \<and>
        handleRoomCreate E c p env uid s = create_room E c p (ID env) uid (TrimSpace (create_RoomName d)) visibility hash t))"
  (is "?same \<or> ?enters")
proof (cases ?same)
  assume n: "\<not> ?same"
  define t where "t = fst (allowPeer p ''room_create'' (RoomCreatePerPeerPerMinute (Limits (server E))) Minute s)"
  have t: "base t = base s"
    by (simp add: t_def)
  note H = handleRoomCreate_def [of E c p env uid s, unfolded allowPeer_case, folded t_def]
  from n have ok: "snd (allowPeer p ''room_create'' (RoomCreatePerPeerPerMinute (Limits (server E))) Minute s)"
    and out: "curRoom (peer_of s p) = None"
    using t by (auto simp: H split: if_splits)
  from n ok out obtain d where d: "un_create (json_text E) (Data env) = Some d"
    using t by (auto simp: H split: option.splits)
  from n ok out d have v: "validRoomName (create_RoomName d)" "length (create_Password d) \<le> MaxPasswordBytes"
    using t by (auto simp: H split: if_splits)
  have ?enters
  proof (cases "create_Password d = ''''")
    case True
    then have "HashPassword (bcrypt_generate E) (create_Password d) = NoPassword"
      by (simp add: HashPassword_def)
    with True ok out d v t show ?thesis
      by (auto simp: H Let_def)
  next
    case False
    with n ok out d v t have "passwordBusy t < passwordCap E"
      by (auto simp: H Let_def doPasswordWork_def split: if_splits)
    with n False ok out d v t show ?thesis
      by (cases "HashPassword (bcrypt_generate E) (create_Password d)")
        (auto simp: H Let_def doPasswordWork_def)
  qed
  then show ?thesis ..
qed simp

lemma create_handler_enters:
  assumes "curRoom (peer_of (handleRoomCreate E c p env uid s) p) = Some r" "curRoom (peer_of s p) \<noteq> Some r"
  shows "curRoom (peer_of s p) = None \<and> created_properly E env (hall s) (hall (handleRoomCreate E c p env uid s)) r"
  using create_handler_cases [of E c p env uid s] create_enters [of E c p "ID env" uid] assms
  unfolding created_properly_def by fastforce

lemma join_handler_enters:
  assumes "curRoom (peer_of (handleRoomJoin E c p env s) p) = Some r" "curRoom (peer_of s p) \<noteq> Some r"
  shows "curRoom (peer_of s p) = None \<and> joined_properly E env (hall s) r"
proof -
  define t where "t = fst (allowPeer p ''room_join'' (RoomJoinPerPeerPerMinute (Limits (server E))) Minute s)"
  have t: "base t = base s"
    by (simp add: t_def)
  note H = handleRoomJoin_def [of E c p env s, unfolded allowPeer_case, folded t_def]
  from assms have ok: "snd (allowPeer p ''room_join'' (RoomJoinPerPeerPerMinute (Limits (server E))) Minute s)"
    and out: "curRoom (peer_of s p) = None"
    using t by (auto simp: H split: if_splits)
  from assms ok out obtain d where d: "un_join (json_text E) (Data env) = Some d"
    using t by (auto simp: H split: option.splits)
  from assms ok out d have v: "validRoomName (join_RoomName d)" "length (join_Password d) \<le> MaxPasswordBytes"
    using t by (auto simp: H split: if_splits)
  from assms ok out d v obtain q where q: "Find (unicode_lower E) (TrimSpace (join_RoomName d)) (hall s) = Some q"
    using t by (auto simp: H split: option.splits)
  have "CheckPassword (bcrypt_compare E) (room_at (hall s) q) (join_Password d) = None \<and> q = r \<and> admits q (hall s)"
  proof (cases "HasPassword (room_at (hall s) q)")
    case False
    with assms ok out d v q t show ?thesis
      by (auto simp: H Let_def join_room CheckPassword_def split: if_splits)
  next
    case True
    with assms ok out d v q t show ?thesis
      by (cases "CheckPassword (bcrypt_compare E) (room_at (hall s) q) (join_Password d)")
        (auto simp: H Let_def join_room doPasswordWork_def split: if_splits)
  qed
  with d v q out show ?thesis
    by (auto simp: joined_properly_def)
qed

lemma cleanup_room: "curRoom (peer_of (cleanupPeer E p' reason s) p) \<in> {curRoom (peer_of s p), None}"
  using Remove_peers(2) [of _ _ "hall s" p]
  by (auto simp: cleanupPeer_def Let_def PublishUpdate_def split: option.split)

lemma other_handlers_room:
  "curRoom (peer_of (handleRoomLeave E c p env s) p) \<in> {curRoom (peer_of s p), None}"
  "curRoom (peer_of (handleRoomList E c p env s) p) = curRoom (peer_of s p)"
  "curRoom (peer_of (handlePeerMute E c p env s) p) = curRoom (peer_of s p)"
  "curRoom (peer_of (handleSubscribe E c p env s) p) = curRoom (peer_of s p)"
  "curRoom (peer_of (handlePing_ws E c env s) p) = curRoom (peer_of s p)"
  using cleanup_room [of E p "''leave''" s p]
  unfolding handleRoomLeave_def handlePeerMute_def handleSubscribe_def handlePing_ws_def
  by (auto simp: acts_handleRoomList Let_def SetSubscribed_def split: option.splits sum.splits)

text \<open>
  C4. A peer enters a room only from outside any room, and only by its own request: a join that
  names a registered room with space left, and whose password that room's gate accepts, or a create,
  whose room is new, has the trimmed valid name asked for and is guarded by the password given.
\<close>

theorem rooms_are_entered_by_request:
  assumes "curRoom (peer_of (handleControl E c p bytes uid s) p) = Some r" "curRoom (peer_of s p) \<noteq> Some r"
  shows "curRoom (peer_of s p) = None \<and> (\<exists>env. Decode (json_text E) bytes = Some env \<and>
    (Type env = ''room_join'' \<and> joined_properly E env (hall s) r \<or>
     Type env = ''room_create'' \<and> created_properly E env (hall s) (hall (handleControl E c p bytes uid s)) r))"
proof -
  define t where "t = fst (allowPeer p ''control'' (ControlPerPeerPerMinute (Limits (server E))) Minute s)"
  have t: "base t = base s"
    by (simp add: t_def)
  note H = handleControl_def [of E c p bytes uid s, unfolded allowPeer_case, folded t_def]
  from assms obtain env where env: "Decode (json_text E) bytes = Some env"
    and same: "handleControl E c p bytes uid s = dispatch_type E c p env uid t"
    using t by (auto simp: H split: if_splits option.splits)
  have "dispatch_type E c p env uid t = handleRoomJoin E c p env t" if "Type env = client_text TypeRoomJoin"
    using that by (simp add: dispatch_type_def)
  moreover have "dispatch_type E c p env uid t = handleRoomCreate E c p env uid t" if "Type env = client_text TypeRoomCreate"
    using that by (simp add: dispatch_type_def)
  moreover have "Type env = client_text TypeRoomJoin \<or> Type env = client_text TypeRoomCreate"
  proof (rule ccontr)
    assume n: "\<not> ?thesis"
    note r = other_handlers_room [where E = E and c = c and p = p and env = env and s = t]
    have "curRoom (peer_of (dispatch_type E c p env uid t) p) \<in> {curRoom (peer_of t p), None}"
      using n r unfolding dispatch_type_def by (simp del: client_text.simps)
    with assms t same show False
      by auto
  qed
  ultimately show ?thesis
    using join_handler_enters [of E c p env t r] create_handler_enters [of E c p env uid t r] assms env t same
    by (auto simp del: fun_upd_apply)
qed

section \<open>Audio over WebSocket\<close>

text \<open>The room a frame may enter: its sender's, if the frame is well-formed, its own, audible and fits.\<close>

definition audio_room :: "env \<Rightarrow> peer_ref \<Rightarrow> byte list \<Rightarrow> ws_state \<Rightarrow> room_ref option" where
  "audio_room E p bytes s =
     (case (Unpack bytes, curRoom (peer_of s p)) of
        (Inr (hdr, _), Some r) \<Rightarrow>
          if snd (allowPeer p ''ws_audio'' (AudioFramesPerPeerPerSec (Limits (server E))) Second s) \<and>
             SourcePeerID hdr = peerID (peer_of s p) \<and> \<not> muted (peer_of s p) \<and>
             length (audioCh (room_at (hall s) r)) < audioChBuffer
          then Some r else None
      | _ \<Rightarrow> None)"

text \<open>
  C6. Audio over WebSocket cannot be forged: the one thing a binary message can do to the lobby is
  to put itself, marked with the sender's identity, at the end of the queue of the sender's own
  room, and it does so exactly when it is a well-formed frame whose header names the sender, within
  the rate, the sender is not muted and the queue has space.  It counts an error exactly when it is
  malformed, out of any room or names another peer.
\<close>

theorem ws_audio_is_authentic:
  "hall (handleAudio_ws E p bytes s) =
     (case audio_room E p bytes s of
        None \<Rightarrow> hall s
      | Some r \<Rightarrow> upd_room r (\<lambda>rm. rm\<lparr>audioCh := audioCh rm @
          [\<lparr>frameSource = peerID (peer_of s p), framePayload = bytes, frameDone = None\<rparr>]\<rparr>) (hall s)) \<and>
   (errors (handleAudio_ws E p bytes s) \<noteq> errors s \<longleftrightarrow>
      snd (allowPeer p ''ws_audio'' (AudioFramesPerPeerPerSec (Limits (server E))) Second s) \<and>
      (case Unpack bytes of Inl _ \<Rightarrow> True
       | Inr (hdr, _) \<Rightarrow> \<not> (curRoom (peer_of s p) \<noteq> None \<and> SourcePeerID hdr = peerID (peer_of s p))))"
proof -
  define t where "t = fst (allowPeer p ''ws_audio'' (AudioFramesPerPeerPerSec (Limits (server E))) Second s)"
  have t: "base t = base s"
    by (simp add: t_def)
  have e: "errors t = errors s"
    using t by (simp add: errors_def)
  have m: "errors (meter (labeled_inc ''nu_errors_total'' k v) s') = (errors s')(v := errors s' v + 1)" for k v s'
    by (auto simp: errors_def meter_def on_base_def metered_def)
  note H = handleAudio_ws_def [of E p bytes s, unfolded allowPeer_case, folded t_def]
  show ?thesis
  proof (cases "Unpack bytes")
    case (Inl x)
    then show ?thesis
      by (simp add: H audio_room_def t e m fun_upd_idem_iff)
  next
    case (Inr hp)
    then show ?thesis
      by (cases hp; cases "curRoom (peer_of s p)")
        (simp_all add: H audio_room_def t e m fun_upd_idem_iff Forward_def release_def Let_def)
  qed
qed

section \<open>Who hears of a request\<close>

primrec payload_type :: "payload \<Rightarrow> server_type" where
  "payload_type (Welcome w) = TypeWelcome"
| "payload_type (Error c m) = TypeError"
| "payload_type (RoomJoined i n ps) = TypeRoomJoined"
| "payload_type (RoomLeft r) = TypeRoomLeft"
| "payload_type (PeerJoined i) = TypePeerJoined"
| "payload_type (PeerLeft i r) = TypePeerLeft"
| "payload_type (PeerMuteChanged i m) = TypePeerMuteChanged"
| "payload_type (RoomListResult rs) = TypeRoomListResult"
| "payload_type (RoomListUpdate a r u) = TypeRoomListDelta"
| "payload_type (Pong t n) = TypePong"

text \<open>
  A well-typed message is a text frame that encodes a payload under the type of that payload;
  \<open>wrote E C s s'\<close>: from \<open>s\<close> to \<open>s'\<close> only such messages have been sent, to connections in \<open>C\<close>.
\<close>

definition well_typed :: "env \<Rightarrow> byte list \<times> bool \<Rightarrow> bool" where
  "well_typed E = (\<lambda>(body, isBinary). \<not> isBinary \<and> (\<exists>m i. Encode (json_text E) (payload_type m) i m = Some body))"

definition wrote :: "env \<Rightarrow> conn_ref set \<Rightarrow> ws_state \<Rightarrow> ws_state \<Rightarrow> bool" where
  "wrote E C s s' \<longleftrightarrow> (\<exists>fs. wsframes (base s') = wsframes (base s) @ fs \<and>
     fst ` set fs \<subseteq> C \<and> (\<forall>f \<in> set fs. well_typed E (snd f)))"

definition audience :: "ws_state \<Rightarrow> room_ref \<Rightarrow> conn_ref set" where
  "audience s r = {x. \<exists>q \<in> set (map snd (peers (room_at (hall s) r))). send (peer_of s q) = Some x}"

definition hears :: "conn_ref \<Rightarrow> peer_ref \<Rightarrow> ws_state \<Rightarrow> ws_state \<Rightarrow> conn_ref set" where
  "hears c p s s' = insert c (\<Union>r \<in> {r. Some r \<in> {curRoom (peer_of s p), curRoom (peer_of s' p)}}. audience s' r)"

lemma wrote_trans: "wrote E C s t \<Longrightarrow> wrote E C t s' \<Longrightarrow> wrote E C s s'"
  unfolding wrote_def by (elim exE conjE, rule_tac x = "fs @ fsa" in exI) auto

lemma wrote_mono: "wrote E C s s' \<Longrightarrow> C \<subseteq> D \<Longrightarrow> wrote E D s s'"
  unfolding wrote_def by blast

lemma wrote_silent: "wsframes (base s') = wsframes (base s) \<Longrightarrow> wrote E C s s'"
  by (simp add: wrote_def)

lemma wsframes_get [simp]:
  "wsframes (base (on_hall g s)) = wsframes (base s)" "wsframes (base (active_rooms s)) = wsframes (base s)"
  by (simp_all add: on_hall_def active_rooms_def)

lemma wrote_same [simp]:
  "wrote E C s (meter f s') = wrote E C s s'" "wrote E C s (on_hall g s') = wrote E C s s'"
  "wrote E C s (active_rooms s') = wrote E C s s'"
  by (simp_all add: wrote_def)

lemma wrote_send:
  assumes "c \<in> C"
  shows "wrote E C s (fst (send_msg E c (payload_type m) i m s))"
proof (cases "Encode (json_text E) (payload_type m) i m")
  case (Some body)
  then have "well_typed E (body, False)"
    by (auto simp: well_typed_def)
  with Some assms show ?thesis
    by (auto simp: send_msg_def ws_write_def wrote_def)
qed (simp add: send_msg_def wrote_silent)

lemma wrote_error: "c \<in> C \<Longrightarrow> wrote E C s (sendError E c i err msg s)"
  using wrote_send [of c C E s "Error (code_text err) msg" i] by (simp add: sendError_def)

lemma texts_wrote:
  "well_typed E (body, False) \<Longrightarrow> set ps \<subseteq> A \<Longrightarrow>
    \<exists>fs. wsframes (fold (\<lambda>q w. if peerID (the_peer w q) = x then w
           else fst (SendText (ws_write f) (the_peer w q) body w)) ps w) = wsframes w @ fs \<and>
      fst ` set fs \<subseteq> {y. \<exists>q \<in> A. send (the_peer w q) = Some y} \<and> (\<forall>f \<in> set fs. well_typed E (snd f))"
proof (induction ps arbitrary: w)
  case (Cons q ps)
  let ?w = "if peerID (the_peer w q) = x then w else fst (SendText (ws_write f) (the_peer w q) body w)"
  have one: "\<exists>gs. wsframes ?w = wsframes w @ gs \<and> fst ` set gs \<subseteq> {y. \<exists>q \<in> A. send (the_peer w q) = Some y} \<and>
      (\<forall>f \<in> set gs. well_typed E (snd f))"
    using Cons.prems by (auto simp: SendText_def ws_write_def split: option.split)
  have same: "wlobby ?w = wlobby w"
    by simp
  from Cons.IH [of ?w] Cons.prems obtain fs where
    fs: "wsframes (fold (\<lambda>q w. if peerID (the_peer w q) = x then w
           else fst (SendText (ws_write f) (the_peer w q) body w)) ps ?w) = wsframes ?w @ fs"
      "fst ` set fs \<subseteq> {y. \<exists>q \<in> A. send (the_peer w q) = Some y}" "\<forall>f \<in> set fs. well_typed E (snd f)"
    unfolding same by auto
  from one obtain gs where "wsframes ?w = wsframes w @ gs" "fst ` set gs \<subseteq> {y. \<exists>q \<in> A. send (the_peer w q) = Some y}"
      "\<forall>f \<in> set gs. well_typed E (snd f)"
    by blast
  with fs show ?case
    by (intro exI [of _ "gs @ fs"]) (simp only: fold.simps comp_def, auto)
qed simp

lemma wrote_broadcast: "wrote E (audience s r) s (broadcastToOthers E r x (payload_type m) i m s)"
proof (cases "Encode (json_text E) (payload_type m) i m")
  case (Some body)
  then have "well_typed E (body, False)"
    by (auto simp: well_typed_def)
  from texts_wrote [OF this subset_refl, where ps = "map snd (peers (room_at (hall s) r))" and x = x
      and f = "write_queue E" and w = "base s"] Some show ?thesis
    by (simp add: broadcastToOthers_def wrote_def audience_def)
qed (simp add: broadcastToOthers_def wrote_silent)

lemma wrote_casts:
  "audience s r \<subseteq> C \<Longrightarrow> ty = payload_type m \<Longrightarrow> wrote E C s (broadcastToOthers E r x ty i m s)"
  using wrote_mono [OF wrote_broadcast] by blast

lemma audience_cong: "hall s = hall t \<Longrightarrow> audience s = audience t"
  by (simp add: audience_def fun_eq_iff)

lemma audience_publish [simp]: "audience (on_hall (PublishUpdate r) s) = audience s"
  by (simp add: audience_def PublishUpdate_def fun_eq_iff)

lemma hears_self [simp]: "c \<in> hears c p s s'"
  by (simp add: hears_def)

lemma hears_audience:
  "curRoom (peer_of s p) = Some r \<or> curRoom (peer_of s' p) = Some r \<Longrightarrow> audience s' r \<subseteq> hears c p s s'"
  unfolding hears_def by force

lemma hears_before: "base t = base s \<Longrightarrow> hears c p t = hears c p s"
  by (simp add: hears_def fun_eq_iff)

lemma wrote_error' [intro]: "base t = base s \<Longrightarrow> wrote E (hears c p s s') s (sendError E c i err msg t)"
  using wrote_error [of c "hears c p s s'" E t i err msg] by (simp add: wrote_def)

lemma wrote_join: "wrote E (hears c p s (joinPeerToRoom E c p r role i s)) s (joinPeerToRoom E c p r role i s)"
proof -
  let ?s0 = "on_hall (upd_peer p (\<lambda>q. q\<lparr>Role := role\<rparr>)) s"
  let ?H = "hears c p s (joinPeerToRoom E c p r role i s)"
  obtain L res where add: "Add r p (hall ?s0) = (L, res)"
    by (cases "Add r p (hall ?s0)")
  let ?s1 = "on_hall (\<lambda>_. L) ?s0"
  have quiet: "wrote E ?H s ?s1"
    by (simp add: wrote_silent)
  show ?thesis
  proof (cases res)
    case (Inl e)
    then have "joinPeerToRoom E c p r role i s = sendError E c i RoomNotFound ''room expired before join'' ?s1 \<or>
      joinPeerToRoom E c p r role i s = sendError E c i RoomFull ''room full'' ?s1"
      using add by (cases e) (simp_all add: joinPeerToRoom_def)
    then show ?thesis
      using wrote_trans [OF quiet wrote_error [of c ?H]] by (metis hears_self)
  next
    case (Inr others)
    let ?s2 = "fst (send_msg E c TypeRoomJoined i
      (RoomJoined (uuid_String (roomID (room_at (hall ?s1) r))) (Name (room_at (hall ?s1) r)) (map info_of others)) ?s1)"
    let ?s3 = "broadcastToOthers E r (peerID (peer_of ?s2 p)) TypePeerJoined ''''
      (PeerJoined (info_of (snapshot_of (peer_of ?s2 p)))) ?s2"
    have j: "joinPeerToRoom E c p r role i s = on_hall (PublishUpdate r) ?s3"
      using add Inr by (simp add: joinPeerToRoom_def Let_def)
    have "admits r (hall s)"
      using add Inr by (auto simp: Add_def Add_locked_eq admits_def split: if_splits)
    then have "curRoom (peer_of (joinPeerToRoom E c p r role i s) p) = Some r"
      by (simp add: join_room)
    then have "audience (joinPeerToRoom E c p r role i s) r \<subseteq> ?H"
      by (intro hears_audience) simp
    then have "audience ?s2 r \<subseteq> ?H"
      unfolding j using audience_cong [of ?s3 ?s2] by simp
    then have "wrote E ?H ?s2 ?s3"
      by (rule wrote_casts) simp
    moreover have "wrote E ?H ?s1 ?s2"
      using wrote_send [of c ?H E ?s1 "RoomJoined (uuid_String (roomID (room_at (hall ?s1) r))) (Name (room_at (hall ?s1) r)) (map info_of others)"]
      by simp
    ultimately have "wrote E ?H s ?s3"
      using quiet wrote_trans by blast
    then show ?thesis
      by (simp add: j)
  qed
qed

lemma wrote_create_room:
  "wrote E (hears c p s (create_room E c p i uid name vis hash s)) s (create_room E c p i uid name vis hash s)"
proof (cases "Create (unicode_lower E) uid name vis hash (hall s)")
  case (Pair M res)
  show ?thesis
  proof (cases res)
    case (Inl e)
    with Pair show ?thesis
      using wrote_error [of c _ E "on_hall (\<lambda>_. M) s"] by (simp add: create_room_def wrote_def)
  next
    case (Inr r)
    let ?t = "active_rooms (meter (counter_inc ''nu_room_create_total'') (on_hall (\<lambda>_. M) s))"
    have "peer_at M = peer_at (hall s)"
      using Pair unfolding Inr by (auto simp: Create_def Create_locked_def Let_def split: if_splits)
    then have "hears c p ?t = hears c p s"
      by (simp add: hears_def fun_eq_iff)
    then show ?thesis
      using Pair Inr wrote_join [of E c p ?t r "''send''" i] by (simp add: create_room_def wrote_def)
  qed
qed

lemma wrote_cleanup: "wrote E (hears c p s (cleanupPeer E p reason s)) s (cleanupPeer E p reason s)"
proof (cases "curRoom (peer_of s p)")
  case (Some r)
  let ?s1 = "active_rooms (on_hall (Remove r (peerID (peer_of s p))) s)"
  let ?m = "PeerLeft (uuid_String (peerID (peer_of s p))) reason"
  let ?s2 = "broadcastToOthers E r (peerID (peer_of s p)) TypePeerLeft '''' ?m ?s1"
  have c: "cleanupPeer E p reason s = on_hall (PublishUpdate r) ?s2"
    using Some by (simp add: cleanupPeer_def Let_def)
  have "audience (cleanupPeer E p reason s) r \<subseteq> hears c p s (cleanupPeer E p reason s)"
    using Some by (intro hears_audience) simp
  then have "audience ?s1 r \<subseteq> hears c p s (cleanupPeer E p reason s)"
    unfolding c using audience_cong [of ?s2 ?s1] by simp
  then have "wrote E (hears c p s (cleanupPeer E p reason s)) ?s1 ?s2"
    by (rule wrote_casts) simp
  then show ?thesis
    by (simp add: c wrote_def)
qed (simp add: cleanupPeer_def wrote_silent)

lemma wrote_allowed:
  assumes "\<And>t. base t = base s \<Longrightarrow> wrote E (hears c p s (g t)) s (g t)"
  shows "wrote E (hears c p s (case allowPeer p a l d s of (t, False) \<Rightarrow> sendError E c i err msg t | (t, True) \<Rightarrow> g t))
    s (case allowPeer p a l d s of (t, False) \<Rightarrow> sendError E c i err msg t | (t, True) \<Rightarrow> g t)"
  using assms [of "fst (allowPeer p a l d s)"] wrote_error' [of "fst (allowPeer p a l d s)" s]
  unfolding allowPeer_case by simp

lemma wrote_base: "base t = base s \<Longrightarrow> wrote E C t s' = wrote E C s s'"
  by (simp add: wrote_def)

lemma wrote_joining:
  "base t = base s \<Longrightarrow> wrote E (hears c p s (joinPeerToRoom E c p r role i t)) s (joinPeerToRoom E c p r role i t)"
  using wrote_join [of E c p t r role i] wrote_base [of t s E] hears_before [of t s c p] by simp

lemma wrote_creating:
  "base t = base s \<Longrightarrow> wrote E (hears c p s (create_room E c p i uid name vis hash t)) s (create_room E c p i uid name vis hash t)"
  using wrote_create_room [of E c p t i uid name vis hash] wrote_base [of t s E] hears_before [of t s c p] by simp

lemma wrote_create_handler: "wrote E (hears c p s (handleRoomCreate E c p env uid s)) s (handleRoomCreate E c p env uid s)"
  unfolding handleRoomCreate_def
  by (rule wrote_allowed) (simp add: Let_def wrote_error' wrote_creating split: option.split hash_result.split)

lemma wrote_join_handler: "wrote E (hears c p s (handleRoomJoin E c p env s)) s (handleRoomJoin E c p env s)"
  unfolding handleRoomJoin_def
  by (rule wrote_allowed) (simp add: Let_def wrote_error' wrote_joining split: option.split)

lemma wrote_reply: "base t = base s \<Longrightarrow> c \<in> C \<Longrightarrow> ty = payload_type m \<Longrightarrow> wrote E C s (fst (send_msg E c ty i m t))"
  using wrote_send [of c C E t m i] wrote_base [of t s] by simp

lemma wrote_list_handler: "wrote E (hears c p s (handleRoomList E c p env s)) s (handleRoomList E c p env s)"
  unfolding handleRoomList_def by (rule wrote_allowed) (simp add: wrote_reply)

lemma wrote_leave_handler: "wrote E (hears c p s (handleRoomLeave E c p env s)) s (handleRoomLeave E c p env s)"
proof -
  let ?t = "cleanupPeer E p ''leave'' s"
  let ?s' = "fst (send_msg E c TypeRoomLeft (ID env) (RoomLeft ''leave'') ?t)"
  have "hears c p s ?s' = hears c p s ?t"
    using audience_cong [of ?s' ?t] by (simp add: hears_def)
  then have "wrote E (hears c p s ?s') s ?s'"
    using wrote_trans [OF wrote_cleanup wrote_send [OF hears_self, where m = "RoomLeft ''leave''"]] by simp
  then show ?thesis
    using wrote_error' by (simp add: handleRoomLeave_def)
qed

lemma wrote_mute_handler: "wrote E (hears c p s (handlePeerMute E c p env s)) s (handlePeerMute E c p env s)"
proof -
  let ?x = "peerID (peer_of s p)"
  have "wrote E (hears c p s (broadcastToOthers E r ?x TypePeerMuteChanged '''' (PeerMuteChanged a v) t)) s
      (broadcastToOthers E r ?x TypePeerMuteChanged '''' (PeerMuteChanged a v) t)"
    if r: "curRoom (peer_of s p) = Some r" and t: "t = on_hall (upd_peer p (SetMuted v)) s" for r a v t
  proof -
    let ?s' = "broadcastToOthers E r ?x TypePeerMuteChanged '''' (PeerMuteChanged a v) t"
    have "audience t r \<subseteq> hears c p s ?s'"
      using r audience_cong [of ?s' t] hears_audience [of s p r ?s' c] by simp
    then have "wrote E (hears c p s ?s') t ?s'"
      by (rule wrote_casts) simp
    then show ?thesis
      by (simp add: t wrote_def)
  qed
  then show ?thesis
    by (auto simp: handlePeerMute_def Let_def wrote_silent split: option.split)
qed

lemma wrote_subscribe_handler: "wrote E C s (handleSubscribe E c p env s)" if "c \<in> C"
  using that by (simp add: handleSubscribe_def wrote_error wrote_silent split: option.split sum.split)

lemma wrote_ping_handler: "wrote E C s (handlePing_ws E c env s)" if "c \<in> C"
  using that by (simp add: handlePing_ws_def wrote_reply)

text \<open>
  C22. A control message is heard only by its sender and by the members of the room the sender was in
  or is now in: whatever it says, every frame the server sends on account of it is a text message,
  the encoding of a payload under that payload's own type, to the requesting connection or to the
  connection of such a member.
\<close>

theorem only_the_room_hears:
  "wrote E (hears c p s (handleControl E c p bytes uid s)) s (handleControl E c p bytes uid s)"
proof -
  have "wrote E (hears c p t (dispatch_type E c p env uid t)) t (dispatch_type E c p env uid t)" for t env
    by (simp add: dispatch_type_def wrote_create_handler wrote_join_handler wrote_leave_handler wrote_list_handler
        wrote_mute_handler wrote_subscribe_handler wrote_ping_handler wrote_error del: client_text.simps)
  then have "wrote E (hears c p s (dispatch_type E c p env uid t)) s (dispatch_type E c p env uid t)"
    if "base t = base s" for t env
    using wrote_base [OF that] hears_before [OF that] by metis
  then show ?thesis
    unfolding handleControl_def
    by (intro wrote_allowed) (simp add: wrote_error' split: option.split)
qed

section \<open>A run\<close>

text \<open>A guest with the right password connects, says hello and creates a room.\<close>

definition demo_json :: json where
  "demo_json =
     \<lparr>un_envelope = (\<lambda>b. if b = [65] then Some \<lparr>Type = ''hello'', V = 1, ID = ''1'', Data = []\<rparr>
        else if b = [66] then Some \<lparr>Type = ''room_create'', V = 1, ID = ''2'', Data = []\<rparr> else None),
      un_hello = (\<lambda>_. Some \<lparr>hello_Username = ''ann'', hello_Client = '''', hello_Platform = '''',
        hello_ServerPassword = ''secret''\<rparr>),
      un_create = (\<lambda>_. Some \<lparr>create_RoomName = ''Jam'', create_Visibility = ''public'', create_Password = ''''\<rparr>),
      un_join = (\<lambda>_. None), un_mute = (\<lambda>_. None), un_subscribe = (\<lambda>_. None), un_ping = (\<lambda>_. 0),
      marshal = (\<lambda>_. Some []), marshal_envelope = (\<lambda>e. Some (map (\<lambda>c. of_nat (of_char c)) (Type e)))\<rparr>"

definition demo_env :: env where
  "demo_env =
     \<lparr>server = \<lparr>MaxConnections = 2, Limits = \<lparr>HelloPerIPPerMinute = 0, RoomCreatePerPeerPerMinute = 0,
          RoomJoinPerPeerPerMinute = 0, RoomListPerPeerPerMinute = 0, ControlPerPeerPerMinute = 0,
          AudioFramesPerPeerPerSec = 0, PasswordChecksConcurrent = 0\<rparr>,
        Version = '''', TrustedProxyPrefixes = [], ServerPasswordHash = [7], UdpEndpoint = '''', UdpPort = 0, UdpOn = True\<rparr>,
      json_text = demo_json, bcrypt_compare = (\<lambda>h p. h = [7] \<and> p = ''secret''), bcrypt_generate = (\<lambda>_. None),
      unicode_lower = id, parse_uuid = (\<lambda>_. None), write_queue = (\<lambda>_ _ _. True)\<rparr>"

lemma demo_env_get [simp]:
  "json_text demo_env = demo_json" "MaxConnections (server demo_env) = 2" "UdpOn (server demo_env)"
  "HelloPerIPPerMinute (Limits (server demo_env)) = 0" "ControlPerPeerPerMinute (Limits (server demo_env)) = 0"
  "RoomCreatePerPeerPerMinute (Limits (server demo_env)) = 0" "AudioFramesPerPeerPerSec (Limits (server demo_env)) = 0"
  "PasswordChecksConcurrent (Limits (server demo_env)) = 0" "ServerPasswordHash (server demo_env) = [7]"
  "bcrypt_compare demo_env h p = (h = [7] \<and> p = ''secret'')" "write_queue demo_env = (\<lambda>_ _ _. True)"
  "unicode_lower demo_env = id" "advertised demo_env host = ''''"
  by (simp_all add: demo_env_def advertised_def)

definition demo_upgraded :: server_run where
  "demo_upgraded = (let R = start_server demo_env 2 2 in
     R\<lparr>st := HandleHTTP_accepted (fst (HandleHTTP demo_env [] (st R))), conns := [0]\<rparr>)"

definition demo_greeted :: server_run where
  "demo_greeted = demo_upgraded
     \<lparr>st := fst (run_hello demo_env 0 ''10.0.0.7'' '''' demo_id None True [65] (st demo_upgraded)), sessions := [(0, 0)]\<rparr>"

definition demo_hosting :: server_run where
  "demo_hosting = demo_greeted\<lparr>st := handleControl demo_env 0 0 [66] (of_bytes [2]) (st demo_greeted)\<rparr>"

lemma demo_upgraded_get [simp]:
  "hall (st demo_upgraded) = SetDeltaListener True (NewRegistry 2 2)" "sessions demo_upgraded = []" "conns demo_upgraded = [0]"
  "passwordBusy (st demo_upgraded) = 0"
  by (simp_all add: demo_upgraded_def start_server_def Let_def HandleHTTP_def HandleHTTP_accepted_def world0_def)

lemma demo_texts: "as_text [65] = ''A''" "as_text [66] = ''B''" "TrimSpace ''ann'' = ''ann''" "TrimSpace ''Jam'' = ''Jam''"
  by (simp_all add: as_text_def char_of_def bit_0 TrimSpace_graphic graphic_def)

lemma demo_valid [simp]:
  "ValidUTF8 (as_text [65])" "ValidUTF8 (as_text [66])" "validUsername ''ann''" "validRoomName ''Jam''"
  by (simp_all add: demo_texts ValidUTF8_def validUsername_def validRoomName_def validHumanLabel_def
      MaxUsernameRunes_def MaxRoomNameRunes_def IsControl_def)

lemma demo_Decode [simp]:
  "Decode demo_json [65] = Some \<lparr>Type = ''hello'', V = 1, ID = ''1'', Data = []\<rparr>"
  "Decode demo_json [66] = Some \<lparr>Type = ''room_create'', V = 1, ID = ''2'', Data = []\<rparr>"
  "un_hello demo_json b = Some \<lparr>hello_Username = ''ann'', hello_Client = '''', hello_Platform = '''',
     hello_ServerPassword = ''secret''\<rparr>"
  "un_create demo_json b = Some \<lparr>create_RoomName = ''Jam'', create_Visibility = ''public'', create_Password = ''''\<rparr>"
  "Encode demo_json ty i m = Some (map (\<lambda>c. of_nat (of_char c)) (server_text ty))"
  by (simp_all add: Decode_def demo_json_def Encode_def)

lemma free_limit [simp]: "Allow l k 0 w t = (l, True)" "AllowPair l k k' 0 w t = (l, True)"
  by (simp_all add: Allow_def AllowPair_def)

lemma demo_hello:
  "\<exists>s. run_hello demo_env 0 ''10.0.0.7'' '''' demo_id None True [65] (st demo_upgraded) = (s, Some 0) \<and>
     hall s = upd_peer 0 (AttachUdpSender True) (connect_peer demo_id ''ann'' ''10.0.0.7'' 0 (SetDeltaListener True (NewRegistry 2 2)))"
proof -
  have check: "check_hello demo_env 0 ''10.0.0.7'' True [65] (st demo_upgraded) = (st demo_upgraded, Some (''1'', ''ann''))"
    by (simp add: check_hello_def check_password_def doPasswordWork_def passwordCap_def demo_texts ProtocolVersion_def
        MaxPasswordBytes_def ValidUTF8_def Let_def)
  have sent: "send_msg demo_env 0 ty i m s = (fst (send_msg demo_env 0 ty i m s), True)" for ty i m s
    by (simp add: send_msg_def ws_write_def)
  show ?thesis
    by (simp add: run_hello_def check Let_def, subst sent) (simp add: AttachPeer_eq listed_def NewRegistry_def)
qed

lemma demo_greeted_get [simp]:
  "hall (st demo_greeted) = upd_peer 0 (AttachUdpSender True) (connect_peer demo_id ''ann'' ''10.0.0.7'' 0 (SetDeltaListener True (NewRegistry 2 2)))"
  "sessions demo_greeted = [(0, 0)]" "conns demo_greeted = [0]"
  using demo_hello by (auto simp: demo_greeted_def)

lemma NewRegistry_get [simp]:
  "next_room (NewRegistry a b) = 0" "next_peer (NewRegistry a b) = 0" "rooms (NewRegistry a b) = []"
  "maxRooms (NewRegistry a b) = a" "maxPeersPerRoom (NewRegistry a b) = b" "notifyCb (NewRegistry a b) = False"
  "timers (NewRegistry a b) = []"
  by (simp_all add: NewRegistry_def)

lemma connect_rooms [simp]:
  "next_room (connect_peer u n i c L) = next_room L" "rooms (connect_peer u n i c L) = rooms L"
  "maxRooms (connect_peer u n i c L) = maxRooms L" "maxPeersPerRoom (connect_peer u n i c L) = maxPeersPerRoom L"
  "notifyCb (connect_peer u n i c L) = notifyCb L"
  by (simp_all add: connect_peer_def Let_def)

lemma demo_hosting_hall:
  "next_room (hall (st demo_hosting)) = 1 \<and> peers (room_at (hall (st demo_hosting)) 0) = [(demo_id, 0)] \<and>
    curRoom (peer_of (st demo_hosting) 0) = Some 0"
proof -
  define s where "s = st demo_greeted"
  have h: "hall s = upd_peer 0 (AttachUdpSender True) (connect_peer demo_id ''ann'' ''10.0.0.7'' 0 (SetDeltaListener True (NewRegistry 2 2)))"
    by (simp add: s_def)
  have cur: "curRoom (peer_of s 0) = None" "peerID (peer_of s 0) = demo_id"
    using connect_get(3,4) [of demo_id "''ann''" "''10.0.0.7''" 0 "SetDeltaListener True (NewRegistry 2 2)"] by (simp_all add: h)
  have run: "handleControl demo_env 0 0 [66] (of_bytes [2]) s =
      create_room demo_env 0 0 ''2'' (of_bytes [2]) ''Jam'' ''public'' None s"
    using cur(1) by (simp add: handleControl_def allowPeer_def dispatch_type_def handleRoomCreate_def MaxPasswordBytes_def
        demo_texts ValidUTF8_def Let_def)
  obtain L r where c: "Create id (of_bytes [2]) ''Jam'' ''public'' None (hall s) = (L, Inr r)"
    by (simp add: Create_def Create_locked_def Let_def h)
  have L: "r = 0" "next_room L = 1" "peer_at L = peer_at (hall s)" "peers (room_at L 0) = []"
    using c by (auto simp: Create_def Create_locked_def Let_def h)
  have "admits 0 L"
    using created_admits [OF c] L by (simp add: h)
  then show ?thesis
    unfolding demo_hosting_def using run c L cur
    by (simp add: s_def [symmetric] create_room_def joinPeerToRoom_def Add_def Add_locked_eq admits_def Let_def
        PublishUpdate_def)
qed

lemma demo_hosting_run: "server_reachable demo_env (\<lambda>_ _. True) 2 2 demo_hosting"
proof -
  let ?R0 = "start_server demo_env 2 2"
  have 1: "server_step demo_env (\<lambda>_ _. True) ?R0 demo_upgraded"
    using server_step.upgrade [of demo_env "[]" ?R0 _ 0 "\<lambda>_ _. True"]
    by (simp add: demo_upgraded_def Let_def HandleHTTP_def start_server_def)
  obtain s where s: "run_hello demo_env 0 ''10.0.0.7'' '''' demo_id None True [65] (st demo_upgraded) = (s, Some 0)"
    using demo_hello by blast
  have 2: "server_step demo_env (\<lambda>_ _. True) demo_upgraded demo_greeted"
    using server_step.hello [OF _ _ _ s, of "\<lambda>_ _. True"] s by (simp add: demo_greeted_def fresh_id_def)
  have 3: "server_step demo_env (\<lambda>_ _. True) demo_greeted demo_hosting"
    unfolding demo_hosting_def by (rule server_step.control) simp
  show ?thesis
    unfolding server_reachable_def
    by (rule converse_rtranclp_into_rtranclp, rule 1, rule converse_rtranclp_into_rtranclp, rule 2,
      rule converse_rtranclp_into_rtranclp, rule 3, rule rtranclp.rtrancl_refl)
qed

theorem every_member_has_a_session_witness:
  "curConns (st demo_hosting) \<le> 2 \<and> (\<exists>!c. map_of (sessions demo_hosting) c = Some 0)"
  using every_member_has_a_session [OF demo_hosting_run, of 0 demo_id 0] demo_hosting_hall by simp

theorem server_refines_lobby_witness: "reachable id 2 2 (lobby_of demo_hosting) \<and> CountRooms (hall (st demo_hosting)) \<le> 2"
  using server_refines_lobby [OF demo_hosting_run] by simp

theorem server_password_gate_witness:
  "\<exists>s. run_hello demo_env 0 ''10.0.0.7'' '''' demo_id None True [65] (st demo_upgraded) = (s, Some 0) \<and>
     Username (peer_of s 0) = ''ann''"
proof -
  obtain s where s: "run_hello demo_env 0 ''10.0.0.7'' '''' demo_id None True [65] (st demo_upgraded) = (s, Some 0)"
    using demo_hello by blast
  with server_password_gate [OF s] show ?thesis
    by (auto simp: demo_texts)
qed

theorem refused_requests_change_nothing_witness:
  "errors (handleControl demo_env 0 0 [67] demo_id (st demo_greeted)) = errors (st demo_greeted) \<or>
   refused demo_env 0 0 (st demo_greeted) (handleControl demo_env 0 0 [67] demo_id (st demo_greeted))"
  by (rule refused_requests_change_nothing) simp

theorem rooms_are_entered_by_request_witness:
  "created_properly demo_env \<lparr>Type = ''room_create'', V = 1, ID = ''2'', Data = []\<rparr> (hall (st demo_greeted))
     (hall (st demo_hosting)) 0"
proof -
  have "curRoom (peer_of (handleControl demo_env 0 0 [66] (of_bytes [2]) (st demo_greeted)) 0) = Some 0"
    "curRoom (peer_of (st demo_greeted) 0) \<noteq> Some 0"
    using demo_hosting_hall connect_get(4) [of demo_id "''ann''" "''10.0.0.7''" 0 "SetDeltaListener True (NewRegistry 2 2)"]
    by (simp_all add: demo_hosting_def)
  from rooms_are_entered_by_request [OF this] show ?thesis
    by (simp add: demo_hosting_def)
qed

end
