(* ===== verification/Server_Main.thy ===== *)
theory Server_Main
  imports Config Dispatch_Spec
begin

text \<open>
  Startup (\<open>cmd/server/main.go\<close>): from a configuration to the registry and the settings of the
  WebSocket and UDP servers; the broker of room list deltas (\<open>internal/ws/delta.go\<close>), which startup
  installs as the registry's listener; the health body (\<open>internal/httpapi\<close>); and the exit code.
\<close>

declare map_of_eq_Some_iff [simp del]
declare Some_eq_map_of_iff [simp del]

section \<open>Settings\<close>

text \<open>\<open>net.SplitHostPort\<close> and \<open>strconv.Atoi\<close> failing both give 0.\<close>

definition udpPortFromListen :: "string \<Rightarrow> int" where
  "udpPortFromListen listen =
     (case SplitHostPort listen of
        None \<Rightarrow> 0
      | Some (_, port) \<Rightarrow> (case Atoi port of None \<Rightarrow> 0 | Some n \<Rightarrow> n))"

definition limits_of :: "RateLimitCfg \<Rightarrow> RateLimits" where
  "limits_of c =
     \<lparr>HelloPerIPPerMinute = HelloPerIPPerMinute_cfg c,
      RoomCreatePerPeerPerMinute = RoomCreatePerPeerPerMinute_cfg c,
      RoomJoinPerPeerPerMinute = RoomJoinPerPeerPerMinute_cfg c,
      RoomListPerPeerPerMinute = RoomListPerPeerPerMinute_cfg c,
      ControlPerPeerPerMinute = ControlPerPeerPerMinute_cfg c,
      AudioFramesPerPeerPerSec = AudioFramesPerPeerPerSec_cfg c,
      PasswordChecksConcurrent = PasswordChecksConcurrent_cfg c\<rparr>"

fun trusted_prefixes :: "string list \<Rightarrow> netip_prefix list \<Rightarrow> netip_prefix list option" where
  "trusted_prefixes [] acc = Some acc"
| "trusted_prefixes (raw # rest) acc =
     (case ParseTrustedProxy raw of Inl _ \<Rightarrow> None | Inr p \<Rightarrow> trusted_prefixes rest (acc @ [p]))"

text \<open>
  The part of \<open>run\<close> that builds the WebSocket server: an exit code or its settings.  \<open>generate\<close> is
  bcrypt, \<open>listens\<close> whether the UDP socket could be bound.
\<close>

definition ws_settings ::
  "(string \<Rightarrow> byte list option) \<Rightarrow> (string \<Rightarrow> bool) \<Rightarrow> string \<Rightarrow> Config \<Rightarrow> int + server_config" where
  "ws_settings generate listens buildVersion cfg =
     (case trusted_prefixes (TrustedProxies (Server cfg)) [] of
        None \<Rightarrow> Inl 2
      | Some prefixes \<Rightarrow>
          case (if Password_cfg (Server cfg) = '''' then Some [] else generate (Password_cfg (Server cfg))) of
            None \<Rightarrow> Inl 1
          | Some hash \<Rightarrow>
              let udp = (UdpListen (Server cfg) \<noteq> '''' \<and> listens (UdpListen (Server cfg)));
                  udpPort = (if udp then udpPortFromListen (UdpListen (Server cfg)) else 0);
                  endpoint = (if udp \<and> UdpAdvertiseHost (Server cfg) \<noteq> '''' \<and> 0 < udpPort
                    then JoinHostPort (UdpAdvertiseHost (Server cfg)) (show_int udpPort) else '''')
              in Inr \<lparr>MaxConnections = MaxConnections_cfg (Server cfg), Limits = limits_of (RateLimit cfg),
                   Version = buildVersion, TrustedProxyPrefixes = prefixes, ServerPasswordHash = hash,
                   UdpEndpoint = endpoint, UdpPort = udpPort, UdpOn = udp\<rparr>)"

text \<open>\<open>waitForTermination\<close>: a signal or a failed listener, whichever \<open>select\<close> takes.\<close>

datatype 'sig ending = Signalled 'sig | Failed string

primrec exit_code :: "'sig ending \<Rightarrow> int" where
  "exit_code (Signalled s) = 0"
| "exit_code (Failed component) = 1"

datatype log_level = LevelDebug | LevelInfo | LevelWarn | LevelError

text \<open>The level and whether the handler writes text rather than JSON.\<close>

definition setupLogger :: "LogCfg \<Rightarrow> log_level \<times> bool" where
  "setupLogger c =
     (if Level c = ''debug'' then LevelDebug
      else if Level c = ''warn'' then LevelWarn
      else if Level c = ''error'' then LevelError
      else LevelInfo,
      Format c = ''text'')"

section \<open>The delta broker\<close>

text \<open>A subscriber is the value of its send callback; \<open>Publish\<close> gives the calls it makes, in the order of the map.\<close>

record 'cb DeltaBroker =
  subscribers :: "(uuid \<times> 'cb) list"

definition NewDeltaBroker :: "'cb DeltaBroker" where
  "NewDeltaBroker = \<lparr>subscribers = []\<rparr>"

definition Subscribe :: "uuid \<Rightarrow> 'cb \<Rightarrow> 'cb DeltaBroker \<Rightarrow> 'cb DeltaBroker" where
  "Subscribe pid cb b = b\<lparr>subscribers := AList.update pid cb (subscribers b)\<rparr>"

definition Unsubscribe :: "uuid \<Rightarrow> 'cb DeltaBroker \<Rightarrow> 'cb DeltaBroker" where
  "Unsubscribe pid b = b\<lparr>subscribers := AList.delete pid (subscribers b)\<rparr>"

definition Publish :: "json \<Rightarrow> RoomListDelta \<Rightarrow> 'cb DeltaBroker \<Rightarrow> ('cb \<times> byte list) list" where
  "Publish J d b =
     (case Encode J TypeRoomListDelta ''''
         (RoomListUpdate (map wire_room (deltaAdded d)) (deltaRemoved d) (map wire_room (deltaUpdated d))) of
        None \<Rightarrow> []
      | Some body \<Rightarrow> map (\<lambda>(_, cb). (cb, body)) (subscribers b))"

section \<open>The health endpoint\<close>

record health =
  health_status :: string
  health_uptime :: int
  health_rooms :: int
  health_peers :: int
  health_version :: string

text \<open>The body of \<open>/healthz\<close>; durations are in nanoseconds and \<open>int(d.Seconds())\<close> truncates.\<close>

definition ServeHTTP :: "string \<Rightarrow> time \<Rightarrow> lobby \<Rightarrow> health" where
  "ServeHTTP ver started L =
     \<lparr>health_status = ''ok'', health_uptime = (clock L - started) div Second, health_rooms = CountRooms L,
      health_peers = CountPeers L, health_version = ver\<rparr>"

section \<open>What a start guarantees\<close>

lemma trusted_prefixes_some:
  "\<forall>raw \<in> set raws. \<exists>q. ParseTrustedProxy raw = Inr q \<Longrightarrow>
    trusted_prefixes raws acc = Some (acc @ map (\<lambda>raw. projr (ParseTrustedProxy raw)) raws)"
  by (induction raws arbitrary: acc) auto

lemma limits_positive:
  "rates_safe r \<Longrightarrow> 0 < HelloPerIPPerMinute (limits_of r) \<and> 0 < RoomCreatePerPeerPerMinute (limits_of r) \<and>
    0 < RoomJoinPerPeerPerMinute (limits_of r) \<and> 0 < RoomListPerPeerPerMinute (limits_of r) \<and>
    0 < ControlPerPeerPerMinute (limits_of r) \<and> 0 < AudioFramesPerPeerPerSec (limits_of r) \<and>
    0 < PasswordChecksConcurrent (limits_of r)"
  by (simp add: limits_of_def rates_safe_def)

text \<open>
  A loaded configuration starts: only bcrypt can stop the server from being built, and the server
  it builds has a positive connection cap and every rate limit on, trusts exactly the configured
  proxies in order, serves UDP only where the operator accepted plaintext, and asks every
  session for a password bcrypt accepts against the configured one exactly when one is configured.
\<close>

lemma loaded_config_starts:
  assumes load: "Load missing decode path = (c, None)"
    and bcrypt: "\<And>p h. generate p = Some h \<Longrightarrow> h \<noteq> []"
  shows "case ws_settings generate listens buildVersion c of
      Inl e \<Rightarrow> e = 1 \<and> Password_cfg (Server c) \<noteq> '''' \<and> generate (Password_cfg (Server c)) = None
    | Inr S \<Rightarrow> 0 < MaxConnections S \<and> 0 < HelloPerIPPerMinute (Limits S) \<and> 0 < ControlPerPeerPerMinute (Limits S) \<and>
        0 < AudioFramesPerPeerPerSec (Limits S) \<and> 0 < PasswordChecksConcurrent (Limits S) \<and>
        map Inr (TrustedProxyPrefixes S) = map ParseTrustedProxy (TrustedProxies (Server c)) \<and>
        (if UdpOn S then AllowInsecureUDP (Server c) else UdpEndpoint S = '''') \<and>
        (ServerPasswordHash S = [] \<longleftrightarrow> Password_cfg (Server c) = '''') \<and>
        (Password_cfg (Server c) = '''' \<or> generate (Password_cfg (Server c)) = Some (ServerPasswordHash S))"
proof -
  have safe: "config_safe c"
    using load Default_safe by (auto simp: Load_def validate_ok split: if_splits prod.splits bool.splits)
  then have proxies: "\<forall>raw \<in> set (TrustedProxies (Server c)). \<exists>q. ParseTrustedProxy raw = Inr q"
    and udp: "UdpListen (Server c) = '''' \<or> AllowInsecureUDP (Server c)"
    by (simp_all add: config_safe_def access_safe_def)
  have "map Inr (map (\<lambda>raw. projr (ParseTrustedProxy raw)) (TrustedProxies (Server c))) =
      map ParseTrustedProxy (TrustedProxies (Server c))"
    using proxies by (induction "TrustedProxies (Server c)") auto
  then show ?thesis
    using safe udp limits_positive [of "RateLimit c"] bcrypt [of "Password_cfg (Server c)"]
    by (auto simp: ws_settings_def trusted_prefixes_some [OF proxies] config_safe_def rest_safe_def Let_def
        split: option.split)
qed

lemma loaded_config_starts_instance:
  "\<exists>S. ws_settings (\<lambda>_. Some [7]) (\<lambda>_. True) ''1.0.0'' Default = Inr S \<and> 0 < MaxConnections S \<and> ServerPasswordHash S = []"
proof -
  have "Load (\<lambda>_. True) (\<lambda>p c. (c, False)) ''config.toml'' = (Default, None)"
    by (simp add: Load_def)
  from loaded_config_starts [OF this, of "\<lambda>_. Some [7]" "\<lambda>_. True" "''1.0.0''"] show ?thesis
    by (auto simp: Default_def split: sum.splits)
qed

end
