(* ===== verification/Service.thy ===== *)
theory Service
  imports Udp_Run
begin

text \<open>
  The UDP server as a service (\<open>internal/udp/server.go\<close>): \<open>Listen\<close> starts the read loop and the sweep,
  \<open>Close\<close> ends them.  The handlers and the sweep are those of theory Udp; here is what surrounds them,
  the \<open>select\<close> on \<open>doneCh\<close>, the ticker, read errors and the closed socket.
\<close>

declare map_of_eq_Some_iff [simp del]
declare Some_eq_map_of_iff [simp del]

section \<open>State\<close>

text \<open>
  Where the goroutine of \<open>readLoop\<close> is: before its \<open>select\<close>, in \<open>ReadFromUDP\<close>, holding a datagram, or
  not running.
\<close>

datatype read_phase = Polling | Blocked | Handling "byte list" UDPAddr | ReadIdle

text \<open>
  \<open>svcDone\<close>: \<open>doneCh\<close> is closed, which only \<open>closeOnce\<close> does; \<open>sockClosed\<close>: the socket in \<open>s.conn\<close> has
  been closed.
\<close>

record udp_service =
  svcWorld :: world
  svcDone :: bool
  sockClosed :: bool
  readPhase :: read_phase
  sweeping :: bool



text \<open>\<open>bound_addr\<close> is what the socket reports.\<close>

definition LocalAddr :: "UDPAddr \<Rightarrow> udp_service \<Rightarrow> UDPAddr option" where
  "LocalAddr bound_addr s = (if connOpen (wudp (svcWorld s)) then Some bound_addr else None)"

definition Close :: "udp_service \<Rightarrow> udp_service" where
  "Close s =
     (if svcDone s then s
      else let s = s\<lparr>svcDone := True\<rparr>
           in if connOpen (wudp (svcWorld s)) then s\<lparr>sockClosed := True\<rparr> else s)"

section \<open>The loops\<close>






section \<open>Runs\<close>





section \<open>A closed socket sends nothing\<close>

abbreviation dead :: "UDPAddr \<Rightarrow> byte list \<Rightarrow> bool" where
  "dead \<equiv> \<lambda>_ _. False"


lemma write_dead [simp]: "write_udp dead payload a w = (w, False)"
  by (simp add: write_udp_def)

lemma datagrams_lobby [simp]: "datagrams (w\<lparr>wlobby := L\<rparr>) = datagrams w"
  by simp








section \<open>Invariant\<close>
















section \<open>Closing\<close>











lemma Close_world [simp]: "svcWorld (Close s) = svcWorld s"
  by (simp add: Close_def Let_def)









end
