(* ===== verification/Server_Run.thy ===== *)
theory Server_Run
  imports Server_Main Service
begin

text \<open>
  The program \<open>network-ultra-server\<close> as a whole (\<open>run\<close> of \<open>cmd/server/main.go\<close>): its flags, its exits, and
  what the configuration it started with means for every state its server can reach.
\<close>

declare map_of_eq_Some_iff [simp del]
declare Some_eq_map_of_iff [simp del]

section \<open>The program\<close>

record server_flags =
  cfgPath :: string
  show_version :: bool
  printHealthURL :: bool

text \<open>
  What lies outside the sources: \<open>os.Stat\<close>, the TOML decoder, bcrypt, and whether the UDP address could
  be bound.
\<close>

record server_host =
  stat_missing :: "string \<Rightarrow> bool"
  toml_decode :: "string \<Rightarrow> Config \<Rightarrow> Config \<times> bool"
  bcrypt_hash :: "string \<Rightarrow> byte list option"
  udp_binds :: "string \<Rightarrow> bool"

datatype launch = Exited int string | Serving Config server_config

text \<open>\<open>run\<close> up to its listeners: an exit code and what was printed, or the configuration it serves with.\<close>

definition launch_server :: "string \<Rightarrow> server_flags \<Rightarrow> server_host \<Rightarrow> launch" where
  "launch_server buildVersion f h =
     (if show_version f then Exited 0 (''network-ultra-server '' @ buildVersion @ nl)
      else case Load (stat_missing h) (toml_decode h) (cfgPath f) of
          (_, Some _) \<Rightarrow> Exited 2 ''''
        | (cfg, None) \<Rightarrow>
            if printHealthURL f then
              (case HealthURL (HealthListen (Server cfg)) of
                 Inl _ \<Rightarrow> Exited 2 ''''
               | Inr url \<Rightarrow> Exited 0 (url @ nl))
            else case ws_settings (bcrypt_hash h) (udp_binds h) buildVersion cfg of
                Inl n \<Rightarrow> Exited n ''''
              | Inr S \<Rightarrow> Serving cfg S)"

text \<open>
  The two listeners report only a real failure; the wait ends with a signal or a report, whichever \<open>select\<close>
  takes.  \<open>None\<close> is a listener still serving.
\<close>

datatype serve_result = ServedNil | ServedClosed | ServedError

definition report :: "string \<Rightarrow> serve_result option \<Rightarrow> 'sig ending list" where
  "report component r = (if r = Some ServedError then [Failed component] else [])"

definition endings :: "'sig option \<Rightarrow> serve_result option \<Rightarrow> serve_result option \<Rightarrow> 'sig ending list" where
  "endings sig websocket health =
     (case sig of None \<Rightarrow> [] | Some s \<Rightarrow> [Signalled s]) @ report ''websocket'' websocket @ report ''health'' health"

text \<open>The exit code of the process; \<open>ending\<close> is what \<open>waitForTermination\<close> saw.\<close>

definition run_server :: "string \<Rightarrow> server_flags \<Rightarrow> server_host \<Rightarrow> 'sig ending \<Rightarrow> int" where
  "run_server buildVersion f h ending =
     (case launch_server buildVersion f h of Exited n _ \<Rightarrow> n | Serving _ _ \<Rightarrow> exit_code ending)"

text \<open>The body of \<open>/metrics\<close> with its content type; \<open>verb_q\<close> is the formatting verb \<open>%q\<close>.\<close>

definition ServeHTTP_metrics :: "(string \<Rightarrow> string) \<Rightarrow> metrics \<Rightarrow> string \<times> string" where
  "ServeHTTP_metrics verb_q m = (''text/plain; version=0.0.4'', WriteText verb_q m)"

section \<open>Exits\<close>

lemma loaded_safe: "Load missing decode path = (c, None) \<Longrightarrow> config_safe c"
  using Default_safe by (auto simp: Load_def validate_ok split: if_splits prod.splits bool.splits)

lemma loaded_proxies:
  assumes "Load missing decode path = (c, None)"
  shows "ws_settings generate listens buildVersion c \<noteq> Inl n \<or> n = 1"
proof -
  from loaded_safe [OF assms] have "\<forall>raw \<in> set (TrustedProxies (Server c)). \<exists>q. ParseTrustedProxy raw = Inr q"
    by (simp add: config_safe_def access_safe_def)
  from trusted_prefixes_some [OF this] show ?thesis
    by (auto simp: ws_settings_def Let_def split: option.splits)
qed

text \<open>
  0 is returned for the version, for a printed health URL and after a signal; 2 exactly for a
  configuration that does not load; 1 when bcrypt or a listener failed.
\<close>

lemma server_exit_codes:
  "run_server v f h ending \<in> {0, 1, 2} \<and>
   (run_server v f h ending = 2 \<longleftrightarrow>
      \<not> show_version f \<and> (\<exists>c e. Load (stat_missing h) (toml_decode h) (cfgPath f) = (c, Some e)))"
proof (cases "show_version f")
  case False
  obtain c r where l: "Load (stat_missing h) (toml_decode h) (cfgPath f) = (c, r)"
    by fastforce
  show ?thesis
  proof (cases r)
    case None
    note safe = loaded_safe [OF l [unfolded None]]
    then obtain u where u: "HealthURL (HealthListen (Server c)) = Inr u"
      by (auto simp: config_safe_def)
    have "ws_settings (bcrypt_hash h) (udp_binds h) v c = Inl n \<Longrightarrow> n = 1" for n
      using loaded_proxies [OF l [unfolded None]] by blast
    then show ?thesis
      using False l None u by (cases ending) (auto simp: run_server_def launch_server_def split: sum.split)
  qed (use False l in \<open>simp add: run_server_def launch_server_def\<close>)
qed (simp add: run_server_def launch_server_def)

text \<open>
  A server that serves ends only by a signal or a failed listener, with 0 exactly for a signal; a failed
  listener always ends it, also when nobody sends a signal.
\<close>

lemma serving_ends:
  assumes "launch_server v f h = Serving cfg S" "e \<in> set (endings sig ws hl)"
  shows "(run_server v f h e = 0 \<longleftrightarrow> (\<exists>s. sig = Some s \<and> e = Signalled s)) \<and>
    (run_server v f h e = 1 \<longleftrightarrow> e = Failed ''websocket'' \<and> ws = Some ServedError \<or> e = Failed ''health'' \<and> hl = Some ServedError)"
  using assms by (auto simp: run_server_def endings_def report_def split: option.splits if_splits)

lemma failure_ends: "ServedError \<in> set_option ws \<union> set_option hl \<Longrightarrow> endings sig ws hl \<noteq> []"
  by (auto simp: endings_def report_def)

section \<open>A server without UDP\<close>

definition udp_quiet :: "world \<Rightarrow> bool" where
  "udp_quiet w \<longleftrightarrow> peerByAddr (wudp w) = [] \<and> peerByID (wudp w) = [] \<and> tokenByID (wudp w) = [] \<and> datagrams w = []"

lemma udp_quiet_cong: "wudp w' = wudp w \<Longrightarrow> datagrams w' = datagrams w \<Longrightarrow> udp_quiet w' = udp_quiet w"
  by (simp add: udp_quiet_def)

lemma quiet_apart: "apart s' = apart s \<Longrightarrow> udp_quiet (base s') = udp_quiet (base s)"
  by (rule udp_quiet_cong) (simp_all add: apart_def)

lemma quiet_hall [simp]: "udp_quiet (base (on_hall g s)) = udp_quiet (base s)" "udp_quiet (base (meter f s)) = udp_quiet (base s)"
  by (simp_all add: udp_quiet_def)

lemma quiet_receive: "udp_quiet w \<Longrightarrow> udp_quiet (receive net pkt src w)"
  by (simp add: udp_quiet_def receive_def handleAudio_def handleHello_def handlePing_def Let_def split: sum.split option.split)

lemma quiet_send: "udp_quiet w \<Longrightarrow> udp_quiet (fst (send_to net wsq p payload w))"
  by (simp add: udp_quiet_def send_to_def SendBinary_def makeUdpSender_def ws_write_def Let_def split: option.split)

lemma quiet_fold: "udp_quiet w \<Longrightarrow> udp_quiet (fold (\<lambda>p w. fst (send_to net wsq p payload w)) ps w)"
  by (induction ps arbitrary: w) (simp_all add: quiet_send)

lemma quiet_lobby [simp]: "udp_quiet (w\<lparr>wlobby := L\<rparr>) = udp_quiet w"
  by (simp add: udp_quiet_def)

lemma quiet_turn: "udp_quiet w \<Longrightarrow> udp_quiet (forward_turn net wsq r w)"
  by (simp add: forward_turn_def fanOut_def Let_def quiet_fold split: prod.split option.split)

lemma quiet_expire: "udp_quiet w \<Longrightarrow> expireIdle t w = w"
  by (simp add: udp_quiet_def expireIdle_def)

lemma quiet_leave: "udp_quiet (base (leave_session E False p s)) = udp_quiet (base s)"
  by (simp add: leave_session_def Let_def)

lemma quiet_HTTP: "HandleHTTP E origins s = (s', a) \<Longrightarrow> udp_quiet (base s') = udp_quiet (base s)"
  by (auto simp: HandleHTTP_def split: if_splits)

lemma quiet_closed [simp]: "udp_quiet (base (HandleHTTP_closed s)) = udp_quiet (base s)"
  "udp_quiet (base (HandleHTTP_accepted s)) = udp_quiet (base s)"
  by (simp_all add: HandleHTTP_closed_def HandleHTTP_accepted_def)

lemma quiet_message: "udp_quiet (base (fst (send_msg E c typ i m s))) = udp_quiet (base s)"
  by (rule quiet_apart) simp

lemma run_hello_off:
  assumes "\<not> UdpOn (server E)" "check_hello E c ip isText bytes s = (s1, Some (i, u))"
  shows "\<exists>m. let p = next_peer (hall s1); t = meter (gauge_add ''nu_active_peers'' 1) (on_hall (connect_peer uid u ip c) s1);
      x = send_msg E c TypeWelcome i m t
    in run_hello E c ip host uid random isText bytes s =
      (if snd x then (fst x, Some p) else (leave_session E False p (fst x), None))"
  by (rule exI [where x = "Welcome \<lparr>welcome_PeerID = uuid_String uid, welcome_ServerVersion = version E,
        welcome_UdpEndpoint = '''', welcome_UdpToken = ''''\<rparr>"])
    (simp add: assms run_hello_def advertised_def Let_def split: prod.split bool.split)

lemma quiet_hello:
  assumes "run_hello E c ip host uid random isText bytes s = (s', res)" "\<not> UdpOn (server E)"
  shows "udp_quiet (base s') = udp_quiet (base s)"
proof (cases "check_hello E c ip isText bytes s")
  case (Pair s1 r)
  then have q: "udp_quiet (base s1) = udp_quiet (base s)"
    using check_hello_case [OF Pair] by (intro quiet_apart) simp
  show ?thesis
  proof (cases r)
    case (Some iu)
    obtain i u where "iu = (i, u)"
      by fastforce
    from run_hello_off [OF assms(2) Pair [unfolded Some this], of uid host random] q assms(1) show ?thesis
      by (auto simp: Let_def quiet_leave quiet_message split: if_splits)
  qed (use assms Pair q in \<open>simp add: run_hello_def\<close>)
qed

lemma quiet_step:
  assumes "server_step E net R R'" "\<not> UdpOn (server E)" "udp_quiet (base (st R))"
  shows "udp_quiet (base (st R'))"
  using assms
proof (induction rule: server_step.induct)
  case (control R c p bytes uid)
  then show ?case
    using quiet_apart [OF apart_handleControl] by simp
next
  case (audio R c p bytes)
  then show ?case
    using quiet_apart [OF apart_handleAudio] by simp
next
  case (hangup R c p)
  then show ?case
    using quiet_apart [OF apart_cleanup] by (simp add: end_session_def quiet_leave)
next
  case (listen R)
  then show ?case
    by (simp add: udp_quiet_def Listen_def)
qed (simp_all add: quiet_HTTP quiet_hello quiet_receive quiet_turn quiet_expire)

lemma quiet_reachable:
  assumes "server_reachable E net mr mp R" "\<not> UdpOn (server E)"
  shows "udp_quiet (base (st R))"
  using assms(1) unfolding server_reachable_def
proof (induction rule: rtranclp_induct)
  case base
  show ?case
    by (simp add: start_server_def world0_def NewServer_def udp_quiet_def)
next
  case (step R R')
  then show ?case
    using quiet_step [OF _ assms(2)] by blast
qed

section \<open>What the operator configured holds in every state\<close>

lemma launch_serving:
  "launch_server v f h = Serving cfg S \<longleftrightarrow>
     \<not> show_version f \<and> \<not> printHealthURL f \<and> Load (stat_missing h) (toml_decode h) (cfgPath f) = (cfg, None) \<and>
     ws_settings (bcrypt_hash h) (udp_binds h) v cfg = Inr S"
  by (auto simp: launch_server_def split: prod.split option.split sum.split)

lemma settings_of:
  assumes "ws_settings generate listens v cfg = Inr S"
  shows "MaxConnections S = MaxConnections_cfg (Server cfg) \<and> Limits S = limits_of (RateLimit cfg) \<and>
    (UdpOn S \<longrightarrow> UdpListen (Server cfg) \<noteq> '''' \<and> listens (UdpListen (Server cfg))) \<and>
    map Inr (TrustedProxyPrefixes S) = map ParseTrustedProxy (TrustedProxies (Server cfg)) \<and>
    (if Password_cfg (Server cfg) = '''' then ServerPasswordHash S = []
     else generate (Password_cfg (Server cfg)) = Some (ServerPasswordHash S))"
proof -
  have "trusted_prefixes raws acc = Some ps \<Longrightarrow> map Inr ps = map Inr acc @ map ParseTrustedProxy raws" for raws acc ps
    by (induction raws arbitrary: acc) (auto split: sum.splits)
  from this [of "TrustedProxies (Server cfg)" "[]"] assms show ?thesis
    by (auto simp: ws_settings_def Let_def split: option.splits if_splits)
qed

lemma served_rooms:
  assumes "server_reachable E net mr mp R" "0 \<le> mp" "r < next_room (hall (st R))"
  shows "PeerCount r (hall (st R)) \<le> mp"
proof -
  note run = server_lobby_run [OF assms(1)]
  have n: "r < next_room (lob (lobby_of R))"
    using assms(3) by (simp add: lobby_of_def)
  from inv_room [OF reachable_inv [OF run] n] reachable_configured [OF run] n assms(2) show ?thesis
    by (auto simp: room_ok_def Let_def PeerCount_def configured_def lobby_of_def split: if_splits)
qed

text \<open>
  What \<open>run\<close> builds before it listens: the registry gets its sizes from the configuration, and
  the dispatch its delta listener.
\<close>

definition fresh_server :: "env \<Rightarrow> Config \<Rightarrow> server_run" where
  "fresh_server E cfg = start_server E (MaxRooms_cfg (Server cfg)) (MaxPeersPerRoom_cfg (Server cfg))"

text \<open>
  C25. What the operator configured holds in every state of the running server.  If the program gets
  to serve, its configuration is safe, and whatever clients, datagrams and timers do: there are
  at most the configured number of rooms and connections, every room holds at most the configured
  number of peers, which is at most eight; the password gate is on exactly if a password is
  configured; and unless the operator configured a UDP address and accepted plaintext, no peer, token or
  endpoint is ever registered for UDP and not one datagram is sent.
\<close>

theorem configuration_is_enforced:
  assumes launch: "launch_server v f h = Serving cfg (server E)"
    and bcrypt: "bcrypt_hash h (Password_cfg (Server cfg)) \<noteq> Some []"
    and run: "(server_step E net)\<^sup>*\<^sup>* (fresh_server E cfg) R"
  shows "config_safe cfg \<and> CountRooms (hall (st R)) \<le> MaxRooms_cfg (Server cfg) \<and>
    int (length (conns R)) \<le> MaxConnections_cfg (Server cfg) \<and>
    (\<forall>r < next_room (hall (st R)). PeerCount r (hall (st R)) \<le> MaxPeersPerRoom_cfg (Server cfg)) \<and>
    MaxPeersPerRoom_cfg (Server cfg) \<le> 8 \<and>
    (ServerPasswordHash (server E) = [] \<longleftrightarrow> Password_cfg (Server cfg) = '''') \<and>
    (UdpListen (Server cfg) = '''' \<or> \<not> AllowInsecureUDP (Server cfg) \<longrightarrow> udp_quiet (base (st R)))"
proof -
  from launch have load: "Load (stat_missing h) (toml_decode h) (cfgPath f) = (cfg, None)"
    and set: "ws_settings (bcrypt_hash h) (udp_binds h) v cfg = Inr (server E)"
    by (simp_all add: launch_serving)
  have run: "server_reachable E net (MaxRooms_cfg (Server cfg)) (MaxPeersPerRoom_cfg (Server cfg)) R"
    using run by (simp add: server_reachable_def fresh_server_def)
  note safe = loaded_safe [OF load] and S = settings_of [OF set]
  have udp: "UdpListen (Server cfg) = '''' \<or> AllowInsecureUDP (Server cfg)"
    and caps: "0 < MaxRooms_cfg (Server cfg)" "0 < MaxConnections_cfg (Server cfg)" "1 \<le> MaxPeersPerRoom_cfg (Server cfg)"
      "MaxPeersPerRoom_cfg (Server cfg) \<le> 8"
    using safe by (simp_all add: config_safe_def access_safe_def MaxPeersPerRoom_def)
  have "conns_ok E R"
    by (rule server_inv_parts(3) [OF server_reachable_inv [OF run]])
  then have "int (length (conns R)) \<le> MaxConnections_cfg (Server cfg)"
    using S caps(2) by (simp add: conns_ok_def)
  moreover have "udp_quiet (base (st R))" if "UdpListen (Server cfg) = '''' \<or> \<not> AllowInsecureUDP (Server cfg)"
    using that udp S quiet_reachable [OF run] by blast
  moreover have "ServerPasswordHash (server E) = [] \<longleftrightarrow> Password_cfg (Server cfg) = ''''"
    using S bcrypt by (auto split: if_splits)
  ultimately show ?thesis
    using safe server_room_count [OF run] served_rooms [OF run] caps by simp
qed

text \<open>A server started without a configuration file, with its first connection.\<close>

definition demo_server_flags :: server_flags where
  "demo_server_flags = \<lparr>cfgPath = ''config.toml'', show_version = False, printHealthURL = False\<rparr>"

definition demo_server_host :: server_host where
  "demo_server_host = \<lparr>stat_missing = (\<lambda>_. True), toml_decode = (\<lambda>_ c. (c, False)), bcrypt_hash = (\<lambda>_. Some [7]),
     udp_binds = (\<lambda>_. True)\<rparr>"

definition first_connection :: "env \<Rightarrow> server_run" where
  "first_connection E = (start_server E 50 8)
     \<lparr>st := HandleHTTP_accepted (fst (HandleHTTP E [] (st (start_server E 50 8)))), conns := [0]\<rparr>"

lemma Default_sizes: "MaxRooms_cfg (Server Default) = 50" "MaxPeersPerRoom_cfg (Server Default) = 8"
  "MaxConnections_cfg (Server Default) = 200" "Password_cfg (Server Default) = ''''" "UdpListen (Server Default) = ''''"
  by (simp_all add: Default_def)

lemma demo_launch:
  obtains S where "launch_server ''1.0.0'' demo_server_flags demo_server_host = Serving Default S" "MaxConnections S = 200"
proof -
  obtain S where S: "ws_settings (\<lambda>_. Some [7]) (\<lambda>_. True) ''1.0.0'' Default = Inr S"
    using loaded_config_starts_instance by blast
  have "launch_server ''1.0.0'' demo_server_flags demo_server_host = Serving Default S"
    using S by (simp add: launch_serving demo_server_flags_def demo_server_host_def Load_def)
  with settings_of [OF S] that show ?thesis
    by (simp add: Default_sizes)
qed

lemma first_connection_reachable:
  assumes "MaxConnections (server E) = 200"
  shows "server_reachable E net 50 8 (first_connection E)"
proof -
  let ?R = "start_server E 50 8"
  have "HandleHTTP E [] (st ?R) = (fst (HandleHTTP E [] (st ?R)), Upgrade)"
    using assms by (simp add: HandleHTTP_def start_server_def)
  from server_step.upgrade [OF this, of 0 net] show ?thesis
    unfolding server_reachable_def first_connection_def by (intro r_into_rtranclp) (simp add: start_server_def)
qed

theorem configuration_is_enforced_witness:
  "\<exists>E. launch_server ''1.0.0'' demo_server_flags demo_server_host = Serving Default (server E) \<and>
     int (length (conns (first_connection E))) \<le> 200 \<and> ServerPasswordHash (server E) = [] \<and>
     udp_quiet (base (st (first_connection E)))"
proof -
  obtain S where S: "launch_server ''1.0.0'' demo_server_flags demo_server_host = Serving Default S" "MaxConnections S = 200"
    by (rule demo_launch)
  let ?E = "demo_env\<lparr>server := S\<rparr>"
  have "(server_step ?E all_net)\<^sup>*\<^sup>* (fresh_server ?E Default) (first_connection ?E)"
    using first_connection_reachable [of ?E] S(2) by (simp add: Default_sizes server_reachable_def fresh_server_def)
  from configuration_is_enforced [OF _ _ this, of "''1.0.0''" demo_server_flags demo_server_host] S(1) show ?thesis
    by (intro exI [of _ ?E]) (simp add: Default_sizes demo_server_host_def)
qed

text \<open>The exits: the version, a health URL, a configuration that does not decode.\<close>

lemma demo_exits:
  "launch_server ''1.0.0'' (demo_server_flags\<lparr>show_version := True\<rparr>) demo_server_host =
     Exited 0 (''network-ultra-server 1.0.0'' @ nl)"
  "\<exists>url. launch_server ''1.0.0'' (demo_server_flags\<lparr>printHealthURL := True\<rparr>) demo_server_host = Exited 0 (url @ nl)"
  "run_server ''1.0.0'' demo_server_flags (demo_server_host\<lparr>stat_missing := \<lambda>_. False\<rparr>) (Signalled ''SIGTERM'') = 2"
  using Default_safe
  by (auto simp: launch_server_def run_server_def demo_server_flags_def demo_server_host_def Load_def config_safe_def)

end
