(* ===== verification/Json.thy ===== *)
theory Json
  imports Strs
begin

text \<open>
  JSON texts as Go's \<open>encoding/json\<close> reads and writes them: string literals with their escapes,
  numbers, the grammar with its nesting limit, and the compact printed form with HTML characters
  escaped.  A text is a string of bytes; a parsed number keeps its text, and every member of an
  object keeps the text of its value, which is what a \<open>json.RawMessage\<close> holds.
\<close>

section \<open>Runes\<close>

text \<open>The encodings of one rune, and how many bytes the one at the head has; 0 if there is none.\<close>

fun is_rune :: "string \<Rightarrow> bool" where
  "is_rune [a] = (code a < 0x80)"
| "is_rune [a, b] = (0xC2 \<le> code a \<and> code a < 0xE0 \<and> cont b)"
| "is_rune [a, b, c] =
     (0xE0 \<le> code a \<and> code a < 0xF0 \<and> cont b \<and> cont c \<and> (code a = 0xE0 \<longrightarrow> 0xA0 \<le> code b) \<and>
      (code a = 0xED \<longrightarrow> code b < 0xA0))"
| "is_rune [a, b, c, d] =
     (0xF0 \<le> code a \<and> code a < 0xF5 \<and> cont b \<and> cont c \<and> cont d \<and> (code a = 0xF0 \<longrightarrow> 0x90 \<le> code b) \<and>
      (code a = 0xF4 \<longrightarrow> code b < 0x90))"
| "is_rune _ = False"

definition rune_size :: "string \<Rightarrow> nat" where
  "rune_size s =
     (if is_rune (take 1 s) then 1
      else if is_rune (take 2 s) then 2
      else if is_rune (take 3 s) then 3
      else if is_rune (take 4 s) then 4
      else 0)"

lemma rune_size_Nil [simp]: "rune_size [] = 0"
  by (simp add: rune_size_def)

lemma is_rune_length: "is_rune s \<Longrightarrow> 0 < length s \<and> length s \<le> 4"
  by (cases s rule: is_rune.cases) simp_all

lemma is_rune_high: "is_rune s \<Longrightarrow> length s \<noteq> 1 \<Longrightarrow> c \<in> set s \<Longrightarrow> 0x80 \<le> code c"
  by (cases s rule: is_rune.cases) auto

lemma rune_size_is: "rune_size s = n \<Longrightarrow> 0 < n \<Longrightarrow> is_rune (take n s) \<and> n \<le> length s \<and> n \<le> 4"
proof -
  assume n: "rune_size s = n" "0 < n"
  then have r: "is_rune (take n s)" and n4: "n \<le> 4"
    by (auto simp: rune_size_def split: if_splits)
  have "n \<le> length s"
  proof (rule ccontr)
    assume "\<not> n \<le> length s"
    then have "take n s = s" "length s < n"
      by simp_all
    with r is_rune_length [of s] n n4 show False
      by (auto simp: rune_size_def split: if_splits)
  qed
  with r n4 show ?thesis by simp
qed

lemma rune_size_le: "rune_size s \<le> length s"
  using rune_size_is [of s] by (cases "rune_size s") auto

lemma rune_size_take: "rune_size s = n \<Longrightarrow> 0 < n \<Longrightarrow> rune_size (take n s @ r) = n"
proof -
  assume n: "rune_size s = n" "0 < n"
  note r = rune_size_is [OF n]
  then have "take k (take n s @ r) = take k s" if "k \<le> n" for k
    using that by (simp add: min_def)
  with n r show ?thesis
    by (auto simp: rune_size_def split: if_splits)
qed

lemma rune_size_append: "0 < rune_size s \<Longrightarrow> rune_size (s @ r) = rune_size s"
  using rune_size_take [OF refl, of s "drop (rune_size s) s @ r"] by (simp add: append_assoc [symmetric] del: append_assoc)

lemma rune_size_high: "rune_size s = n \<Longrightarrow> 1 < n \<Longrightarrow> c \<in> set (take n s) \<Longrightarrow> 0x80 \<le> code c"
  using rune_size_is [of s n] by (intro is_rune_high [of "take n s"]) auto

lemma rune_size_ascii: "rune_size (a # s) = 1 \<longleftrightarrow> code a < 0x80"
  by (cases s; cases "tl s"; cases "tl (tl s)") (auto simp: rune_size_def)

lemma runes_rune:
  assumes "runes s \<noteq> None" "s \<noteq> []"
  shows "rune_size s \<noteq> 0"
proof -
  obtain a t where s: "s = a # t"
    using assms(2) by (cases s) auto
  consider "t = []" | b where "t = [b]" | b c where "t = [b, c]" | b c d u where "t = b # c # d # u"
    by (metis neq_Nil_conv)
  then have "is_rune (take 1 s) \<or> is_rune (take 2 s) \<or> is_rune (take 3 s) \<or> is_rune (take 4 s)"
    using assms(1) by cases (auto simp: s split: if_splits)
  then show ?thesis
    unfolding rune_size_def by auto
qed

lemma ValidUTF8_rune: "is_rune x \<Longrightarrow> ValidUTF8 (x @ r) \<longleftrightarrow> ValidUTF8 r"
  by (cases x rule: is_rune.cases) (auto simp: ValidUTF8_def)

lemma runes_step: "s \<noteq> [] \<Longrightarrow> ValidUTF8 s \<longleftrightarrow> 0 < rune_size s \<and> ValidUTF8 (drop (rune_size s) s)"
  using runes_rune [of s] rune_size_is [OF refl, of s] ValidUTF8_rune [of "take (rune_size s) s" "drop (rune_size s) s"]
  unfolding ValidUTF8_def by (cases "runes s = None"; cases "rune_size s = 0") auto

lemma ValidUTF8_Nil [simp]: "ValidUTF8 []"
  by (simp add: ValidUTF8_def)

text \<open>U+FFFD, U+2028 and U+2029, and the encoding of a rune.\<close>

definition replacement :: string where
  "replacement = map char_of [0xEF, 0xBF, 0xBD :: nat]"

definition line_sep :: string where
  "line_sep = map char_of [0xE2, 0x80, 0xA8 :: nat]"

definition para_sep :: string where
  "para_sep = map char_of [0xE2, 0x80, 0xA9 :: nat]"

definition encode_rune :: "nat \<Rightarrow> string" where
  "encode_rune r =
     map char_of (if r < 0x80 then [r]
       else if r < 0x800 then [0xC0 + r div 64, 0x80 + r mod 64]
       else if r < 0x10000 then [0xE0 + r div 4096, 0x80 + r div 64 mod 64, 0x80 + r mod 64]
       else [0xF0 + r div 262144, 0x80 + r div 4096 mod 64, 0x80 + r div 64 mod 64, 0x80 + r mod 64])"

text \<open>Reading a string into Go and writing it replaces each byte outside valid UTF-8 by U+FFFD.\<close>

function clean :: "string \<Rightarrow> string" where
  "clean s =
     (if s = [] then []
      else if rune_size s = 0 then replacement @ clean (tl s)
      else take (rune_size s) s @ clean (drop (rune_size s) s))"
  by pat_completeness auto
termination
  by (relation "measure length") auto

declare clean.simps [simp del]

lemma clean_Nil [simp]: "clean [] = []"
  by (simp add: clean.simps)

lemma clean_valid: "ValidUTF8 s \<Longrightarrow> clean s = s"
proof (induction s rule: clean.induct)
  case (1 s)
  then show ?case
    using runes_step [of s] by (subst clean.simps) auto
qed

section \<open>String literals\<close>

abbreviation dquote :: char where
  "dquote \<equiv> CHR 0x22"

abbreviation esc_char :: char where
  "esc_char \<equiv> CHR 0x5C"

definition hex_code :: "char \<Rightarrow> nat option" where
  "hex_code c =
     (if 48 \<le> code c \<and> code c \<le> 57 then Some (code c - 48)
      else if 97 \<le> code c \<and> code c \<le> 102 then Some (code c - 87)
      else if 65 \<le> code c \<and> code c \<le> 70 then Some (code c - 55)
      else None)"

text \<open>\<open>getu4\<close> after the \<open>u\<close>: four hexadecimal digits.\<close>

definition hex4 :: "string \<Rightarrow> nat option" where
  "hex4 s =
     (case map hex_code (take 4 s) of
        [Some a, Some b, Some c, Some d] \<Rightarrow> Some (4096 * a + 256 * b + 16 * c + d)
      | _ \<Rightarrow> None)"

text \<open>What may follow a backslash, apart from \<open>u\<close>, and what it stands for.\<close>

definition escaped_char :: "char \<Rightarrow> char option" where
  "escaped_char c =
     (if c = CHR ''b'' then Some CHR 0x08
      else if c = CHR ''f'' then Some CHR 0x0C
      else if c = CHR ''n'' then Some CHR 0x0A
      else if c = CHR ''r'' then Some CHR 0x0D
      else if c = CHR ''t'' then Some CHR 0x09
      else if c = dquote \<or> c = esc_char \<or> c = CHR ''/'' then Some c
      else None)"

text \<open>The scanner behind an opening quote: the literal's inside and what follows the closing quote.\<close>

function scan_string :: "string \<Rightarrow> (string \<times> string) option" where
  "scan_string s =
     (case s of
        [] \<Rightarrow> None
      | c # t \<Rightarrow>
          if c = dquote then Some ([], t)
          else if c = esc_char then
            (case t of
               [] \<Rightarrow> None
             | e # u \<Rightarrow>
                 if e = CHR ''u'' then
                   (if hex4 u = None then None
                    else map_option (\<lambda>(b, r). (c # e # take 4 u @ b, r)) (scan_string (drop 4 u)))
                 else if escaped_char e = None then None
                 else map_option (\<lambda>(b, r). (c # e # b, r)) (scan_string u))
          else if code c < 0x20 then None
          else map_option (\<lambda>(b, r). (c # b, r)) (scan_string t))"
  by pat_completeness auto
termination
  by (relation "measure length") auto

declare scan_string.simps [simp del]

text \<open>\<open>unquote\<close> on the inside of a literal.\<close>

definition surrogate :: "nat \<Rightarrow> bool" where
  "surrogate r \<longleftrightarrow> 0xD800 \<le> r \<and> r < 0xE000"

text \<open>\<open>utf16.DecodeRune\<close> of a surrogate and the escape that may follow it.\<close>

definition surrogate_pair :: "nat \<Rightarrow> string \<Rightarrow> nat option" where
  "surrogate_pair r s =
     (if HasPrefix s [esc_char, CHR ''u''] then
        (case hex4 (drop 2 s) of
           None \<Rightarrow> None
         | Some q \<Rightarrow>
             if r < 0xDC00 \<and> 0xDC00 \<le> q \<and> q < 0xE000
             then Some ((r - 0xD800) * 1024 + (q - 0xDC00) + 0x10000) else None)
      else None)"

function unquote :: "string \<Rightarrow> string" where
  "unquote s =
     (case s of
        [] \<Rightarrow> []
      | c # t \<Rightarrow>
          if c = esc_char then
            (case t of
               [] \<Rightarrow> []
             | e # u \<Rightarrow>
                 if e = CHR ''u'' then
                   (case hex4 u of
                      None \<Rightarrow> []
                    | Some r \<Rightarrow>
                        if surrogate r then
                          (case surrogate_pair r (drop 4 u) of
                             Some q \<Rightarrow> encode_rune q @ unquote (drop 10 u)
                           | None \<Rightarrow> replacement @ unquote (drop 4 u))
                        else encode_rune r @ unquote (drop 4 u))
                 else (case escaped_char e of None \<Rightarrow> [] | Some x \<Rightarrow> x # unquote u))
          else if rune_size s = 0 then replacement @ unquote t
          else take (rune_size s) s @ unquote (drop (rune_size s) s))"
  by pat_completeness auto
termination
  by (relation "measure length") auto

declare unquote.simps [simp del]

section \<open>Writing strings\<close>

text \<open>\<open>appendString\<close> with \<open>escapeHTML\<close>, as \<open>json.Marshal\<close> calls it, for one ASCII byte.\<close>

definition quote_byte :: "char \<Rightarrow> string" where
  "quote_byte c =
     (if c = dquote \<or> c = esc_char then [esc_char, c]
      else if c = CHR 0x08 then [esc_char, CHR ''b'']
      else if c = CHR 0x0C then [esc_char, CHR ''f'']
      else if c = CHR 0x0A then [esc_char, CHR ''n'']
      else if c = CHR 0x0D then [esc_char, CHR ''r'']
      else if c = CHR 0x09 then [esc_char, CHR ''t'']
      else if code c < 0x20 \<or> c = CHR ''<'' \<or> c = CHR ''>'' \<or> c = CHR ''&''
        then [esc_char, CHR ''u'', CHR ''0'', CHR ''0'', digit_char (code c div 16), digit_char (code c mod 16)]
      else [c])"

function quote_body :: "string \<Rightarrow> string" where
  "quote_body s =
     (if s = [] then []
      else if rune_size s = 0 then esc_char # ''ufffd'' @ quote_body (tl s)
      else if rune_size s = 1 then quote_byte (hd s) @ quote_body (tl s)
      else if HasPrefix s line_sep then esc_char # ''u2028'' @ quote_body (drop 3 s)
      else if HasPrefix s para_sep then esc_char # ''u2029'' @ quote_body (drop 3 s)
      else take (rune_size s) s @ quote_body (drop (rune_size s) s))"
  by pat_completeness auto
termination
  by (relation "measure length") auto

declare quote_body.simps [simp del]

definition quote_text :: "string \<Rightarrow> string" where
  "quote_text s = dquote # quote_body s @ [dquote]"

section \<open>What is written is read back\<close>

text \<open>A piece of a literal that the scanner takes as it is, and that reads as \<open>y\<close>.\<close>

definition piece :: "string \<Rightarrow> string \<Rightarrow> bool" where
  "piece x y \<longleftrightarrow> (\<forall>r. scan_string (x @ r) = map_option (\<lambda>(b, r'). (x @ b, r')) (scan_string r)) \<and>
     (\<forall>r. unquote (x @ r) = y @ unquote r)"

lemma piece_Nil: "piece [] []"
  by (simp add: piece_def option.map_ident case_prod_unfold)

lemma piece_append: "piece x y \<Longrightarrow> piece x' y' \<Longrightarrow> piece (x @ x') (y @ y')"
  by (simp add: piece_def option.map_comp comp_def case_prod_unfold)

lemma unquote_Nil [simp]: "unquote [] = []"
  by (simp add: unquote.simps)

lemma piece_escape:
  assumes "escaped_char e = Some x" "e \<noteq> CHR ''u''"
  shows "piece [esc_char, e] [x]"
proof -
  have "scan_string ([esc_char, e] @ r) = map_option (\<lambda>(b, r'). ([esc_char, e] @ b, r')) (scan_string r)" for r
    by (subst scan_string.simps) (simp add: assms)
  moreover have "unquote ([esc_char, e] @ r) = [x] @ unquote r" for r
    by (subst unquote.simps) (simp add: assms)
  ultimately show ?thesis
    by (simp add: piece_def)
qed

lemma piece_u:
  assumes h: "hex4 [a, b, c, d] = Some r" and s: "\<not> surrogate r"
  shows "piece [esc_char, CHR ''u'', a, b, c, d] (encode_rune r)"
proof -
  have [simp]: "hex4 (a # b # c # d # t) = Some r" for t
    using h by (simp add: hex4_def)
  have "scan_string ([esc_char, CHR ''u'', a, b, c, d] @ t) =
      map_option (\<lambda>(x, r'). ([esc_char, CHR ''u'', a, b, c, d] @ x, r')) (scan_string t)" for t
    by (subst scan_string.simps) simp
  moreover have "unquote ([esc_char, CHR ''u'', a, b, c, d] @ t) = encode_rune r @ unquote t" for t
    using s by (subst unquote.simps) simp
  ultimately show ?thesis
    by (simp add: piece_def)
qed

lemma scan_plain:
  assumes "\<forall>c \<in> set x. 0x20 \<le> code c \<and> c \<noteq> dquote \<and> c \<noteq> esc_char"
  shows "scan_string (x @ r) = map_option (\<lambda>(b, r'). (x @ b, r')) (scan_string r)"
  using assms
proof (induction x)
  case (Cons c x)
  then show ?case
    by (subst append_Cons, subst scan_string.simps) (auto simp: option.map_comp comp_def case_prod_unfold)
qed (simp add: option.map_ident case_prod_unfold)

lemma piece_rune:
  assumes "is_rune x" "\<forall>c \<in> set x. 0x20 \<le> code c \<and> c \<noteq> dquote \<and> c \<noteq> esc_char"
  shows "piece x x"
proof -
  obtain c t where x: "x = c # t" "c \<noteq> esc_char"
    using assms is_rune_length [OF assms(1)] by (cases x) auto
  have "rune_size (x @ r) = length x" for r
    using assms(1) by (cases x rule: is_rune.cases) (auto simp: rune_size_def)
  then have "unquote (x @ r) = x @ unquote r" for r
    using x by (subst unquote.simps) simp
  with scan_plain [OF assms(2)] show ?thesis
    by (simp add: piece_def)
qed

lemma hex_code_char: "d < 16 \<Longrightarrow> hex_code (digit_char d) = Some d"
  by (simp add: hex_code_def digit_char_code)

lemma piece_control:
  assumes "code c < 0x80"
  shows "piece [esc_char, CHR ''u'', CHR ''0'', CHR ''0'', digit_char (code c div 16), digit_char (code c mod 16)] [c]"
proof -
  have z: "hex_code CHR ''0'' = Some 0"
    by (simp add: hex_code_def)
  have "hex4 [CHR ''0'', CHR ''0'', digit_char (code c div 16), digit_char (code c mod 16)] = Some (code c)"
    using assms by (simp add: hex4_def z hex_code_char)
  from piece_u [OF this] assms show ?thesis
    by (simp add: surrogate_def encode_rune_def)
qed

lemma piece_byte: "code c < 0x80 \<Longrightarrow> piece (quote_byte c) [c]"
proof -
  assume c: "code c < 0x80"
  have e: "escaped_char e \<noteq> None \<Longrightarrow> e \<noteq> CHR ''u'' \<Longrightarrow> piece [esc_char, e] [the (escaped_char e)]" for e
    by (rule piece_escape) auto
  have p: "piece [c] [c]" if "\<not> code c < 0x20" "c \<noteq> dquote" "c \<noteq> esc_char"
    using that c by (intro piece_rune) auto
  show ?thesis
    using e [of dquote] e [of esc_char] e [of "CHR ''b''"] e [of "CHR ''f''"] e [of "CHR ''n''"] e [of "CHR ''r''"] e [of "CHR ''t''"]
      piece_control [OF c] p by (simp add: quote_byte_def escaped_char_def)
qed

lemma piece_special: "piece (esc_char # ''ufffd'') replacement" "piece (esc_char # ''u2028'') line_sep"
  "piece (esc_char # ''u2029'') para_sep"
proof -
  have h: "hex4 ''fffd'' = Some 0xFFFD" "hex4 ''2028'' = Some 0x2028" "hex4 ''2029'' = Some 0x2029"
    by (simp_all add: hex4_def hex_code_def)
  show "piece (esc_char # ''ufffd'') replacement" "piece (esc_char # ''u2028'') line_sep" "piece (esc_char # ''u2029'') para_sep"
    using h [THEN piece_u] by (simp_all add: surrogate_def encode_rune_def replacement_def line_sep_def para_sep_def)
qed

lemma HasPrefix_take: "HasPrefix s p \<Longrightarrow> s = p @ drop (length p) s"
  unfolding HasPrefix_def by (metis append_take_drop_id)

lemma sep_rune: "HasPrefix s line_sep \<or> HasPrefix s para_sep \<Longrightarrow> rune_size s = 3"
proof -
  have "is_rune line_sep" "is_rune para_sep"
    by (simp_all add: line_sep_def para_sep_def)
  have "rune_size (line_sep @ r) = 3" "rune_size (para_sep @ r) = 3" for r
    by (simp_all add: line_sep_def para_sep_def rune_size_def)
  then show "HasPrefix s line_sep \<or> HasPrefix s para_sep \<Longrightarrow> rune_size s = 3"
    by (metis HasPrefix_take)
qed

lemma high_plain: "0x80 \<le> code c \<Longrightarrow> 0x20 \<le> code c \<and> c \<noteq> dquote \<and> c \<noteq> esc_char"
  by auto

lemma piece_quote: "piece (quote_body s) (clean s)"
proof (induction s rule: quote_body.induct)
  case (1 s)
  have sep: "take 3 s = line_sep" if "HasPrefix s line_sep"
    using that by (simp add: HasPrefix_def line_sep_def numeral_3_eq_3)
  have sep': "take 3 s = para_sep" if "HasPrefix s para_sep"
    using that by (simp add: HasPrefix_def para_sep_def numeral_3_eq_3)
  consider "s = []" | "s \<noteq> []" "rune_size s = 0" | "s \<noteq> []" "rune_size s = 1"
    | "HasPrefix s line_sep" "rune_size s = 3" | "\<not> HasPrefix s line_sep" "HasPrefix s para_sep" "rune_size s = 3"
    | "s \<noteq> []" "1 < rune_size s" "\<not> HasPrefix s line_sep" "\<not> HasPrefix s para_sep"
    using sep_rune [of s] by fastforce
  then show ?case
  proof cases
    case 1
    then show ?thesis
      by (simp add: quote_body.simps piece_Nil)
  next
    case 2
    have "piece (esc_char # ''ufffd'' @ quote_body (tl s)) (replacement @ clean (tl s))"
      using piece_append [OF piece_special(1) "1.IH"(1)] 2 by simp
    with 2 show ?thesis
      by (subst quote_body.simps, subst clean.simps) simp
  next
    case 3
    then obtain c t where s: "s = c # t"
      by (cases s) auto
    with 3 have "code c < 0x80"
      using rune_size_ascii [of c t] by simp
    from piece_append [OF piece_byte [OF this] "1.IH"(2)] 3 s show ?thesis
      by (subst quote_body.simps, subst clean.simps) simp
  next
    case 4
    then have "s \<noteq> []"
      by auto
    with piece_append [OF piece_special(2) "1.IH"(3)] 4 sep show ?thesis
      by (subst quote_body.simps, subst clean.simps) simp
  next
    case 5
    then have "s \<noteq> []"
      by auto
    with piece_append [OF piece_special(3) "1.IH"(4)] 5 sep' show ?thesis
      by (subst quote_body.simps, subst clean.simps) simp
  next
    case 6
    have "0x80 \<le> code c" if "c \<in> set (take (rune_size s) s)" for c
      using rune_size_high [OF refl 6(2) that] .
    then have "\<forall>c \<in> set (take (rune_size s) s). 0x20 \<le> code c \<and> c \<noteq> dquote \<and> c \<noteq> esc_char"
      using high_plain by blast
    then have "piece (take (rune_size s) s) (take (rune_size s) s)"
      using rune_size_is [OF refl, of s] 6(2) by (intro piece_rune) simp_all
    from piece_append [OF this "1.IH"(5)] 6 show ?thesis
      by (subst quote_body.simps, subst clean.simps) simp
  qed
qed

lemma scan_quoted: "scan_string (quote_body s @ dquote # r) = Some (quote_body s, r)"
proof -
  have "scan_string (dquote # r) = Some ([], r)"
    by (simp add: scan_string.simps)
  with piece_quote [of s] show ?thesis
    by (simp add: piece_def)
qed

text \<open>A written string reads as itself, but for bytes outside valid UTF-8.\<close>

lemma unquote_quoted: "unquote (quote_body s) = clean s"
  using piece_quote [of s] unfolding piece_def by (metis append_Nil2 unquote_Nil)

section \<open>Numbers\<close>

text \<open>The parts of a number literal, each with what follows it.\<close>

definition scan_int :: "string \<Rightarrow> (string \<times> string) option" where
  "scan_int s =
     (case s of
        [] \<Rightarrow> None
      | c # t \<Rightarrow>
          if c = CHR ''0'' then Some ([c], t)
          else if is_digit c then Some (c # takeWhile is_digit t, dropWhile is_digit t)
          else None)"

definition scan_frac :: "string \<Rightarrow> (string \<times> string) option" where
  "scan_frac s =
     (if s \<noteq> [] \<and> hd s = CHR ''.'' then
        let ds = takeWhile is_digit (tl s)
        in if ds = [] then None else Some (CHR ''.'' # ds, dropWhile is_digit (tl s))
      else Some ([], s))"

definition scan_exp :: "string \<Rightarrow> (string \<times> string) option" where
  "scan_exp s =
     (if s \<noteq> [] \<and> (hd s = CHR ''e'' \<or> hd s = CHR ''E'') then
        let t = tl s;
            sgn = (if t \<noteq> [] \<and> (hd t = CHR ''+'' \<or> hd t = CHR ''-'') then [hd t] else []);
            u = drop (length sgn) t;
            ds = takeWhile is_digit u
        in if ds = [] then None else Some (hd s # sgn @ ds, dropWhile is_digit u)
      else Some ([], s))"

definition scan_number :: "string \<Rightarrow> (string \<times> string) option" where
  "scan_number s =
     (let neg = (if s \<noteq> [] \<and> hd s = CHR ''-'' then ''-'' else '''')
      in case scan_int (drop (length neg) s) of
           None \<Rightarrow> None
         | Some (i, t) \<Rightarrow>
             (case scan_frac t of
                None \<Rightarrow> None
              | Some (f, u) \<Rightarrow>
                  (case scan_exp u of None \<Rightarrow> None | Some (e, r) \<Rightarrow> Some (neg @ i @ f @ e, r))))"

lemma scan_int_parts: "scan_int s = Some (i, r) \<Longrightarrow> s = i @ r \<and> i \<noteq> []"
  by (auto simp: scan_int_def split: list.splits if_splits)

lemma scan_frac_parts: "scan_frac s = Some (f, r) \<Longrightarrow> s = f @ r"
  by (cases s) (auto simp: scan_frac_def Let_def split: if_splits)

lemma scan_exp_parts: "scan_exp s = Some (e, r) \<Longrightarrow> s = e @ r"
proof (cases s)
  case (Cons c t)
  then show "scan_exp s = Some (e, r) \<Longrightarrow> s = e @ r"
    by (cases t) (auto simp: scan_exp_def Let_def split: if_splits)
qed (simp add: scan_exp_def)

text \<open>The parts of a literal with a given sign.\<close>

definition scan_unsigned :: "string \<Rightarrow> (string \<times> string) option" where
  "scan_unsigned s =
     (case scan_int s of
        None \<Rightarrow> None
      | Some (i, t) \<Rightarrow>
          (case scan_frac t of
             None \<Rightarrow> None
           | Some (f, u) \<Rightarrow> map_option (\<lambda>(e, r). (i @ f @ e, r)) (scan_exp u)))"

lemma scan_number_minus: "scan_number (CHR ''-'' # s) = map_option (\<lambda>(x, r). (CHR ''-'' # x, r)) (scan_unsigned s)"
  by (simp add: scan_number_def scan_unsigned_def Let_def split: option.split)

lemma scan_number_plain: "s = [] \<or> hd s \<noteq> CHR ''-'' \<Longrightarrow> scan_number s = scan_unsigned s"
  by (auto simp: scan_number_def scan_unsigned_def Let_def split: option.split)

lemma scan_unsigned_parts: "scan_unsigned s = Some (x, r) \<Longrightarrow> s = x @ r \<and> x \<noteq> []"
  by (auto simp: scan_unsigned_def dest!: scan_int_parts scan_frac_parts scan_exp_parts split: option.splits)

lemma scan_number_parts: "scan_number s = Some (x, r) \<Longrightarrow> s = x @ r \<and> x \<noteq> []"
proof (cases "s \<noteq> [] \<and> hd s = CHR ''-''")
  case True
  then obtain t where "s = CHR ''-'' # t"
    by (cases s) auto
  then show "scan_number s = Some (x, r) \<Longrightarrow> s = x @ r \<and> x \<noteq> []"
    by (auto simp: scan_number_minus dest!: scan_unsigned_parts)
next
  case False
  then have "scan_number s = scan_unsigned s"
    by (intro scan_number_plain) auto
  then show "scan_number s = Some (x, r) \<Longrightarrow> s = x @ r \<and> x \<noteq> []"
    using scan_unsigned_parts by simp
qed

text \<open>What may follow a number without becoming part of it.\<close>

definition no_number :: "string \<Rightarrow> bool" where
  "no_number r \<longleftrightarrow>
     (case r of [] \<Rightarrow> True | c # _ \<Rightarrow> \<not> is_digit c \<and> c \<noteq> CHR ''.'' \<and> c \<noteq> CHR ''e'' \<and> c \<noteq> CHR ''E'')"

definition number_text :: "string \<Rightarrow> bool" where
  "number_text x \<longleftrightarrow> scan_number x = Some (x, [])"

lemma digits_append: "no_number r \<Longrightarrow> takeWhile is_digit (s @ r) = takeWhile is_digit s \<and>
    dropWhile is_digit (s @ r) = dropWhile is_digit s @ r"
  by (induction s) (auto simp: no_number_def split: list.splits)

lemma scan_int_append: "scan_int s = Some (i, t) \<Longrightarrow> no_number r \<Longrightarrow> scan_int (s @ r) = Some (i, t @ r)"
  by (cases s) (auto simp: scan_int_def digits_append split: if_splits)

lemma scan_frac_append: "scan_frac s = Some (f, t) \<Longrightarrow> no_number r \<Longrightarrow> scan_frac (s @ r) = Some (f, t @ r)"
proof (cases s)
  case Nil
  then show "scan_frac s = Some (f, t) \<Longrightarrow> no_number r \<Longrightarrow> scan_frac (s @ r) = Some (f, t @ r)"
    by (cases r) (auto simp: scan_frac_def no_number_def)
qed (auto simp: scan_frac_def Let_def digits_append split: if_splits)

lemma scan_exp_append: "scan_exp s = Some (e, t) \<Longrightarrow> no_number r \<Longrightarrow> scan_exp (s @ r) = Some (e, t @ r)"
proof (cases s)
  case Nil
  then show "scan_exp s = Some (e, t) \<Longrightarrow> no_number r \<Longrightarrow> scan_exp (s @ r) = Some (e, t @ r)"
    by (cases r) (auto simp: scan_exp_def no_number_def)
next
  case (Cons c u)
  then show "scan_exp s = Some (e, t) \<Longrightarrow> no_number r \<Longrightarrow> scan_exp (s @ r) = Some (e, t @ r)"
    by (cases u) (auto simp: scan_exp_def Let_def digits_append split: if_splits)
qed

lemma scan_unsigned_append:
  "scan_unsigned s = Some (x, t) \<Longrightarrow> no_number r \<Longrightarrow> scan_unsigned (s @ r) = Some (x, t @ r)"
  by (auto simp: scan_unsigned_def scan_int_append scan_frac_append scan_exp_append split: option.splits)

lemma scan_number_append:
  assumes "number_text x" "no_number r"
  shows "scan_number (x @ r) = Some (x, r)"
proof (cases "hd x = CHR ''-''")
  case True
  then obtain y where x: "x = CHR ''-'' # y"
    using scan_number_parts [OF assms(1) [unfolded number_text_def]] by (cases x) auto
  with assms have "scan_unsigned y = Some (y, [])"
    by (auto simp: number_text_def scan_number_minus)
  from scan_unsigned_append [OF this assms(2)] x show ?thesis
    by (simp add: scan_number_minus)
next
  case False
  then have "scan_unsigned x = Some (x, [])"
    using assms(1) scan_number_plain [of x] by (simp add: number_text_def)
  from scan_unsigned_append [OF this assms(2)] False show ?thesis
    using scan_number_plain [of "x @ r"] scan_number_parts [OF assms(1) [unfolded number_text_def]] by simp
qed

lemma digits_of_hd: "0 < n \<Longrightarrow> hd (digits_of n) \<noteq> CHR ''0''"
proof (induction n rule: less_induct)
  case (less n)
  show ?case
  proof (cases "n < 10")
    case True
    then have "code (digit_char n) \<noteq> 48"
      using less.prems by (simp add: digit_char_code)
    with True show ?thesis
      by (subst digits_in_step) auto
  next
    case False
    then have "hd (digits_of (n div 10)) \<noteq> CHR ''0''"
      by (intro less.IH) auto
    with False show ?thesis
      by (subst digits_in_step) simp
  qed
qed

lemma scan_digits: "scan_int (digits_of n) = Some (digits_of n, [])"
proof (cases "n = 0")
  case True
  have "digit_char 0 = CHR ''0''"
    by code_simp
  with True show ?thesis
    by (subst (1 2) digits_in_step) (simp add: scan_int_def)
next
  case False
  obtain c t where d: "digits_of n = c # t"
    by (cases "digits_of n") auto
  moreover have "c \<noteq> CHR ''0''"
    using digits_of_hd [of n] False d by simp
  moreover have "is_digit c" "list_all is_digit t"
    using digits_of_digits [of n] d by simp_all
  then have "takeWhile is_digit t = t" "dropWhile is_digit t = []"
    by (simp_all add: list_all_iff takeWhile_eq_all_conv)
  ultimately show ?thesis
    using \<open>is_digit c\<close> by (simp add: scan_int_def)
qed

lemma number_show_int: "number_text (show_int i)"
proof -
  have "hd (digits_of n) \<noteq> CHR ''-''" for n
    using digits_of_digits [of n] by (cases "digits_of n") (auto simp: is_digit_def)
  then show ?thesis
    by (simp add: number_text_def scan_number_def show_int_def scan_digits scan_frac_def scan_exp_def)
qed

section \<open>Values\<close>

text \<open>
  A parsed text.  A member of an object is its key, the text of its value, and its value; a number is
  its literal.
\<close>

datatype jtext =
  TNull | TBool bool | TNumber string | TString string | TArray "jtext list" | TObject "(string \<times> string \<times> jtext) list"

definition is_space :: "char \<Rightarrow> bool" where
  "is_space c \<longleftrightarrow> c = CHR '' '' \<or> c = CHR 0x09 \<or> c = CHR 0x0A \<or> c = CHR 0x0D"

definition skip :: "string \<Rightarrow> string" where
  "skip = dropWhile is_space"

definition literal :: "string \<Rightarrow> jtext \<Rightarrow> string \<Rightarrow> (jtext \<times> string) option" where
  "literal w v s = (if HasPrefix s w then Some (v, drop (length w) s) else None)"

text \<open>
  The value at the head of a text, and what follows.  \<open>d\<close> is how many more objects and arrays may be
  opened, \<open>n\<close> the fuel: a nested call takes one, and \<open>fuel_enough\<close> below says how much is enough.
\<close>

fun parse_value :: "nat \<Rightarrow> nat \<Rightarrow> string \<Rightarrow> (jtext \<times> string) option"
  and parse_elements :: "nat \<Rightarrow> nat \<Rightarrow> string \<Rightarrow> (jtext list \<times> string) option"
  and parse_members :: "nat \<Rightarrow> nat \<Rightarrow> string \<Rightarrow> ((string \<times> string \<times> jtext) list \<times> string) option" where
  "parse_value 0 d s = None"
| "parse_value (Suc n) d s =
     (case s of
        [] \<Rightarrow> None
      | c # t \<Rightarrow>
          if c = CHR ''{'' then
            (if d = 0 then None
             else if skip t \<noteq> [] \<and> hd (skip t) = CHR ''}'' then Some (TObject [], tl (skip t))
             else map_option (\<lambda>(ms, r). (TObject ms, r)) (parse_members n (d - 1) (skip t)))
          else if c = CHR ''['' then
            (if d = 0 then None
             else if skip t \<noteq> [] \<and> hd (skip t) = CHR '']'' then Some (TArray [], tl (skip t))
             else map_option (\<lambda>(vs, r). (TArray vs, r)) (parse_elements n (d - 1) (skip t)))
          else if c = dquote then map_option (\<lambda>(b, r). (TString (unquote b), r)) (scan_string t)
          else if c = CHR ''n'' then literal ''null'' TNull s
          else if c = CHR ''t'' then literal ''true'' (TBool True) s
          else if c = CHR ''f'' then literal ''false'' (TBool False) s
          else map_option (\<lambda>(x, r). (TNumber x, r)) (scan_number s))"
| "parse_elements 0 d s = None"
| "parse_elements (Suc n) d s =
     (case parse_value n d s of
        None \<Rightarrow> None
      | Some (v, r) \<Rightarrow>
          (case skip r of
             [] \<Rightarrow> None
           | c # t \<Rightarrow>
               if c = CHR '','' then map_option (\<lambda>(vs, r). (v # vs, r)) (parse_elements n d (skip t))
               else if c = CHR '']'' then Some ([v], t)
               else None))"
| "parse_members 0 d s = None"
| "parse_members (Suc n) d s =
     (if s = [] \<or> hd s \<noteq> dquote then None
      else case scan_string (tl s) of
          None \<Rightarrow> None
        | Some (k, r) \<Rightarrow>
            if skip r = [] \<or> hd (skip r) \<noteq> CHR '':'' then None
            else
              let u = skip (tl (skip r)) in
              (case parse_value n d u of
                 None \<Rightarrow> None
               | Some (v, q) \<Rightarrow>
                   let m = (unquote k, take (length u - length q) u, v) in
                   (case skip q of
                      [] \<Rightarrow> None
                    | c # t \<Rightarrow>
                        if c = CHR '','' then map_option (\<lambda>(ms, r). (m # ms, r)) (parse_members n d (skip t))
                        else if c = CHR ''}'' then Some ([m], t)
                        else None)))"

definition maxNestingDepth :: nat where
  "maxNestingDepth = 10000"

text \<open>A whole text: one value with white space around it.\<close>

definition parse_json :: "string \<Rightarrow> jtext option" where
  "parse_json s =
     (case parse_value (2 * length s + 1) maxNestingDepth (skip s) of
        None \<Rightarrow> None
      | Some (v, r) \<Rightarrow> if skip r = [] then Some v else None)"

section \<open>The fuel is enough\<close>

lemma skip_length: "length (skip s) \<le> length s"
  by (simp add: skip_def length_dropWhile_le)

lemma skip_Cons_length: "skip s = c # t \<Longrightarrow> length t < length s"
  using skip_length [of s] by simp

lemma skip_tl_length: "skip s \<noteq> [] \<Longrightarrow> length (tl (skip s)) < length s"
  using skip_length [of s] by (cases "skip s") auto

lemma scan_string_length: "scan_string s = Some (b, r) \<Longrightarrow> length r < length s"
proof (induction s arbitrary: b r rule: scan_string.induct)
  case (1 s)
  obtain c t where s: "s = c # t"
    using "1.prems" by (cases s) (simp_all add: scan_string.simps)
  note eq = "1.prems" [unfolded s, unfolded scan_string.simps [of "c # t"], simplified]
  consider "c = dquote" | e u where "c = esc_char" "t = e # u" "e = CHR ''u''" | e u where "c = esc_char" "t = e # u" "e \<noteq> CHR ''u''"
    | "c \<noteq> dquote" "c \<noteq> esc_char"
    using eq by (cases "c = dquote"; cases "c = esc_char"; cases t) auto
  then show ?case
  proof cases
    case 1
    with eq s show ?thesis
      by simp
  next
    case (2 e u)
    with eq obtain b' where b: "scan_string (drop 4 u) = Some (b', r)"
      by (auto split: if_splits)
    have "length r < length (drop 4 u)"
      using "1.IH"(1) [OF s _ 2(1,2,3) _ b] eq 2 by (auto split: if_splits)
    with s 2 show ?thesis
      by simp
  next
    case (3 e u)
    with eq obtain b' where b: "scan_string u = Some (b', r)"
      by (auto split: if_splits)
    have "length r < length u"
      using "1.IH"(2) [OF s _ 3(1,2,3) _ b] eq 3 by (auto split: if_splits)
    with s 3 show ?thesis
      by simp
  next
    case 4
    with eq obtain b' where b: "scan_string t = Some (b', r)"
      by (auto split: if_splits)
    have "length r < length t"
      using "1.IH"(3) [OF s 4 _ b] eq 4 by (auto split: if_splits)
    with s show ?thesis
      by simp
  qed
qed

lemma literal_length: "literal w v s = Some (x, r) \<Longrightarrow> w \<noteq> [] \<Longrightarrow> s \<noteq> [] \<Longrightarrow> length r < length s"
  by (auto simp: literal_def split: if_splits)

lemma scan_number_length: "scan_number s = Some (x, r) \<Longrightarrow> length r < length s"
  using scan_number_parts [of s x r] by (cases x) auto

lemma value_cases:
  "parse_value (Suc n) d s = Some (v, r) \<Longrightarrow>
    (\<exists>t ms. s = CHR ''{'' # t \<and> d \<noteq> 0 \<and> v = TObject ms \<and>
      (skip t = CHR ''}'' # r \<and> ms = [] \<or> parse_members n (d - 1) (skip t) = Some (ms, r))) \<or>
    (\<exists>t vs. s = CHR ''['' # t \<and> d \<noteq> 0 \<and> v = TArray vs \<and>
      (skip t = CHR '']'' # r \<and> vs = [] \<or> parse_elements n (d - 1) (skip t) = Some (vs, r))) \<or>
    (\<exists>t b. s = dquote # t \<and> v = TString (unquote b) \<and> scan_string t = Some (b, r)) \<or>
    (\<exists>w. w \<noteq> [] \<and> literal w v s = Some (v, r)) \<or> (\<exists>x. v = TNumber x \<and> scan_number s = Some (x, r))"
proof (cases s)
  case (Cons c t)
  have e: "skip t \<noteq> [] \<and> hd (skip t) = a \<longleftrightarrow> skip t = a # tl (skip t)" for a
    by (cases "skip t") auto
  show "parse_value (Suc n) d s = Some (v, r) \<Longrightarrow> ?thesis"
    unfolding Cons parse_value.simps list.case e
    by (auto simp: literal_def split: if_splits intro: exI [of _ "''null''"] exI [of _ "''true''"] exI [of _ "''false''"])
qed simp

lemma elements_cases:
  "parse_elements (Suc n) d s = Some (vs, r) \<Longrightarrow>
    \<exists>v q c t. parse_value n d s = Some (v, q) \<and> skip q = c # t \<and>
      (c = CHR '','' \<and> (\<exists>us. vs = v # us \<and> parse_elements n d (skip t) = Some (us, r)) \<or> c = CHR '']'' \<and> vs = [v] \<and> r = t)"
  by (auto split: option.splits list.splits if_splits)

lemma members_cases:
  "parse_members (Suc n) d s = Some (ms, r) \<Longrightarrow>
    \<exists>s' k q0 u q c t v. s = dquote # s' \<and> scan_string s' = Some (k, q0) \<and> skip q0 = CHR '':'' # u \<and>
      parse_value n d (skip u) = Some (v, q) \<and> skip q = c # t \<and>
      (let m = (unquote k, take (length (skip u) - length q) (skip u), v) in
       c = CHR '','' \<and> (\<exists>us. ms = m # us \<and> parse_members n d (skip t) = Some (us, r)) \<or> c = CHR ''}'' \<and> ms = [m] \<and> r = t)"
proof -
  assume p: "parse_members (Suc n) d s = Some (ms, r)"
  then obtain s' where s: "s = dquote # s'"
    by (cases s) (auto split: if_splits)
  from p s obtain k q0 where k: "scan_string s' = Some (k, q0)"
    by (auto split: option.splits)
  with p s obtain u where u: "skip q0 = CHR '':'' # u"
    by (cases "skip q0") (auto split: if_splits)
  from p s k u obtain v q where v: "parse_value n d (skip u) = Some (v, q)"
    by (auto simp: Let_def split: option.splits)
  from p s k u v obtain c t where "skip q = c # t"
    by (cases "skip q") (auto simp: Let_def)
  with p s k u v show ?thesis
    by (auto simp: Let_def split: if_splits)
qed

lemma parse_consumes:
  "(\<forall>d s v r. parse_value n d s = Some (v, r) \<longrightarrow> length r < length s) \<and>
   (\<forall>d s vs r. parse_elements n d s = Some (vs, r) \<longrightarrow> length r < length s) \<and>
   (\<forall>d s ms r. parse_members n d s = Some (ms, r) \<longrightarrow> length r < length s)"
proof (induction n)
  case (Suc n)
  have "length r < length s" if "parse_value (Suc n) d s = Some (v, r)" for d s v r
    using value_cases [OF that]
  proof (elim disjE exE conjE)
    fix t ms assume "s = CHR ''{'' # t" "parse_members n (d - 1) (skip t) = Some (ms, r)"
    with Suc skip_length [of t] show ?thesis
      by fastforce
  next
    fix t vs assume "s = CHR ''['' # t" "parse_elements n (d - 1) (skip t) = Some (vs, r)"
    with Suc skip_length [of t] show ?thesis
      by fastforce
  next
    fix w assume "literal w v s = Some (v, r)" "w \<noteq> []"
    with that show ?thesis
      by (cases "s = []") (auto intro: literal_length)
  qed (auto dest: skip_Cons_length scan_string_length scan_number_length)
  moreover have "length r < length s" if "parse_elements (Suc n) d s = Some (vs, r)" for d s vs r
  proof -
    from elements_cases [OF that] obtain v q c t where v: "parse_value n d s = Some (v, q)" "skip q = c # t"
      "(\<exists>us. parse_elements n d (skip t) = Some (us, r)) \<or> r = t"
      by blast
    have "length r \<le> length t"
      using v(3) Suc skip_length [of t] by fastforce
    moreover have "length t < length q" "length q < length s"
      using skip_Cons_length [OF v(2)] Suc v(1) by auto
    ultimately show ?thesis by linarith
  qed
  moreover have "length r < length s" if "parse_members (Suc n) d s = Some (ms, r)" for d s ms r
  proof -
    from members_cases [OF that] obtain s' k q0 u q c t v where v: "s = dquote # s'" "scan_string s' = Some (k, q0)"
      "skip q0 = CHR '':'' # u" "parse_value n d (skip u) = Some (v, q)" "skip q = c # t"
      "(\<exists>us. parse_members n d (skip t) = Some (us, r)) \<or> r = t"
      unfolding Let_def by blast
    have "length r \<le> length t"
      using v(6) Suc skip_length [of t] by fastforce
    moreover have "length t < length q" "length q < length (skip u)"
      using skip_Cons_length [OF v(5)] Suc v(4) by auto
    moreover have "length u < length q0" "length q0 < length s'"
      using skip_Cons_length [OF v(3)] scan_string_length [OF v(2)] .
    ultimately show ?thesis
      using skip_length [of u] v(1) by simp
  qed
  ultimately show ?case
    by blast
qed simp

lemmas consumes = parse_consumes [THEN conjunct1, rule_format] parse_consumes [THEN conjunct2, THEN conjunct1, rule_format]
  parse_consumes [THEN conjunct2, THEN conjunct2, rule_format]

lemma value_fuel:
  assumes "\<And>d t. length t < length s \<Longrightarrow> parse_members n d t = parse_members m d t"
    and "\<And>d t. length t < length s \<Longrightarrow> parse_elements n d t = parse_elements m d t"
  shows "parse_value (Suc n) d s = parse_value (Suc m) d s"
proof (cases s)
  case (Cons c t)
  then have "length (skip t) < length s"
    using skip_length [of t] by simp
  with Cons show ?thesis
    by (simp add: assms)
qed simp

lemma elements_fuel:
  assumes "parse_value n d s = parse_value m d s"
    and "\<And>t. length t < length s \<Longrightarrow> parse_elements n d t = parse_elements m d t"
  shows "parse_elements (Suc n) d s = parse_elements (Suc m) d s"
proof -
  have "parse_elements n d (skip t) = parse_elements m d (skip t)"
    if "parse_value m d s = Some (v, r)" "skip r = c # t" for v r c t
    using consumes(1) [OF that(1)] skip_Cons_length [OF that(2)] skip_length [of t] by (intro assms(2)) linarith
  then show ?thesis
    using assms(1) by (auto split: option.split list.split)
qed

lemma members_fuel:
  assumes "\<And>t. length t < length s \<Longrightarrow> parse_value n d t = parse_value m d t"
    and "\<And>t. length t < length s \<Longrightarrow> parse_members n d t = parse_members m d t"
  shows "parse_members (Suc n) d s = parse_members (Suc m) d s"
proof (cases "s \<noteq> [] \<and> hd s = dquote")
  case True
  then obtain s' where s: "s = dquote # s'"
    by (cases s) auto
  show ?thesis
  proof (cases "scan_string s'")
    case (Some kr)
    obtain k r where kr: "kr = (k, r)"
      by fastforce
    show ?thesis
    proof (cases "skip r \<noteq> [] \<and> hd (skip r) = CHR '':''")
      case colon: True
      let ?u = "skip (tl (skip r))"
      have "length ?u < length r"
        using skip_length [of "tl (skip r)"] skip_tl_length [of r] colon by linarith
      then have u: "length ?u < length s"
        using scan_string_length [of s' k r] Some kr s by simp
      have "parse_members n d (skip t) = parse_members m d (skip t)"
        if "parse_value m d ?u = Some (v, q)" "skip q = c # t" for v q c t
        using consumes(1) [OF that(1)] skip_Cons_length [OF that(2)] skip_length [of t] u by (intro assms(2)) linarith
      with colon s Some kr assms(1) [OF u] show ?thesis
        by (auto simp: Let_def split: option.split list.split)
    qed (use s Some kr in auto)
  qed (simp add: s)
qed auto

lemma fuel_step:
  "(\<forall>d s. 2 * length s < n \<longrightarrow> parse_value (Suc n) d s = parse_value n d s) \<and>
   (\<forall>d s. 2 * length s + 1 < n \<longrightarrow> parse_elements (Suc n) d s = parse_elements n d s \<and>
      parse_members (Suc n) d s = parse_members n d s)"
proof (induction n)
  case (Suc n)
  have v: "parse_value (Suc n) d t = parse_value n d t" if "2 * length t < n" for d t
    using Suc that by blast
  have em: "parse_elements (Suc n) d t = parse_elements n d t" "parse_members (Suc n) d t = parse_members n d t"
    if "2 * length t + 1 < n" for d t
    using Suc that by blast+
  have "parse_value (Suc (Suc n)) d s = parse_value (Suc n) d s" if "2 * length s < Suc n" for d s
    by (rule value_fuel) (use that in \<open>intro em; simp\<close>)+
  moreover have "parse_elements (Suc (Suc n)) d s = parse_elements (Suc n) d s" if "2 * length s + 1 < Suc n" for d s
  proof (rule elements_fuel)
    show "parse_value (Suc n) d s = parse_value n d s"
      using that by (intro v) simp
  qed (use that in \<open>intro em; simp\<close>)
  moreover have "parse_members (Suc (Suc n)) d s = parse_members (Suc n) d s" if "2 * length s + 1 < Suc n" for d s
    by (rule members_fuel) (use that in \<open>intro em v; simp\<close>)+
  ultimately show ?case
    by blast
qed simp

text \<open>More fuel than \<open>parse_json\<close> gives changes nothing, so a text it refuses is not JSON.\<close>

lemma fuel_enough: "2 * length s < n \<Longrightarrow> parse_value n d s = parse_value (2 * length s + 1) d s"
proof (induction n)
  case (Suc n)
  show ?case
  proof (cases "2 * length s < n")
    case True
    with Suc fuel_step [of n] show ?thesis
      by auto
  next
    case False
    with Suc.prems have "Suc n = 2 * length s + 1"
      by simp
    then show ?thesis
      by simp
  qed
qed simp

section \<open>Printing\<close>

text \<open>The compact form \<open>json.Marshal\<close> writes.\<close>

primrec print_json :: "jtext \<Rightarrow> string" where
  "print_json TNull = ''null''"
| "print_json (TBool b) = (if b then ''true'' else ''false'')"
| "print_json (TNumber x) = x"
| "print_json (TString s) = quote_text s"
| "print_json (TArray vs) = CHR ''['' # Join (map print_json vs) '','' @ '']''"
| "print_json (TObject ms) =
     CHR ''{'' # Join (map (\<lambda>(k, _, t). quote_text k @ CHR '':'' # t) (map (map_prod id (map_prod id print_json)) ms)) '','' @ ''}''"

text \<open>What is read back: the same value, with the texts that were printed.\<close>

primrec norm_json :: "jtext \<Rightarrow> jtext" where
  "norm_json TNull = TNull"
| "norm_json (TBool b) = TBool b"
| "norm_json (TNumber x) = TNumber x"
| "norm_json (TString s) = TString (clean s)"
| "norm_json (TArray vs) = TArray (map norm_json vs)"
| "norm_json (TObject ms) =
     TObject (map (\<lambda>(k, _, (t, v)). (clean k, t, v)) (map (map_prod id (map_prod id (\<lambda>v. (print_json v, norm_json v)))) ms))"

primrec numbers_ok :: "jtext \<Rightarrow> bool" where
  "numbers_ok TNull = True"
| "numbers_ok (TBool b) = True"
| "numbers_ok (TNumber x) = number_text x"
| "numbers_ok (TString s) = True"
| "numbers_ok (TArray vs) = list_all id (map numbers_ok vs)"
| "numbers_ok (TObject ms) = list_all (\<lambda>(_, _, b). b) (map (map_prod id (map_prod id numbers_ok)) ms)"

primrec depth :: "jtext \<Rightarrow> nat" where
  "depth TNull = 0"
| "depth (TBool b) = 0"
| "depth (TNumber x) = 0"
| "depth (TString s) = 0"
| "depth (TArray vs) = Suc (foldr max (map depth vs) 0)"
| "depth (TObject ms) = Suc (foldr (\<lambda>(_, _, n). max n) (map (map_prod id (map_prod id depth)) ms) 0)"

section \<open>What is printed is read back\<close>

definition member_text :: "string \<times> string \<times> jtext \<Rightarrow> string" where
  "member_text m = quote_text (fst m) @ CHR '':'' # print_json (snd (snd m))"

definition norm_member :: "string \<times> string \<times> jtext \<Rightarrow> string \<times> string \<times> jtext" where
  "norm_member m = (clean (fst m), print_json (snd (snd m)), norm_json (snd (snd m)))"

lemma object_simps:
  "print_json (TObject ms) = CHR ''{'' # Join (map member_text ms) '','' @ ''}''"
  "norm_json (TObject ms) = TObject (map norm_member ms)"
  by (simp_all add: member_text_def [abs_def] norm_member_def [abs_def] case_prod_unfold comp_def)

lemma numbers_ok_in: "numbers_ok (TArray vs) \<Longrightarrow> v \<in> set vs \<Longrightarrow> numbers_ok v"
  "numbers_ok (TObject ms) \<Longrightarrow> m \<in> set ms \<Longrightarrow> numbers_ok (snd (snd m))"
  by (auto simp: list_all_iff case_prod_unfold)

lemma depth_in: "v \<in> set vs \<Longrightarrow> depth v < depth (TArray vs)"
  "m \<in> set ms \<Longrightarrow> depth (snd (snd m)) < depth (TObject ms)"
proof -
  show "v \<in> set vs \<Longrightarrow> depth v < depth (TArray vs)"
    by (induction vs) (auto simp: less_Suc_eq_le le_max_iff_disj)
  show "m \<in> set ms \<Longrightarrow> depth (snd (snd m)) < depth (TObject ms)"
    by (induction ms) (auto simp: less_Suc_eq_le le_max_iff_disj case_prod_unfold)
qed

lemma number_hd: "number_text x \<Longrightarrow> x \<noteq> [] \<and> (hd x = CHR ''-'' \<or> is_digit (hd x))"
proof -
  assume n: "number_text x"
  then have x: "x \<noteq> []"
    using scan_number_parts [of x x "[]"] by (simp add: number_text_def)
  have "is_digit (hd x)" if "hd x \<noteq> CHR ''-''"
  proof -
    from n that have "scan_unsigned x \<noteq> None"
      using scan_number_plain [of x] by (simp add: number_text_def)
    then have "scan_int x \<noteq> None"
      by (auto simp: scan_unsigned_def split: option.splits)
    then show ?thesis
      by (cases x) (auto simp: scan_int_def is_digit_def split: if_splits)
  qed
  with x show ?thesis by blast
qed

lemma skip_start: "s \<noteq> [] \<Longrightarrow> \<not> is_space (hd s) \<Longrightarrow> skip (s @ r) = s @ r"
  by (cases s) (simp_all add: skip_def)

lemma print_start: "numbers_ok v \<Longrightarrow> print_json v \<noteq> [] \<and> \<not> is_space (hd (print_json v)) \<and>
    hd (print_json v) \<noteq> CHR ''}'' \<and> hd (print_json v) \<noteq> CHR '']''"
proof (cases v)
  case (TNumber x)
  then show "numbers_ok v \<Longrightarrow> ?thesis"
    using number_hd [of x] by (auto simp: is_space_def is_digit_def)
qed (simp_all add: is_space_def quote_text_def)

definition reads_back :: "jtext \<Rightarrow> bool" where
  "reads_back v \<longleftrightarrow> (\<forall>n d r. depth v \<le> d \<longrightarrow> no_number r \<longrightarrow> 2 * length (print_json v @ r) < n \<longrightarrow>
     parse_value n d (print_json v @ r) = Some (norm_json v, r))"

lemma reads_backD: "reads_back v \<Longrightarrow> depth v \<le> d \<Longrightarrow> no_number r \<Longrightarrow> 2 * length (print_json v @ r) < n \<Longrightarrow>
    parse_value n d (print_json v @ r) = Some (norm_json v, r)"
  by (simp add: reads_back_def)

lemma no_number_end [simp]: "no_number (CHR '','' # r)" "no_number (CHR '']'' # r)" "no_number (CHR ''}'' # r)" "no_number []"
  by (simp_all add: no_number_def is_digit_def)

lemma skip_sep [simp]: "skip (CHR '','' # r) = CHR '','' # r" "skip (CHR '']'' # r) = CHR '']'' # r"
  "skip (CHR ''}'' # r) = CHR ''}'' # r" "skip (CHR '':'' # r) = CHR '':'' # r" "skip (dquote # r) = dquote # r"
  by (simp_all add: skip_def is_space_def)

lemma elements_back:
  assumes "vs \<noteq> []" "\<And>v. v \<in> set vs \<Longrightarrow> reads_back v \<and> numbers_ok v \<and> depth v \<le> d"
    and "2 * length (Join (map print_json vs) '','' @ CHR '']'' # r) + 1 < n"
  shows "parse_elements n d (Join (map print_json vs) '','' @ CHR '']'' # r) = Some (map norm_json vs, r)"
  using assms
proof (induction vs arbitrary: n)
  case (Cons v vs)
  obtain m where n: "n = Suc m"
    using Cons.prems(3) by (cases n) auto
  have v: "reads_back v" "depth v \<le> d"
    using Cons.prems(2) [of v] by simp_all
  show ?case
  proof (cases "vs = []")
    case True
    with v Cons.prems(3) n have "parse_value m d (print_json v @ CHR '']'' # r) = Some (norm_json v, CHR '']'' # r)"
      by (intro reads_backD) auto
    with True n show ?thesis
      by simp
  next
    case False
    let ?t = "Join (map print_json vs) '','' @ CHR '']'' # r"
    have j: "Join (map print_json (v # vs)) '','' @ CHR '']'' # r = print_json v @ CHR '','' # ?t"
      using False by (simp add: Join_Cons)
    have p: "parse_value m d (print_json v @ CHR '','' # ?t) = Some (norm_json v, CHR '','' # ?t)"
      using v Cons.prems(3) unfolding j n by (intro reads_backD) auto
    obtain u us where u: "vs = u # us"
      using False by (cases vs) auto
    have "print_json u \<noteq> []" "\<not> is_space (hd (print_json u))"
      using Cons.prems(2) [of u] print_start [of u] u by simp_all
    then have s: "skip ?t = ?t"
      using skip_start [of "Join (map print_json vs) '',''" "CHR '']'' # r"] by (cases us) (auto simp: u)
    have "parse_elements m d ?t = Some (map norm_json vs, r)"
      using Cons.prems False unfolding j n by (intro Cons.IH) auto
    with p s show ?thesis
      unfolding j n by simp
  qed
qed simp

lemma members_back:
  assumes "ms \<noteq> []" "\<And>m. m \<in> set ms \<Longrightarrow> reads_back (snd (snd m)) \<and> numbers_ok (snd (snd m)) \<and> depth (snd (snd m)) \<le> d"
    and "2 * length (Join (map member_text ms) '','' @ CHR ''}'' # r) + 1 < n"
  shows "parse_members n d (Join (map member_text ms) '','' @ CHR ''}'' # r) = Some (map norm_member ms, r)"
  using assms
proof (induction ms arbitrary: n)
  case (Cons m ms)
  let ?k = "fst m" and ?v = "snd (snd m)"
  obtain i where n: "n = Suc i"
    using Cons.prems(3) by (cases n) auto
  have v: "reads_back ?v" "depth ?v \<le> d" "numbers_ok ?v"
    using Cons.prems(2) [of m] by simp_all
  have one: "parse_members n d (member_text m @ q) =
      (case skip q of [] \<Rightarrow> None
       | c # t \<Rightarrow> if c = CHR '','' then map_option (\<lambda>(us, r). (norm_member m # us, r)) (parse_members i d (skip t))
                  else if c = CHR ''}'' then Some ([norm_member m], t) else None)"
    if "no_number q" "2 * length (member_text m @ q) < n" for q
  proof -
    have p: "parse_value i d (print_json ?v @ q) = Some (norm_json ?v, q)"
      using v(1,2) that n by (intro reads_backD) (auto simp: member_text_def quote_text_def)
    have s: "skip (print_json ?v @ q) = print_json ?v @ q"
      using print_start [OF v(3)] by (intro skip_start) simp_all
    have t: "member_text m @ q = dquote # quote_body ?k @ dquote # CHR '':'' # print_json ?v @ q"
      by (simp add: member_text_def quote_text_def)
    have raw: "take (length (print_json ?v @ q) - length q) (print_json ?v @ q) = print_json ?v"
      by simp
    show ?thesis
      unfolding t n parse_members.simps norm_member_def Let_def
      by (simp only: list.sel list.distinct scan_quoted option.case prod.case skip_sep s p raw unquote_quoted
          if_False if_True simp_thms)
  qed
  show ?case
  proof (cases "ms = []")
    case True
    with one [of "CHR ''}'' # r"] Cons.prems(3) show ?thesis
      by simp
  next
    case False
    let ?t = "Join (map member_text ms) '','' @ CHR ''}'' # r"
    have j: "Join (map member_text (m # ms)) '','' @ CHR ''}'' # r = member_text m @ CHR '','' # ?t"
      using False by (simp add: Join_Cons)
    have "hd ?t = dquote" "?t \<noteq> []"
      using False by (cases ms; cases "tl ms"; simp add: member_text_def quote_text_def)+
    then have s: "skip ?t = ?t"
      by (cases ?t) simp_all
    have "parse_members i d ?t = Some (map norm_member ms, r)"
      using Cons.prems False unfolding j n by (intro Cons.IH) auto
    with one [of "CHR '','' # ?t"] Cons.prems(3) s show ?thesis
      unfolding j by simp
  qed
qed simp

lemma reads_all: "numbers_ok v \<Longrightarrow> reads_back v"
proof (induction v)
  case (TNumber x)
  have "parse_value n d (x @ r) = Some (TNumber x, r)" if r: "no_number r" and n: "0 < n" for n d r
  proof -
    obtain c t where x: "x = c # t" "c = CHR ''-'' \<or> is_digit c"
      using number_hd [of x] TNumber by (cases x) auto
    obtain m where "n = Suc m"
      using n by (cases n) auto
    moreover have "c \<notin> set ''{[ntf'' \<and> c \<noteq> dquote"
      using x(2) by (auto simp: is_digit_def)
    ultimately show ?thesis
      using scan_number_append [of x r] TNumber r by (simp add: x(1))
  qed
  then show ?case
    by (auto simp: reads_back_def)
next
  case (TString s)
  have "parse_value n d (quote_text s @ r) = Some (TString (clean s), r)" if "0 < n" for n d r
    using that by (cases n) (simp_all add: quote_text_def scan_quoted unquote_quoted)
  then show ?case
    by (auto simp: reads_back_def)
next
  case (TArray vs)
  have e: "reads_back v \<and> numbers_ok v \<and> depth v \<le> d - 1" if "v \<in> set vs" "depth (TArray vs) \<le> d" for v d
    using TArray.IH [OF that(1)] numbers_ok_in(1) [OF TArray.prems that(1)] depth_in(1) [OF that(1)] that(2) by simp
  have "parse_value n d (print_json (TArray vs) @ r) = Some (norm_json (TArray vs), r)"
    if d: "depth (TArray vs) \<le> d" and n: "2 * length (print_json (TArray vs) @ r) < n" for n d r
  proof -
    obtain i where i: "n = Suc i"
      using n by (cases n) auto
    have d0: "d \<noteq> 0"
      using d by auto
    show ?thesis
    proof (cases "vs = []")
      case True
      with i d0 show ?thesis by simp
    next
      case False
      let ?t = "Join (map print_json vs) '','' @ CHR '']'' # r"
      obtain u us where u: "vs = u # us"
        using False by (cases vs) auto
      have h: "print_json u \<noteq> []" "\<not> is_space (hd (print_json u))" "hd (print_json u) \<noteq> CHR '']''"
        using print_start [OF numbers_ok_in(1) [OF TArray.prems, of u]] u by simp_all
      then have s: "skip ?t = ?t" "hd ?t \<noteq> CHR '']''"
        using skip_start [of "Join (map print_json vs) '',''" "CHR '']'' # r"] by (cases us; simp add: u)+
      have "parse_elements i (d - 1) ?t = Some (map norm_json vs, r)"
        using e [OF _ d] False n unfolding i by (intro elements_back) auto
      with s d0 i show ?thesis by simp
    qed
  qed
  then show ?case
    by (simp add: reads_back_def)
next
  case (TObject ms)
  have e: "reads_back (snd (snd m)) \<and> numbers_ok (snd (snd m)) \<and> depth (snd (snd m)) \<le> d - 1"
    if "m \<in> set ms" "depth (TObject ms) \<le> d" for m d
    using TObject.IH [of m "snd m" "snd (snd m)"] numbers_ok_in(2) [OF TObject.prems that(1)] depth_in(2) [OF that(1)] that
    by (cases m) simp
  have "parse_value n d (print_json (TObject ms) @ r) = Some (norm_json (TObject ms), r)"
    if d: "depth (TObject ms) \<le> d" and n: "2 * length (print_json (TObject ms) @ r) < n" for n d r
  proof -
    obtain i where i: "n = Suc i"
      using n by (cases n) auto
    have d0: "d \<noteq> 0"
      using d by auto
    show ?thesis
    proof (cases "ms = []")
      case True
      with i d0 show ?thesis by simp
    next
      case False
      let ?t = "Join (map member_text ms) '','' @ CHR ''}'' # r"
      have "hd ?t = dquote" "?t \<noteq> []"
        using False by (cases ms; cases "tl ms"; simp add: member_text_def quote_text_def)+
      then have s: "skip ?t = ?t" "hd ?t \<noteq> CHR ''}''"
        by (cases ?t; simp)+
      have "parse_members i (d - 1) ?t = Some (map norm_member ms, r)"
        using e [OF _ d] False n unfolding i object_simps by (intro members_back) auto
      with s d0 i show ?thesis
        unfolding object_simps by simp
    qed
  qed
  then show ?case
    by (simp add: reads_back_def)
next
  case TNull
  have "parse_value n d (''null'' @ r) = Some (TNull, r)" if "0 < n" for n d r
    using that by (cases n) (simp_all add: literal_def HasPrefix_def)
  then show ?case
    by (auto simp: reads_back_def)
next
  case (TBool b)
  have "parse_value n d ((if b then ''true'' else ''false'') @ r) = Some (TBool b, r)" if "0 < n" for n d r
    using that by (cases n; cases b) (simp_all add: literal_def HasPrefix_def)
  then show ?case
    by (auto simp: reads_back_def)
qed

text \<open>
  Round trip of JSON texts: what is printed parses to the value, with clean strings and with the
  printed texts of its members, if it is not nested too deep.
\<close>

lemma parse_print:
  assumes "numbers_ok v" "depth v \<le> maxNestingDepth"
  shows "parse_json (print_json v) = Some (norm_json v)"
proof -
  have "parse_value (2 * length (print_json v) + 1) maxNestingDepth (print_json v @ []) = Some (norm_json v, [])"
    by (intro reads_backD reads_all assms) simp_all
  moreover have "skip (print_json v) = print_json v"
    using skip_start [of "print_json v" "[]"] print_start [OF assms(1)] by simp
  ultimately show ?thesis
    by (simp add: parse_json_def skip_def)
qed

end
