(* ===== verification/Compact.thy ===== *)
theory Compact
  imports Json
begin

text \<open>
  How \<open>json.Marshal\<close> writes a \<open>RawMessage\<close>: the text that is there, without white space and with
  HTML characters escaped.  A text that \<open>json.Marshal\<close> wrote itself stays as it is.
\<close>

section \<open>Compacting\<close>

text \<open>The flag is whether the position is inside a string.\<close>

function compact :: "bool \<Rightarrow> string \<Rightarrow> string" where
  "compact q s =
     (case s of
        [] \<Rightarrow> []
      | c # t \<Rightarrow>
          if q \<and> c = esc_char then (case t of [] \<Rightarrow> [c] | e # u \<Rightarrow> c # e # compact q u)
          else if c = dquote then c # compact (\<not> q) t
          else if c = CHR ''<'' \<or> c = CHR ''>'' \<or> c = CHR ''&'' then quote_byte c @ compact q t
          else if HasPrefix s line_sep then esc_char # ''u2028'' @ compact q (drop 3 s)
          else if HasPrefix s para_sep then esc_char # ''u2029'' @ compact q (drop 3 s)
          else if \<not> q \<and> is_space c then compact q t
          else c # compact q t)"
  by pat_completeness auto
termination
  by (relation "measure (length \<circ> snd)") auto

declare compact.simps [simp del]


lemma compact_Nil [simp]: "compact q [] = []"
  by (simp add: compact.simps)

section \<open>Texts that stay as they are\<close>

text \<open>A text that is copied when the scan enters it in state \<open>q\<close>, and after which the state is \<open>q'\<close>.\<close>

definition kept :: "bool \<Rightarrow> string \<Rightarrow> bool \<Rightarrow> bool" where
  "kept q x q' \<longleftrightarrow> (\<forall>r. compact q (x @ r) = x @ compact q' r)"

lemma kept_Nil [intro]: "kept q [] q"
  by (simp add: kept_def)

lemma kept_append: "kept q x q' \<Longrightarrow> kept q' y q'' \<Longrightarrow> kept q (x @ y) q''"
  by (simp add: kept_def)

lemma kept_Cons: "kept q [c] q' \<Longrightarrow> kept q' y q'' \<Longrightarrow> kept q (c # y) q''"
  using kept_append [of q "[c]"] by simp

lemma keptD: "kept q x q' \<Longrightarrow> compact q x = x"
  unfolding kept_def by (metis append_Nil2 compact_Nil)

definition html :: "char \<Rightarrow> bool" where
  "html c \<longleftrightarrow> c = CHR ''<'' \<or> c = CHR ''>'' \<or> c = CHR ''&''"

lemma no_sep: "code c \<noteq> 0xE2 \<Longrightarrow> \<not> HasPrefix (c # r) line_sep \<and> \<not> HasPrefix (c # r) para_sep"
  by (auto simp: HasPrefix_def line_sep_def para_sep_def)

lemma kept_quote: "kept q [dquote] (\<not> q)"
  by (simp add: kept_def compact.simps [of _ "dquote # _"])

lemma kept_one:
  assumes "\<not> html c" "c \<noteq> dquote" "code c \<noteq> 0xE2" "q \<Longrightarrow> c \<noteq> esc_char" "\<not> q \<Longrightarrow> \<not> is_space c"
  shows "kept q [c] q"
  using assms no_sep [OF assms(3)] by (auto simp: kept_def html_def compact.simps [of _ "c # _"])

lemma kept_esc: "kept True [esc_char, e] True"
  by (simp add: kept_def compact.simps [of _ "esc_char # _"])

lemma kept_all:
  "(\<And>c. c \<in> set x \<Longrightarrow> kept q [c] q) \<Longrightarrow> kept q x q"
  by (induction x) (auto intro: kept_Cons)


lemma kept_digit: "d < 16 \<Longrightarrow> kept True [digit_char d] True"
proof -
  assume d: "d < 16"
  then have "code (digit_char d) \<notin> code ` {CHR ''<'', CHR ''>'', CHR ''&'', dquote, esc_char} \<and> code (digit_char d) < 0x80"
    by (auto simp: digit_char_code)
  then show "kept True [digit_char d] True"
    by (intro kept_one) (auto simp: html_def simp del: of_char_eq_iff)
qed

lemma kept_letter: "c \<in> set ''ufd0289'' \<Longrightarrow> kept True [c] True"
  by (rule kept_one) (auto simp: html_def)

lemma kept_escapes: "kept True (esc_char # ''ufffd'') True" "kept True (esc_char # ''u2028'') True"
  "kept True (esc_char # ''u2029'') True"
proof -
  have "kept True (esc_char # CHR ''u'' # x) True" if "set x \<subseteq> set ''ufd0289''" for x
    using kept_append [OF kept_esc [of "CHR ''u''"], of x True] kept_all [of x True] kept_letter that by auto
  from this [of "''fffd''"] this [of "''2028''"] this [of "''2029''"]
  show "kept True (esc_char # ''ufffd'') True" "kept True (esc_char # ''u2028'') True" "kept True (esc_char # ''u2029'') True"
    by simp_all
qed

lemma kept_byte:
  assumes "code c < 0x80"
  shows "kept True (quote_byte c) True"
proof -
  have "kept True [esc_char, CHR ''u'', CHR ''0'', CHR ''0'', digit_char (code c div 16), digit_char (code c mod 16)] True"
    using assms kept_append [OF kept_esc kept_Cons [OF kept_letter kept_Cons [OF kept_letter kept_Cons [OF kept_digit kept_digit]]],
      of "CHR ''0''" "CHR ''0''" "code c div 16" "code c mod 16" "CHR ''u''"] by simp
  moreover have "kept True [c] True" if "\<not> html c" "c \<noteq> dquote" "c \<noteq> esc_char"
    using that assms by (intro kept_one) auto
  ultimately show ?thesis
    using kept_esc by (simp add: quote_byte_def html_def)
qed

lemma HasPrefix_same: "length x = length p \<Longrightarrow> HasPrefix (x @ r) p \<longleftrightarrow> x = p"
  by (simp add: HasPrefix_def)

lemma kept_rune:
  assumes "is_rune x" "length x \<noteq> 1" "x \<noteq> line_sep" "x \<noteq> para_sep"
  shows "kept True x True"
proof -
  have cont: "kept True [c] True" if "cont c" for c
    using that by (intro kept_one) (auto simp: html_def)
  obtain a y where x: "x = a # y" and y: "\<And>c. c \<in> set y \<Longrightarrow> cont c" and a: "0xC2 \<le> code a"
    using assms(1,2) by (cases x rule: is_rune.cases) auto
  have "kept True y True"
    by (rule kept_all) (rule cont, rule y)
  moreover have "kept True [a] True" if "code a \<noteq> 0xE2"
    using that a by (intro kept_one) (auto simp: html_def)
  moreover have "compact True (a # y @ r) = a # compact True (y @ r)" if e: "code a = 0xE2" for r
  proof -
    have "length x = 3"
      using assms(1,2) e unfolding x by (cases x rule: is_rune.cases) (auto simp: x)
    then have "\<not> HasPrefix (a # y @ r) line_sep" "\<not> HasPrefix (a # y @ r) para_sep"
      using HasPrefix_same [of x line_sep r] HasPrefix_same [of x para_sep r] assms(3,4)
      by (simp_all add: x line_sep_def para_sep_def)
    moreover have "a \<noteq> esc_char" "a \<noteq> dquote" "\<not> html a"
      using e by (auto simp: html_def)
    ultimately show ?thesis
      by (simp add: compact.simps [of _ "a # _"] html_def)
  qed
  ultimately show ?thesis
    unfolding x by (cases "code a = 0xE2") (auto simp: kept_def)
qed

lemma kept_body: "kept True (quote_body s) True"
proof (induction s rule: quote_body.induct)
  case (1 s)
  have sep: "HasPrefix s p \<longleftrightarrow> take 3 s = p" if "length p = 3" for p
    using that by (simp add: HasPrefix_def)
  show ?case
  proof (cases "1 < rune_size s")
    case True
    let ?x = "take (rune_size s) s"
    have r: "is_rune ?x" "length ?x \<noteq> 1"
      using rune_size_is [OF refl, of s] True by auto
    have "kept True ?x True" if "\<not> HasPrefix s line_sep" "\<not> HasPrefix s para_sep"
    proof -
      have "HasPrefix s ?x"
        using rune_size_is [OF refl, of s] True by (simp add: HasPrefix_def)
      with that have "?x \<noteq> line_sep" "?x \<noteq> para_sep"
        by auto
      with r show ?thesis by (rule kept_rune)
    qed
    with 1 True show ?thesis
      by (subst quote_body.simps) (auto intro: kept_append [OF kept_escapes(2), simplified]
          kept_append [OF kept_escapes(3), simplified] kept_append)
  next
    case False
    have "kept True (quote_byte (hd s)) True" if "rune_size s = 1" "s \<noteq> []"
      using that rune_size_ascii [of "hd s" "tl s"] by (intro kept_byte) simp
    with 1 False show ?thesis
      by (subst quote_body.simps) (auto intro: kept_append [OF kept_escapes(1), simplified] kept_append)
  qed
qed

lemma kept_text: "kept False (quote_text s) False"
proof -
  have "kept False [dquote] True" "kept True [dquote] False"
    using kept_quote [of False] kept_quote [of True] by simp_all
  then show ?thesis
    unfolding quote_text_def using kept_Cons [OF _ kept_append [OF kept_body]] by blast
qed


section \<open>Printed values\<close>

lemma plain_punct: "c \<in> set ''{}[]:,trufalsen'' \<Longrightarrow> kept False [c] False"
  by (rule kept_one) (auto simp: html_def is_space_def)

text \<open>The characters of a number.\<close>

definition numeric :: "char \<Rightarrow> bool" where
  "numeric c \<longleftrightarrow> is_digit c \<or> c \<in> set ''+-.eE''"

lemma numeric_digits: "list_all numeric (takeWhile is_digit s)"
  by (auto simp: list_all_iff numeric_def dest: set_takeWhileD)

lemma numeric_int: "scan_int s = Some (i, t) \<Longrightarrow> list_all numeric i"
proof (cases s)
  case (Cons c u)
  have "i = [c] \<or> i = c # takeWhile is_digit u" "numeric c" if "scan_int s = Some (i, t)"
    using that by (auto simp: scan_int_def numeric_def is_digit_def Cons split: if_split_asm)
  then show "scan_int s = Some (i, t) \<Longrightarrow> ?thesis"
    using numeric_digits [of u] by auto
qed (simp add: scan_int_def)

lemma numeric_frac:
  assumes "scan_frac s = Some (f, t)"
  shows "list_all numeric f"
proof (cases "s \<noteq> [] \<and> hd s = CHR ''.''")
  case True
  with assms have "f = CHR ''.'' # takeWhile is_digit (tl s)"
    unfolding scan_frac_def Let_def by (simp split: if_split_asm)
  with numeric_digits show ?thesis
    by (simp add: numeric_def)
next
  case False
  with assms show ?thesis
    by (auto simp: scan_frac_def)
qed

lemma numeric_exp:
  assumes "scan_exp s = Some (e, t)"
  shows "list_all numeric e"
proof (cases "s \<noteq> [] \<and> (hd s = CHR ''e'' \<or> hd s = CHR ''E'')")
  case True
  define sgn where "sgn = (if tl s \<noteq> [] \<and> (hd (tl s) = CHR ''+'' \<or> hd (tl s) = CHR ''-'') then [hd (tl s)] else [])"
  have "e = hd s # sgn @ takeWhile is_digit (drop (length sgn) (tl s))"
    using assms True unfolding scan_exp_def Let_def sgn_def [symmetric] by (simp split: if_split_asm)
  moreover have "list_all numeric sgn" "numeric (hd s)"
    using True by (auto simp: sgn_def numeric_def)
  ultimately show ?thesis
    using numeric_digits by simp
next
  case False
  with assms show ?thesis
    unfolding scan_exp_def by (simp only: if_False option.inject prod.inject) auto
qed

lemma numeric_unsigned:
  assumes "scan_unsigned s = Some (x, t)"
  shows "list_all numeric x"
proof -
  obtain i u f v e where "scan_int s = Some (i, u)" "scan_frac u = Some (f, v)" "scan_exp v = Some (e, t)" "x = i @ f @ e"
    using assms by (auto simp: scan_unsigned_def split: option.splits)
  then show ?thesis
    by (simp add: numeric_int numeric_frac numeric_exp)
qed

lemma number_chars:
  assumes "number_text x"
  shows "list_all numeric x"
proof (cases "x \<noteq> [] \<and> hd x = CHR ''-''")
  case True
  then obtain y where x: "x = CHR ''-'' # y"
    by (cases x) auto
  with assms have "scan_unsigned y = Some (y, [])"
    by (auto simp: number_text_def scan_number_minus)
  from numeric_unsigned [OF this] show ?thesis
    by (simp add: x numeric_def)
next
  case False
  then show ?thesis
    using assms scan_number_plain [of x] numeric_unsigned [of x x] by (auto simp: number_text_def)
qed

lemma plain_numeric: "numeric c \<Longrightarrow> kept False [c] False"
  by (rule kept_one) (auto simp: html_def is_space_def numeric_def is_digit_def)

lemma kept_number: "number_text x \<Longrightarrow> kept False x False"
proof (rule kept_all, rule plain_numeric)
  fix c
  assume "number_text x" "c \<in> set x"
  then show "numeric c"
    using number_chars [of x] by (simp only: list_all_iff)
qed

lemma kept_Join: "(\<And>x. x \<in> set xs \<Longrightarrow> kept False x False) \<Longrightarrow> kept False (Join xs '','') False"
proof (induction xs)
  case (Cons x xs)
  have "kept False (CHR '','' # Join xs '','') False"
    using Cons by (intro kept_Cons [OF plain_punct]) auto
  with Cons.prems show ?case
    by (cases xs) (auto intro: kept_append)
qed auto

lemma kept_between:
  "kept False x False \<Longrightarrow> c \<in> set ''{}[]'' \<Longrightarrow> c' \<in> set ''{}[]'' \<Longrightarrow> kept False (c # x @ [c']) False"
  using kept_Cons [OF plain_punct kept_append [OF _ plain_punct], of c x c'] by auto

lemma kept_print: "numbers_ok v \<Longrightarrow> kept False (print_json v) False"
proof (induction v)
  case (TObject ms)
  have "kept False (member_text m) False" if "m \<in> set ms" for m
    using TObject.IH [of m "snd m" "snd (snd m)"] numbers_ok_in(2) [OF TObject.prems that] that
    unfolding member_text_def by (intro kept_append [OF kept_text] kept_Cons [OF plain_punct]) (cases m; simp)+
  then show ?case
    unfolding object_simps by (intro kept_between kept_Join) auto
next
  case (TArray vs)
  then have "kept False (Join (map print_json vs) '','') False"
    using numbers_ok_in(1) [OF TArray.prems] by (intro kept_Join) auto
  then show ?case
    by (simp add: kept_between)
qed (auto simp: kept_text kept_number intro!: kept_all plain_punct)

lemma compact_print: "numbers_ok v \<Longrightarrow> compact False (print_json v) = print_json v"
  by (rule keptD) (rule kept_print)

end
