(* ===== verification/Wire.thy ===== *)
theory Wire
  imports Compact Dispatch
begin

text \<open>
  The control messages as text: how \<open>encoding/json\<close> fills the structs of \<open>internal/proto/messages.go\<close> and
  writes them, field by field, and the \<open>RawMessage\<close> of the envelope.  The result is one \<open>json\<close> for
  the parameter of theory Messages, and messages survive the way from one program to the other.
\<close>

section \<open>Bytes and text\<close>

definition to_bytes :: "string \<Rightarrow> byte list" where
  "to_bytes = map (\<lambda>c. of_nat (code c))"

lemma as_text_to_bytes [simp]: "as_text (to_bytes s) = s"
proof -
  have "char_of (unat (of_nat (code c) :: byte)) = c" for c
  proof -
    have "code c < 256"
      by (simp)
    then have "unat (of_nat (code c) :: byte) = code c"
      by (simp add: unat_of_nat take_bit_nat_eq_self)
    then show ?thesis by simp
  qed
  then show ?thesis
    by (simp add: as_text_def to_bytes_def comp_def)
qed

lemma to_bytes_inject [simp]: "to_bytes s = to_bytes t \<longleftrightarrow> s = t"
  by (metis as_text_to_bytes)

lemma to_bytes_Nil [simp]: "to_bytes s = [] \<longleftrightarrow> s = []"
  by (simp add: to_bytes_def)

section \<open>Decoding into a struct\<close>

text \<open>
  What decoding does to one field, given the text and the value of the member and the struct so far: the
  struct after it, and whether the value fitted.  A value that does not fit is skipped and reported in the
  end; \<open>null\<close> fits every field and leaves it alone.
\<close>

type_synonym 'a setter = "string \<Rightarrow> jtext \<Rightarrow> 'a \<Rightarrow> 'a \<times> bool"

definition text_field :: "((string \<Rightarrow> string) \<Rightarrow> 'a \<Rightarrow> 'a) \<Rightarrow> 'a setter" where
  "text_field upd raw v x = (case v of TString s \<Rightarrow> (upd (\<lambda>_. s) x, True) | TNull \<Rightarrow> (x, True) | _ \<Rightarrow> (x, False))"

definition bool_field :: "((bool \<Rightarrow> bool) \<Rightarrow> 'a \<Rightarrow> 'a) \<Rightarrow> 'a setter" where
  "bool_field upd raw v x = (case v of TBool b \<Rightarrow> (upd (\<lambda>_. b) x, True) | TNull \<Rightarrow> (x, True) | _ \<Rightarrow> (x, False))"

text \<open>An \<open>int\<close> or \<open>int64\<close>: the literal must be one \<open>strconv.ParseInt\<close> accepts.\<close>

definition int_field :: "((int \<Rightarrow> int) \<Rightarrow> 'a \<Rightarrow> 'a) \<Rightarrow> 'a setter" where
  "int_field upd raw v x =
     (case v of
        TNumber t \<Rightarrow> (case Atoi t of Some i \<Rightarrow> (upd (\<lambda>_. i) x, True) | None \<Rightarrow> (x, False))
      | TNull \<Rightarrow> (x, True)
      | _ \<Rightarrow> (x, False))"

text \<open>A \<open>json.RawMessage\<close> takes the text of any value, \<open>null\<close> included.\<close>

definition raw_field :: "((byte list \<Rightarrow> byte list) \<Rightarrow> 'a \<Rightarrow> 'a) \<Rightarrow> 'a setter" where
  "raw_field upd raw v x = (upd (\<lambda>_. to_bytes raw) x, True)"

text \<open>
  A \<open>[]string\<close> is its backing array and a length.  A second array decodes into the elements of the first: an
  element that is \<open>null\<close> keeps what the backing array held there.
\<close>

fun store_texts :: "jtext list \<Rightarrow> string list \<Rightarrow> string list \<times> bool" where
  "store_texts [] old = ([], True)"
| "store_texts (v # vs) old =
     (let kept = (case old of [] \<Rightarrow> '''' | x # _ \<Rightarrow> x);
          (y, ok) = text_field (\<lambda>f. f) '''' v kept;
          (ys, oks) = store_texts vs (tl old)
      in (y # ys, ok \<and> oks))"

type_synonym slice = "string list \<times> nat"

definition texts_field :: "slice setter" where
  "texts_field raw v x =
     (case v of
        TArray vs \<Rightarrow>
          if vs = [] then (([], 0), True)
          else let (ys, ok) = store_texts vs (fst x) in ((ys @ drop (length ys) (fst x), length vs), ok)
      | TNull \<Rightarrow> (([], 0), True)
      | _ \<Rightarrow> (x, False))"

text \<open>Members go to the field with their name, or else with their name up to case; others are skipped.\<close>

definition find_field :: "(string \<times> 'a setter) list \<Rightarrow> string \<Rightarrow> 'a setter option" where
  "find_field fs k =
     (case map_of fs k of
        Some f \<Rightarrow> Some f
      | None \<Rightarrow> map_option snd (find (\<lambda>(name, _). EqualFold k name) fs))"

definition store_member :: "(string \<times> 'a setter) list \<Rightarrow> string \<times> string \<times> jtext \<Rightarrow> 'a \<times> bool \<Rightarrow> 'a \<times> bool" where
  "store_member fs m xb =
     (case find_field fs (fst m) of
        None \<Rightarrow> xb
      | Some f \<Rightarrow> let (y, ok) = f (fst (snd m)) (snd (snd m)) (fst xb) in (y, snd xb \<and> ok))"

definition decode_struct :: "(string \<times> 'a setter) list \<Rightarrow> 'a \<Rightarrow> jtext \<Rightarrow> 'a \<times> bool" where
  "decode_struct fs x v =
     (case v of
        TObject ms \<Rightarrow> fold (store_member fs) ms (x, True)
      | TNull \<Rightarrow> (x, True)
      | _ \<Rightarrow> (x, False))"

text \<open>\<open>json.Unmarshal\<close>: nothing is stored when the text is not JSON; an error also if some value did not fit.\<close>

definition unmarshal_struct :: "(string \<times> 'a setter) list \<Rightarrow> 'a \<Rightarrow> byte list \<Rightarrow> 'a \<times> bool" where
  "unmarshal_struct fs x b =
     (case parse_json (as_text b) of None \<Rightarrow> (x, False) | Some v \<Rightarrow> decode_struct fs x v)"

definition checked :: "'a \<times> bool \<Rightarrow> 'a option" where
  "checked xb = (if snd xb then Some (fst xb) else None)"

section \<open>The structs of the protocol\<close>

definition envelope_fields :: "(string \<times> Envelope setter) list" where
  "envelope_fields = [(''type'', text_field Type_update), (''v'', int_field V_update), (''id'', text_field ID_update),
     (''data'', raw_field Data_update)]"

definition hello_fields :: "(string \<times> HelloData setter) list" where
  "hello_fields = [(''username'', text_field hello_Username_update), (''client'', text_field hello_Client_update),
     (''platform'', text_field hello_Platform_update), (''serverPassword'', text_field hello_ServerPassword_update)]"

definition create_fields :: "(string \<times> RoomCreateData setter) list" where
  "create_fields = [(''roomName'', text_field create_RoomName_update), (''visibility'', text_field create_Visibility_update),
     (''password'', text_field create_Password_update)]"

definition join_fields :: "(string \<times> RoomJoinData setter) list" where
  "join_fields = [(''roomName'', text_field join_RoomName_update), (''password'', text_field join_Password_update),
     (''role'', text_field join_Role_update)]"

definition welcome_fields :: "(string \<times> WelcomeData setter) list" where
  "welcome_fields = [(''peerId'', text_field welcome_PeerID_update), (''serverVersion'', text_field welcome_ServerVersion_update),
     (''udpEndpoint'', text_field welcome_UdpEndpoint_update), (''udpToken'', text_field welcome_UdpToken_update)]"

definition mute_fields :: "(string \<times> bool setter) list" where
  "mute_fields = [(''muted'', bool_field (\<lambda>f. f))]"

definition subscribe_fields :: "(string \<times> slice setter) list" where
  "subscribe_fields = [(''sourcePeerIds'', texts_field)]"

definition ping_fields :: "(string \<times> int setter) list" where
  "ping_fields = [(''ts'', int_field (\<lambda>f. f))]"

section \<open>Encoding\<close>

definition obj :: "(string \<times> jtext) list \<Rightarrow> jtext" where
  "obj fs = TObject (map (\<lambda>(k, v). (k, print_json v, v)) fs)"

definition num :: "int \<Rightarrow> jtext" where
  "num i = TNumber (show_int i)"

text \<open>\<open>omitempty\<close>.\<close>

definition opt_text :: "string \<Rightarrow> string \<Rightarrow> (string \<times> jtext) list" where
  "opt_text k s = (if s = '''' then [] else [(k, TString s)])"

definition opt_list :: "string \<Rightarrow> jtext list \<Rightarrow> (string \<times> jtext) list" where
  "opt_list k vs = (if vs = [] then [] else [(k, TArray vs)])"

definition hello_json :: "HelloData \<Rightarrow> jtext" where
  "hello_json d = obj ([(''username'', TString (hello_Username d)), (''client'', TString (hello_Client d)),
     (''platform'', TString (hello_Platform d))] @ opt_text ''serverPassword'' (hello_ServerPassword d))"

definition create_json :: "RoomCreateData \<Rightarrow> jtext" where
  "create_json d = obj ([(''roomName'', TString (create_RoomName d)), (''visibility'', TString (create_Visibility d))] @
     opt_text ''password'' (create_Password d))"

definition join_json :: "RoomJoinData \<Rightarrow> jtext" where
  "join_json d = obj ([(''roomName'', TString (join_RoomName d))] @ opt_text ''password'' (join_Password d) @
     [(''role'', TString (join_Role d))])"

definition peer_json :: "PeerInfo \<Rightarrow> jtext" where
  "peer_json p = obj [(''peerId'', TString (info_PeerID p)), (''username'', TString (info_Username p)),
     (''role'', TString (info_Role p)), (''muted'', TBool (info_Muted p)), (''joinedAt'', num (info_JoinedAt p))]"

definition room_json :: "WireRoom \<Rightarrow> jtext" where
  "room_json r = obj [(''roomName'', TString (wire_RoomName r)), (''peerCount'', num (wire_PeerCount r)),
     (''maxPeers'', num (wire_MaxPeers r)), (''hasPassword'', TBool (wire_HasPassword r)), (''createdAt'', num (wire_CreatedAt r))]"

definition welcome_json :: "WelcomeData \<Rightarrow> jtext" where
  "welcome_json w = obj ([(''peerId'', TString (welcome_PeerID w)), (''serverVersion'', TString (welcome_ServerVersion w))] @
     opt_text ''udpEndpoint'' (welcome_UdpEndpoint w) @ opt_text ''udpToken'' (welcome_UdpToken w))"

primrec payload_json :: "payload \<Rightarrow> jtext" where
  "payload_json (Welcome w) = welcome_json w"
| "payload_json (Error c m) = obj [(''code'', TString c), (''message'', TString m)]"
| "payload_json (RoomJoined i n ps) =
     obj [(''roomId'', TString i), (''roomName'', TString n), (''peers'', TArray (map peer_json ps))]"
| "payload_json (RoomLeft reason) = obj [(''reason'', TString reason)]"
| "payload_json (PeerJoined p) = peer_json p"
| "payload_json (PeerLeft p reason) = obj [(''peerId'', TString p), (''reason'', TString reason)]"
| "payload_json (PeerMuteChanged p b) = obj [(''peerId'', TString p), (''muted'', TBool b)]"
| "payload_json (RoomListResult rs) = obj [(''rooms'', TArray (map room_json rs))]"
| "payload_json (RoomListUpdate new gone changed) =
     obj (opt_list ''added'' (map room_json new) @ opt_list ''removed'' (map TString gone) @
       opt_list ''updated'' (map room_json changed))"
| "payload_json (Pong c s) = obj [(''clientTs'', num c), (''serverTs'', num s)]"

text \<open>\<open>json.Marshal\<close> of a \<open>RawMessage\<close>, and of the envelope around it.\<close>

definition marshal_raw :: "byte list \<Rightarrow> string option" where
  "marshal_raw b =
     (let s = (if b = [] then ''null'' else as_text b)
      in if parse_json s = None then None else Some (compact False s))"

definition marshal_env :: "Envelope \<Rightarrow> byte list option" where
  "marshal_env env =
     (case marshal_raw (Data env) of
        None \<Rightarrow> None
      | Some raw \<Rightarrow>
          Some (to_bytes (CHR ''{'' # Join (map (\<lambda>(k, t). quote_text k @ CHR '':'' # t)
            ([(''type'', quote_text (Type env)), (''v'', show_int (V env))] @
             (if ID env = '''' then [] else [(''id'', quote_text (ID env))]) @ [(''data'', raw)])) '','' @ ''}'')))"

text \<open>The library as the programs use it.\<close>

definition go_json :: json where
  "go_json =
     \<lparr>un_envelope = (\<lambda>b. checked (unmarshal_struct envelope_fields \<lparr>Type = '''', V = 0, ID = '''', Data = []\<rparr> b)),
      un_hello = (\<lambda>b. checked (unmarshal_struct hello_fields
        \<lparr>hello_Username = '''', hello_Client = '''', hello_Platform = '''', hello_ServerPassword = ''''\<rparr> b)),
      un_create = (\<lambda>b. checked (unmarshal_struct create_fields
        \<lparr>create_RoomName = '''', create_Visibility = '''', create_Password = ''''\<rparr> b)),
      un_join = (\<lambda>b. checked (unmarshal_struct join_fields \<lparr>join_RoomName = '''', join_Password = '''', join_Role = ''''\<rparr> b)),
      un_mute = (\<lambda>b. checked (unmarshal_struct mute_fields False b)),
      un_subscribe = (\<lambda>b. map_option (\<lambda>(xs, n). take n xs) (checked (unmarshal_struct subscribe_fields ([], 0) b))),
      un_ping = (\<lambda>b. fst (unmarshal_struct ping_fields 0 b)),
      marshal = (\<lambda>p. Some (to_bytes (print_json (payload_json p)))),
      marshal_envelope = marshal_env\<rparr>"


section \<open>Messages arrive\<close>

lemma clean_ascii: "list_all (\<lambda>c. code c < 0x80) s \<Longrightarrow> clean s = s"
proof (induction s)
  case (Cons c s)
  then have "rune_size (c # s) = 1"
    using rune_size_ascii [of c s] by simp
  with Cons show ?case
    by (subst clean.simps) simp
qed simp

lemma clean_Nil_iff [simp]: "clean s = [] \<longleftrightarrow> s = []"
  by (subst clean.simps) (auto simp: replacement_def)

definition obj_member :: "string \<times> jtext \<Rightarrow> string \<times> string \<times> jtext" where
  "obj_member f = (clean (fst f), print_json (snd f), norm_json (snd f))"

lemma obj_facts:
  "norm_json (obj fs) = TObject (map obj_member fs)"
  "numbers_ok (obj fs) \<longleftrightarrow> (\<forall>f \<in> set fs. numbers_ok (snd f))"
  "(\<And>f. f \<in> set fs \<Longrightarrow> depth (snd f) \<le> n) \<Longrightarrow> depth (obj fs) \<le> Suc n"
proof -
  show "norm_json (obj fs) = TObject (map obj_member fs)"
    unfolding obj_def object_simps by (simp add: norm_member_def obj_member_def case_prod_unfold comp_def)
  show "numbers_ok (obj fs) \<longleftrightarrow> (\<forall>f \<in> set fs. numbers_ok (snd f))"
    by (auto simp: obj_def list_all_iff case_prod_unfold)
  show "(\<And>f. f \<in> set fs \<Longrightarrow> depth (snd f) \<le> n) \<Longrightarrow> depth (obj fs) \<le> Suc n"
    by (induction fs) (auto simp: obj_def case_prod_unfold)
qed

lemma Atoi_show_int: "- (2 ^ 63) \<le> i \<Longrightarrow> i < 2 ^ 63 \<Longrightarrow> Atoi (show_int i) = Some i"
proof -
  assume i: "- (2 ^ 63) \<le> i" "i < 2 ^ 63"
  have d: "digits_of n \<noteq> [] \<and> hd (digits_of n) \<noteq> CHR ''-'' \<and> hd (digits_of n) \<noteq> CHR ''+''" for n
    using digits_of_digits [of n] by (cases "digits_of n") (auto simp: is_digit_def)
  show ?thesis
  proof (cases "i < 0")
    case True
    then have "show_int i = CHR ''-'' # digits_of (nat (- i))"
      by (simp add: show_int_def)
    with i True show ?thesis
      by (simp add: Atoi_def Let_def digits_of_digits dec_value_digits nat_le_iff)
  next
    case False
    then have "show_int i = digits_of (nat i)"
      by (simp add: show_int_def)
    with i False d [of "nat i"] show ?thesis
      by (simp add: Atoi_def Let_def digits_of_digits dec_value_digits nat_less_iff)
  qed
qed

text \<open>An envelope around a value, and what is read from it.\<close>

definition envelope_json :: "string \<Rightarrow> string \<Rightarrow> jtext \<Rightarrow> jtext" where
  "envelope_json t i v =
     obj ([(''type'', TString t), (''v'', num ProtocolVersion)] @ opt_text ''id'' i @ [(''data'', v)])"

definition sendable :: "jtext \<Rightarrow> bool" where
  "sendable v \<longleftrightarrow> numbers_ok v \<and> depth v < maxNestingDepth"

lemma parse_obj:
  assumes "\<forall>f \<in> set fs. sendable (snd f)"
  shows "parse_json (print_json (obj fs)) = Some (TObject (map obj_member fs))"
proof -
  have "depth (obj fs) \<le> Suc (maxNestingDepth - 1)"
    using assms by (intro obj_facts) (auto simp: sendable_def)
  moreover have "numbers_ok (obj fs)"
    using assms by (simp add: obj_facts sendable_def)
  ultimately show ?thesis
    using parse_print [of "obj fs"] by (simp add: obj_facts maxNestingDepth_def)
qed

lemma sendable_leaf [simp]: "sendable TNull" "sendable (TBool b)" "sendable (TString s)" "sendable (num i)"
  "sendable (TNumber x) \<longleftrightarrow> number_text x"
  by (simp_all add: sendable_def num_def number_show_int maxNestingDepth_def)

lemma sendable_flat: "\<forall>f \<in> set fs. depth (snd f) = 0 \<and> numbers_ok (snd f) \<Longrightarrow> sendable (obj fs)"
proof -
  assume f: "\<forall>f \<in> set fs. depth (snd f) = 0 \<and> numbers_ok (snd f)"
  then have "depth (obj fs) \<le> Suc 0"
    by (intro obj_facts) simp
  then have "depth (obj fs) < maxNestingDepth"
    unfolding maxNestingDepth_def by linarith
  with f show ?thesis
    by (simp add: sendable_def obj_facts)
qed

definition message :: "string \<Rightarrow> string \<Rightarrow> jtext \<Rightarrow> byte list" where
  "message t i v = to_bytes (print_json (envelope_json t i v))"

lemma marshal_message:
  assumes "sendable v"
  shows "marshal_env \<lparr>Type = t, V = ProtocolVersion, ID = i, Data = to_bytes (print_json v)\<rparr> = Some (message t i v)"
proof -
  have v: "numbers_ok v" "depth v \<le> maxNestingDepth"
    using assms by (auto simp: sendable_def)
  have "print_json v \<noteq> []"
    using print_start [OF v(1)] by simp
  then have "marshal_raw (to_bytes (print_json v)) = Some (print_json v)"
    using parse_print [OF v] compact_print [OF v(1)] by (simp add: marshal_raw_def)
  moreover have "print_json (envelope_json t i v) = CHR ''{'' # Join (map (\<lambda>(k, t). quote_text k @ CHR '':'' # t)
      ([(''type'', quote_text t), (''v'', show_int ProtocolVersion)] @
       (if i = '''' then [] else [(''id'', quote_text i)]) @ [(''data'', print_json v)])) '','' @ ''}''"
    by (simp add: envelope_json_def obj_def num_def opt_text_def)
  ultimately show ?thesis
    by (simp add: marshal_env_def message_def)
qed

lemma parse_message:
  assumes "sendable v"
  shows "parse_json (as_text (message t i v)) =
    Some (TObject (map obj_member ([(''type'', TString t), (''v'', num ProtocolVersion)] @ opt_text ''id'' i @ [(''data'', v)])))"
  using assms unfolding message_def envelope_json_def as_text_to_bytes by (intro parse_obj) (auto simp: opt_text_def)

lemma read_message:
  assumes "sendable v" "t \<noteq> ''''"
  shows "Decode go_json (message t i v) = Some \<lparr>Type = clean t, V = 1, ID = clean i, Data = to_bytes (print_json v)\<rparr>"
proof -
  have "Atoi (show_int 1) = Some 1"
    by (rule Atoi_show_int) simp_all
  with assms(2) show ?thesis
    by (simp add: Decode_def go_json_def unmarshal_struct_def parse_message [OF assms(1)] decode_struct_def
        obj_member_def clean_ascii opt_text_def store_member_def find_field_def envelope_fields_def num_def text_field_def
        int_field_def raw_field_def checked_def ProtocolVersion_def)
qed

section \<open>Payloads of the clients\<close>

text \<open>What a client passes to \<open>proto.Encode\<close>; \<open>Nothing\<close> is \<open>struct{}{}\<close>.\<close>

datatype client_payload =
    HelloPayload HelloData
  | CreatePayload RoomCreateData
  | JoinPayload RoomJoinData
  | MutePayload bool
  | SubscribePayload "string list"
  | PingPayload int
  | Nothing

primrec client_json :: "client_payload \<Rightarrow> jtext" where
  "client_json (HelloPayload d) = hello_json d"
| "client_json (CreatePayload d) = create_json d"
| "client_json (JoinPayload d) = join_json d"
| "client_json (MutePayload b) = obj [(''muted'', TBool b)]"
| "client_json (SubscribePayload ids) = obj [(''sourcePeerIds'', TArray (map TString ids))]"
| "client_json (PingPayload ts) = obj [(''ts'', num ts)]"
| "client_json Nothing = obj []"

text \<open>\<open>proto.Encode\<close> with such a payload.\<close>

definition Encode_client :: "client_type \<Rightarrow> string \<Rightarrow> client_payload \<Rightarrow> byte list option" where
  "Encode_client typ reqID p =
     marshal_env \<lparr>Type = client_text typ, V = ProtocolVersion, ID = reqID, Data = to_bytes (print_json (client_json p))\<rparr>"

text \<open>What the server's decoder must give for it.\<close>

primrec carries :: "json \<Rightarrow> client_payload \<Rightarrow> byte list \<Rightarrow> bool" where
  "carries J (HelloPayload d) b \<longleftrightarrow> un_hello J b = Some d"
| "carries J (CreatePayload d) b \<longleftrightarrow> un_create J b = Some d"
| "carries J (JoinPayload d) b \<longleftrightarrow> un_join J b = Some d"
| "carries J (MutePayload m) b \<longleftrightarrow> un_mute J b = Some m"
| "carries J (SubscribePayload ids) b \<longleftrightarrow> un_subscribe J b = Some ids"
| "carries J (PingPayload ts) b \<longleftrightarrow> un_ping J b = ts"
| "carries J Nothing b \<longleftrightarrow> True"

text \<open>The texts are UTF-8, and the time stamp is an \<open>int64\<close>.\<close>

primrec valid_payload :: "client_payload \<Rightarrow> bool" where
  "valid_payload (HelloPayload d) \<longleftrightarrow> ValidUTF8 (hello_Username d) \<and> ValidUTF8 (hello_Client d) \<and>
     ValidUTF8 (hello_Platform d) \<and> ValidUTF8 (hello_ServerPassword d)"
| "valid_payload (CreatePayload d) \<longleftrightarrow> ValidUTF8 (create_RoomName d) \<and> ValidUTF8 (create_Visibility d) \<and>
     ValidUTF8 (create_Password d)"
| "valid_payload (JoinPayload d) \<longleftrightarrow> ValidUTF8 (join_RoomName d) \<and> ValidUTF8 (join_Password d) \<and> ValidUTF8 (join_Role d)"
| "valid_payload (MutePayload b) \<longleftrightarrow> True"
| "valid_payload (SubscribePayload ids) \<longleftrightarrow> list_all ValidUTF8 ids"
| "valid_payload (PingPayload ts) \<longleftrightarrow> - (2 ^ 63) \<le> ts \<and> ts < 2 ^ 63"
| "valid_payload Nothing \<longleftrightarrow> True"

lemma depth_texts: "depth (TArray (map TString xs)) = 1"
  by (induction xs) auto

lemma client_sendable: "sendable (client_json p)"
proof -
  have "numbers_ok (client_json p)"
    by (cases p) (auto simp: hello_json_def create_json_def join_json_def obj_facts opt_text_def num_def number_show_int list_all_iff)
  moreover have "depth (client_json p) \<le> Suc 1"
    by (cases p) (auto simp: hello_json_def create_json_def join_json_def num_def opt_text_def depth_texts
        simp del: depth.simps(5) intro!: obj_facts(3) split: if_splits)
  ultimately show ?thesis
    by (simp add: sendable_def maxNestingDepth_def)
qed

lemma unmarshal_obj:
  assumes "\<forall>f \<in> set fs. sendable (snd f)"
  shows "unmarshal_struct table x (to_bytes (print_json (obj fs))) = fold (store_member table) (map obj_member fs) (x, True)"
  by (simp add: unmarshal_struct_def parse_obj [OF assms] decode_struct_def)

lemma sendable_texts [simp]: "sendable (TArray (map TString xs))"
  unfolding sendable_def depth_texts by (simp add: maxNestingDepth_def list_all_iff)

lemma stored_texts: "list_all ValidUTF8 ids \<Longrightarrow> store_texts (map (\<lambda>s. TString (clean s)) ids) [] = (ids, True)"
  by (induction ids) (auto simp: text_field_def clean_valid)

lemmas struct_simps = obj_member_def clean_ascii clean_valid opt_text_def store_member_def find_field_def
  text_field_def bool_field_def int_field_def checked_def number_show_int

lemma payload_carried:
  assumes "valid_payload p"
  shows "carries go_json p (to_bytes (print_json (client_json p)))"
proof (cases p)
  case (HelloPayload d)
  with assms show ?thesis
    by (cases d) (simp add: go_json_def hello_json_def unmarshal_obj hello_fields_def struct_simps)
next
  case (CreatePayload d)
  with assms show ?thesis
    by (cases d) (simp add: go_json_def create_json_def unmarshal_obj create_fields_def struct_simps)
next
  case (JoinPayload d)
  with assms show ?thesis
    by (cases d) (simp add: go_json_def join_json_def unmarshal_obj join_fields_def struct_simps)
next
  case (MutePayload b)
  then show ?thesis
    by (simp add: go_json_def unmarshal_obj mute_fields_def struct_simps)
next
  case (SubscribePayload ids)
  with assms show ?thesis
    by (simp add: go_json_def unmarshal_obj subscribe_fields_def struct_simps texts_field_def stored_texts comp_def)
next
  case (PingPayload ts)
  with assms show ?thesis
    by (simp add: go_json_def unmarshal_obj ping_fields_def struct_simps num_def Atoi_show_int)
qed simp

lemma client_text_utf8: "client_text ty \<noteq> '''' \<and> clean (client_text ty) = client_text ty"
  by (cases ty) (simp_all add: clean_ascii)

text \<open>
  C26. Every control message a client sends through \<open>proto.Encode\<close> is written, and the server's
  \<open>proto.Decode\<close> gives back its type, its request id and the protocol version, and its payload decodes
  to the fields that were written, when the texts are UTF-8.
\<close>

theorem control_messages_arrive:
  assumes "valid_payload p" "ValidUTF8 i"
  shows "\<exists>b env. Encode_client ty i p = Some b \<and> Decode go_json b = Some env \<and> Type env = client_text ty \<and>
    V env = ProtocolVersion \<and> ID env = i \<and> carries go_json p (Data env)"
proof -
  have "Encode_client ty i p = Some (message (client_text ty) i (client_json p))"
    unfolding Encode_client_def by (rule marshal_message) (rule client_sendable)
  with read_message [OF client_sendable, of "client_text ty" i p] payload_carried [OF assms(1)] client_text_utf8 [of ty]
    clean_valid [OF assms(2)] show ?thesis
    by (simp add: ProtocolVersion_def)
qed


theorem control_messages_arrive_witness:
  "\<exists>b env. Encode_client TypeHello ''1'' (HelloPayload \<lparr>hello_Username = ''ann <3'', hello_Client = ''go'', hello_Platform = '''',
      hello_ServerPassword = [dquote, esc_char]\<rparr>) = Some b \<and> Decode go_json b = Some env \<and> Type env = ''hello'' \<and>
    V env = 1 \<and> ID env = ''1'' \<and> un_hello go_json (Data env) = Some \<lparr>hello_Username = ''ann <3'', hello_Client = ''go'',
      hello_Platform = '''', hello_ServerPassword = [dquote, esc_char]\<rparr>"
  using control_messages_arrive [of "HelloPayload \<lparr>hello_Username = ''ann <3'', hello_Client = ''go'', hello_Platform = '''',
    hello_ServerPassword = [dquote, esc_char]\<rparr>" "''1''" TypeHello] by (simp add: ValidUTF8_def ProtocolVersion_def)

end
