(* ===== verification/Wire_Run.thy ===== *)
theory Wire_Run
  imports Wire Dispatch_Spec
begin

text \<open>
  The server on the text of its clients: a hello written by \<open>proto.Encode\<close> opens a session, and the
  welcome that answers it says what the server holds.
\<close>

section \<open>Written texts are UTF-8\<close>

lemma utf8_append: "ValidUTF8 x \<Longrightarrow> ValidUTF8 (x @ y) \<longleftrightarrow> ValidUTF8 y"
proof (induction x rule: length_induct)
  case (1 x)
  show ?case
  proof (cases "x = []")
    case False
    let ?n = "rune_size x"
    have n: "0 < ?n" "ValidUTF8 (drop ?n x)"
      using runes_step [OF False] 1(2) by simp_all
    then have "ValidUTF8 (drop ?n x @ y) \<longleftrightarrow> ValidUTF8 y"
      using 1(1) False by simp
    moreover have "ValidUTF8 (take ?n x @ drop ?n x @ y) \<longleftrightarrow> ValidUTF8 (drop ?n x @ y)"
      using rune_size_is [OF refl n(1)] by (intro ValidUTF8_rune) simp
    ultimately show ?thesis
      by (simp add: append_assoc [symmetric] del: append_assoc)
  qed simp
qed

lemma utf8_ascii: "list_all (\<lambda>c. code c < 0x80) s \<Longrightarrow> ValidUTF8 s"
  by (induction s) (simp_all add: ValidUTF8_def)

lemma utf8_appendI: "ValidUTF8 x \<Longrightarrow> ValidUTF8 y \<Longrightarrow> ValidUTF8 (x @ y)"
  by (simp add: utf8_append)

lemma utf8_Cons: "code c < 0x80 \<Longrightarrow> ValidUTF8 (c # s) \<longleftrightarrow> ValidUTF8 s"
  using utf8_append [of "[c]" s] utf8_ascii [of "[c]"] by simp

lemma ascii_digit: "d < 16 \<Longrightarrow> code (digit_char d) < 0x80"
  by (simp add: digit_char_code)

lemma utf8_quote_byte: "code c < 0x80 \<Longrightarrow> ValidUTF8 (quote_byte c)"
  using ascii_digit [of "code c div 16"] ascii_digit [of "code c mod 16"]
  by (intro utf8_ascii) (simp add: quote_byte_def)

lemma utf8_quote_body: "ValidUTF8 (quote_body s)"
proof (induction s rule: quote_body.induct)
  case (1 s)
  have "ValidUTF8 (take (rune_size s) s)" if "1 < rune_size s"
    using rune_size_is [OF refl, of s] ValidUTF8_rune [of "take (rune_size s) s" "[]"] that by simp
  moreover have "ValidUTF8 (quote_byte (hd s))" if "rune_size s = 1" "s \<noteq> []"
    using that rune_size_ascii [of "hd s" "tl s"] by (intro utf8_quote_byte) simp
  moreover have "ValidUTF8 (esc_char # ''ufffd'')" "ValidUTF8 (esc_char # ''u2028'')" "ValidUTF8 (esc_char # ''u2029'')"
    by (simp_all add: utf8_ascii)
  ultimately show ?case
    using 1 by (subst quote_body.simps)
      (auto intro: utf8_appendI simp: utf8_appendI [of "esc_char # ''ufffd''", simplified]
        utf8_appendI [of "esc_char # ''u2028''", simplified] utf8_appendI [of "esc_char # ''u2029''", simplified])
qed

lemma utf8_quote_text: "ValidUTF8 (quote_text s)"
  unfolding quote_text_def by (simp add: utf8_Cons utf8_append [OF utf8_quote_body] utf8_ascii)

lemma utf8_Join: "(\<And>x. x \<in> set xs \<Longrightarrow> ValidUTF8 x) \<Longrightarrow> ValidUTF8 (Join xs '','')"
proof (induction xs)
  case (Cons x xs)
  then show ?case
    by (cases xs) (auto simp: utf8_append utf8_Cons)
qed simp

lemma number_ascii: "number_text x \<Longrightarrow> ValidUTF8 x"
  using number_chars [of x] by (intro utf8_ascii) (auto simp: list_all_iff numeric_def is_digit_def)

lemma utf8_print: "numbers_ok v \<Longrightarrow> ValidUTF8 (print_json v)"
proof (induction v)
  case (TObject ms)
  have "ValidUTF8 (member_text m)" if "m \<in> set ms" for m
    using TObject.IH [of m "snd m" "snd (snd m)"] numbers_ok_in(2) [OF TObject.prems that] that
    by (cases m) (simp add: member_text_def utf8_append [OF utf8_quote_text] utf8_Cons)
  then have "ValidUTF8 (Join (map member_text ms) '','')"
    by (intro utf8_Join) auto
  then show ?case
    unfolding object_simps by (simp add: utf8_Cons utf8_append utf8_ascii)
next
  case (TArray vs)
  then have "ValidUTF8 (Join (map print_json vs) '','')"
    using numbers_ok_in(1) [OF TArray.prems] by (intro utf8_Join) auto
  then show ?case
    by (simp add: utf8_Cons utf8_append utf8_ascii)
qed (simp_all add: utf8_quote_text number_ascii utf8_ascii)

lemma message_utf8: "sendable v \<Longrightarrow> ValidUTF8 (as_text (message t i v))"
  by (auto simp: message_def envelope_json_def sendable_def obj_facts opt_text_def num_def number_show_int intro!: utf8_print)


section \<open>A hello is served\<close>

text \<open>A client reads the welcome; like the test client it ignores the error.\<close>

definition read_welcome :: "byte list \<Rightarrow> WelcomeData" where
  "read_welcome b = fst (unmarshal_struct welcome_fields
     \<lparr>welcome_PeerID = '''', welcome_ServerVersion = '''', welcome_UdpEndpoint = '''', welcome_UdpToken = ''''\<rparr> b)"

definition clean_welcome :: "WelcomeData \<Rightarrow> WelcomeData" where
  "clean_welcome w = \<lparr>welcome_PeerID = clean (welcome_PeerID w), welcome_ServerVersion = clean (welcome_ServerVersion w),
     welcome_UdpEndpoint = clean (welcome_UdpEndpoint w), welcome_UdpToken = clean (welcome_UdpToken w)\<rparr>"

lemma depth_objs: "(\<And>x. x \<in> set xs \<Longrightarrow> depth (f x) \<le> n) \<Longrightarrow> depth (TArray (map f xs)) \<le> Suc n"
  by (induction xs) auto

lemma payload_sendable: "sendable (payload_json p)"
proof -
  have info: "numbers_ok (peer_json q) \<and> depth (peer_json q) \<le> Suc 0" for q
    by (auto simp: peer_json_def obj_facts num_def number_show_int intro!: obj_facts(3))
  have room: "numbers_ok (room_json r) \<and> depth (room_json r) \<le> Suc 0" for r
    by (auto simp: room_json_def obj_facts num_def number_show_int intro!: obj_facts(3))
  have "numbers_ok (payload_json p)"
    using info room by (cases p) (auto simp: welcome_json_def obj_facts opt_text_def opt_list_def num_def number_show_int list_all_iff)
  moreover have lists: "depth (TArray (map peer_json ps)) \<le> Suc (Suc 0)" "depth (TArray (map room_json rs)) \<le> Suc (Suc 0)"
    "depth (TArray (map TString ss)) \<le> Suc (Suc 0)" for ps rs ss
    using info room by (intro depth_objs; simp)+
  have "depth (payload_json p) \<le> Suc (Suc (Suc 0))"
    using le_trans [OF conjunct2 [OF info]] lists
    by (cases p) (auto simp: welcome_json_def opt_text_def opt_list_def num_def simp del: depth.simps(5)
        intro!: obj_facts(3) split: if_splits)
  ultimately show ?thesis
    by (simp add: sendable_def maxNestingDepth_def)
qed

text \<open>What the server writes can be read, whatever the payload.\<close>

lemma Encode_go:
  "Encode go_json ty i p = Some (message (server_text ty) i (payload_json p))"
  using marshal_message [OF payload_sendable, of "server_text ty" i p] by (simp add: Encode_def go_json_def)

lemma welcome_read: "read_welcome (to_bytes (print_json (welcome_json w))) = clean_welcome w"
  by (cases w) (simp add: read_welcome_def clean_welcome_def welcome_json_def unmarshal_obj welcome_fields_def struct_simps)


lemma ascii_base64: "list_all (\<lambda>c. code c < 0x80) (EncodeToString bs)"
proof -
  have "list_all (\<lambda>c. code c < 0x80) alphabet"
    by (simp add: alphabet_def)
  then have "code (b64 n) < 0x80" for n
    by (simp add: b64_def list_all_length)
  then show ?thesis
    by (induction bs rule: EncodeToString.induct) (simp_all add: Let_def)
qed

lemma ascii_uuid: "list_all (\<lambda>c. code c < 0x80) (uuid_String u)"
proof -
  have "unat b div 16 < 16" for b :: byte
    using byte_bound [of b] by simp
  then have "list_all (\<lambda>c. code c < 0x80) (hex2 b)" for b
    using ascii_digit by (simp add: hex2_def)
  then show ?thesis
    by (auto simp: uuid_String_def Let_def list_all_iff)
qed

text \<open>The welcome of a session, and what a session with UDP leaves in the UDP server.\<close>

definition session_welcome_data :: "env \<Rightarrow> string \<Rightarrow> uuid \<Rightarrow> token option \<Rightarrow> WelcomeData" where
  "session_welcome_data E host uid random =
     \<lparr>welcome_PeerID = uuid_String uid, welcome_ServerVersion = version E, welcome_UdpEndpoint = advertised E host,
      welcome_UdpToken = (if advertised E host = '''' then '''' else EncodeToString (bytes_of (the random)))\<rparr>"

definition udp_ready :: "uuid \<Rightarrow> token option \<Rightarrow> peer_ref \<Rightarrow> world \<Rightarrow> world \<Rightarrow> bool" where
  "udp_ready uid random p w w' \<longleftrightarrow>
     map_of (tokenByID (wudp w')) uid = random \<and> map_of (peerByID (wudp w')) uid = Some p \<and> udpAddr (the_peer w' p) = None \<and>
     peerByAddr (wudp w') = peerByAddr (wudp w) \<and> helloLimiter (wudp w') = helloLimiter (wudp w) \<and>
     helloPerIPPerMinute (wudp w') = helloPerIPPerMinute (wudp w) \<and> now w' = now w"

lemma run_hello_sends:
  assumes check: "check_hello E c ip isText bytes s = (t, Some (i, u))"
    and token: "random \<noteq> None \<or> advertised E host = ''''"
    and body: "Encode (json_text E) TypeWelcome i (Welcome (session_welcome_data E host uid random)) = Some body"
    and queue: "write_queue E c body False"
  shows "\<exists>s'. run_hello E c ip host uid random isText bytes s = (s', Some (next_peer (hall t))) \<and>
    wsframes (base s') = wsframes (base t) @ [(c, body, False)] \<and>
    (advertised E host \<noteq> '''' \<longrightarrow> udp_ready uid random (next_peer (hall t)) (base t) (base s'))"
proof -
  have frames: "wsframes (AttachPeer p w) = wsframes w" for p w
    by (simp add: AttachPeer_def Let_def on_udp_def on_peer_def)
  note state = send_msg_def ws_write_def on_base_def on_hall_def meter_def metered_def
  show ?thesis
  proof (cases "advertised E host = ''''")
    case True
    then show ?thesis
      using check body queue frames unfolding run_hello_def session_welcome_data_def by (simp add: Let_def state)
  next
    case False
    then obtain tok where tok: "random = Some tok"
      using token by auto
    have on: "UdpOn (server E)"
      using False unfolding advertised_def by presburger
    let ?L = "connect_peer uid u ip c (hall t)" and ?p = "next_peer (hall t)"
    have new: "peerID (peer_at ?L ?p) = uid" "udpAddr (peer_at ?L ?p) = None" "clock ?L = clock (hall t)"
      by (simp_all add: connect_peer_def Let_def NewPeer_def AttachSender_def)
    show ?thesis
      using check body queue frames False tok on new unfolding run_hello_def session_welcome_data_def
      by (simp add: Let_def state MintToken_def on_udp_def udp_ready_def AttachPeer_def on_peer_def go_map AttachUdpSender_def)
  qed
qed

lemma check_hello_accepts:
  assumes "json_text E = go_json" "validUsername (hello_Username h)" "valid_payload (HelloPayload h)" "ValidUTF8 i"
    and "length (hello_ServerPassword h) \<le> MaxPasswordBytes"
    and "ServerPasswordHash (server E) = [] \<or> hello_ServerPassword h \<noteq> '''' \<and> passwordBusy s < passwordCap E \<and>
      bcrypt_compare E (ServerPasswordHash (server E)) (hello_ServerPassword h)"
    and "snd (Allow (connLimiter s) ip (HelloPerIPPerMinute (Limits (server E))) Minute (clock (hall s)))"
  shows "\<exists>t. check_hello E c ip True (message ''hello'' i (hello_json h)) s = (t, Some (i, TrimSpace (hello_Username h))) \<and>
    base t = base s"
proof -
  let ?b = "message ''hello'' i (hello_json h)"
  obtain l where l: "Allow (connLimiter s) ip (HelloPerIPPerMinute (Limits (server E))) Minute (clock (hall s)) = (l, True)"
    using assms(7) by (metis prod.collapse)
  have ok: "sendable (hello_json h)" "carries go_json (HelloPayload h) (to_bytes (print_json (hello_json h)))"
    using client_sendable [of "HelloPayload h"] payload_carried [OF assms(3)] by simp_all
  have decode: "Decode go_json ?b = Some \<lparr>Type = ''hello'', V = 1, ID = i, Data = to_bytes (print_json (hello_json h))\<rparr>"
    using read_message [OF ok(1), of "''hello''" i] by (simp add: clean_ascii clean_valid [OF assms(4)])
  have hello: "un_hello go_json (to_bytes (print_json (hello_json h))) = Some h"
    using ok(2) by simp
  have pw: "check_password E c i (hello_ServerPassword h) t = (t, True)" if "passwordBusy t = passwordBusy s" for t
    using assms(6) that by (auto simp: check_password_def doPasswordWork_def)
  have utf8: "ValidUTF8 (as_text ?b)"
    by (rule message_utf8) (rule ok)
  have len: "\<not> MaxPasswordBytes < length (hello_ServerPassword h)"
    using assms(5) by simp
  show ?thesis
    unfolding check_hello_def
    by (simp add: l utf8 assms(1) decode hello assms(2) len pw Let_def ProtocolVersion_def)
qed

lemma hello_served:
  assumes "json_text E = go_json" "validUsername (hello_Username h)" "valid_payload (HelloPayload h)" "ValidUTF8 i"
    and "length (hello_ServerPassword h) \<le> MaxPasswordBytes"
    and "ServerPasswordHash (server E) = [] \<or> hello_ServerPassword h \<noteq> '''' \<and> passwordBusy s < passwordCap E \<and>
      bcrypt_compare E (ServerPasswordHash (server E)) (hello_ServerPassword h)"
    and "snd (Allow (connLimiter s) ip (HelloPerIPPerMinute (Limits (server E))) Minute (clock (hall s)))"
    and "random \<noteq> None \<or> advertised E host = ''''" "\<forall>b. write_queue E c b False"
  shows "\<exists>s'. run_hello E c ip host uid random True (message ''hello'' i (hello_json h)) s = (s', Some (next_peer (hall s))) \<and>
    Username (peer_of s' (next_peer (hall s))) = TrimSpace (hello_Username h) \<and>
    wsframes (base s') = wsframes (base s) @ [(c, message ''welcome'' i (welcome_json (session_welcome_data E host uid random)), False)] \<and>
    (advertised E host \<noteq> '''' \<longrightarrow> udp_ready uid random (next_peer (hall s)) (base s) (base s'))"
proof -
  let ?w = "session_welcome_data E host uid random"
  obtain t where t: "check_hello E c ip True (message ''hello'' i (hello_json h)) s = (t, Some (i, TrimSpace (hello_Username h)))"
      "base t = base s"
    using check_hello_accepts [OF assms(1-7)] by blast
  have body: "Encode (json_text E) TypeWelcome i (Welcome ?w) = Some (message ''welcome'' i (welcome_json ?w))"
    using Encode_go [of TypeWelcome i "Welcome ?w"] by (simp add: assms(1))
  from run_hello_sends [OF t(1) assms(8) body] assms(9) t(2)
  obtain s' where s': "run_hello E c ip host uid random True (message ''hello'' i (hello_json h)) s = (s', Some (next_peer (hall s)))"
      "wsframes (base s') = wsframes (base s) @ [(c, message ''welcome'' i (welcome_json ?w), False)]"
      "advertised E host \<noteq> '''' \<longrightarrow> udp_ready uid random (next_peer (hall s)) (base s) (base s')"
    by auto
  have "Username (peer_of s' (next_peer (hall s))) = TrimSpace (hello_Username h)"
    using s'(1) by (rule run_hello_Some) (use t in \<open>auto simp: identity_def\<close>)
  with s' show ?thesis by blast
qed

lemma hello_encoded: "Encode_client TypeHello i (HelloPayload h) = Some (message ''hello'' i (hello_json h))"
  using marshal_message [OF client_sendable, of "''hello''" i "HelloPayload h"] by (simp add: Encode_client_def)

lemma welcome_decoded: "Decode go_json (message ''welcome'' i (welcome_json w)) =
    Some \<lparr>Type = ''welcome'', V = 1, ID = clean i, Data = to_bytes (print_json (welcome_json w))\<rparr>"
  using read_message [OF payload_sendable [of "Welcome w"], of "''welcome''" i] by (simp add: clean_ascii)

text \<open>
  C7. A server is reachable by the protocol it publishes.  A client whose hello, with a username of 1 to
  32 printable runes and the server's password, is written by \<open>proto.Encode\<close> gets a session: when the
  budget of its address, a password worker and its write queue have room, and the entropy source works,
  the server accepts it and queues exactly one message, which decodes to a welcome under the same
  request id with the peer's identifier, the endpoint the server advertises, and the token it holds for
  this peer.
\<close>

theorem encoded_hello_is_served:
  assumes "json_text E = go_json" "validUsername (hello_Username h)" "valid_payload (HelloPayload h)" "ValidUTF8 i"
    and "length (hello_ServerPassword h) \<le> MaxPasswordBytes"
    and "ServerPasswordHash (server E) = [] \<or> hello_ServerPassword h \<noteq> '''' \<and> passwordBusy s < passwordCap E \<and>
      bcrypt_compare E (ServerPasswordHash (server E)) (hello_ServerPassword h)"
    and "snd (Allow (connLimiter s) ip (HelloPerIPPerMinute (Limits (server E))) Minute (clock (hall s)))"
    and "random \<noteq> None \<or> advertised E host = ''''" "\<forall>b. write_queue E c b False"
  shows "\<exists>b s' body env.
    Encode_client TypeHello i (HelloPayload h) = Some b \<and>
    run_hello E c ip host uid random True b s = (s', Some (next_peer (hall s))) \<and>
    Username (peer_of s' (next_peer (hall s))) = TrimSpace (hello_Username h) \<and>
    wsframes (base s') = wsframes (base s) @ [(c, body, False)] \<and>
    Decode go_json body = Some env \<and> Type env = ''welcome'' \<and> ID env = i \<and>
    read_welcome (Data env) = \<lparr>welcome_PeerID = uuid_String uid, welcome_ServerVersion = clean (version E),
      welcome_UdpEndpoint = clean (advertised E host),
      welcome_UdpToken = (if advertised E host = '''' then '''' else EncodeToString (bytes_of (the random)))\<rparr> \<and>
    (advertised E host \<noteq> '''' \<longrightarrow> map_of (tokenByID (wudp (base s'))) uid = random)"
proof -
  let ?b = "message ''hello'' i (hello_json h)" and ?w = "session_welcome_data E host uid random"
  let ?body = "message ''welcome'' i (welcome_json ?w)"
  obtain s' where s': "run_hello E c ip host uid random True ?b s = (s', Some (next_peer (hall s)))"
      "Username (peer_of s' (next_peer (hall s))) = TrimSpace (hello_Username h)"
      "wsframes (base s') = wsframes (base s) @ [(c, ?body, False)]"
      "advertised E host \<noteq> '''' \<longrightarrow> udp_ready uid random (next_peer (hall s)) (base s) (base s')"
    using hello_served [OF assms, of uid] by blast
  show ?thesis
    using s' hello_encoded [of i h] welcome_decoded [of i ?w] welcome_read [of ?w]
    by (intro exI [where x = ?b] exI [where x = s'] exI [where x = ?body] exI conjI)
      (auto simp: clean_valid [OF assms(4)] session_welcome_data_def clean_welcome_def clean_ascii ascii_uuid ascii_base64 udp_ready_def)
qed

definition demo_ann :: HelloData where
  "demo_ann = \<lparr>hello_Username = ''ann'', hello_Client = ''go'', hello_Platform = '''', hello_ServerPassword = ''secret''\<rparr>"

definition udp_env :: env where
  "udp_env = demo_env\<lparr>json_text := go_json, server := (server demo_env)\<lparr>UdpEndpoint := ''h:7000''\<rparr>\<rparr>"

lemma udp_env_get [simp]:
  "json_text udp_env = go_json" "HelloPerIPPerMinute (Limits (server udp_env)) = 0" "ServerPasswordHash (server udp_env) = [7]"
  "bcrypt_compare udp_env h p = (h = [7] \<and> p = ''secret'')" "write_queue udp_env = (\<lambda>_ _ _. True)" "passwordCap udp_env = 4"
  "advertised udp_env host = ''h:7000''" "version udp_env = ''dev''"
  by (simp_all add: udp_env_def demo_env_def advertised_def passwordCap_def version_def)

theorem encoded_hello_is_served_witness:
  "\<exists>b s' body env.
    Encode_client TypeHello ''1'' (HelloPayload demo_ann) = Some b \<and>
    run_hello udp_env 0 ''10.0.0.7'' '''' demo_id (Some (of_bytes [9])) True b (st demo_upgraded) = (s', Some 0) \<and>
    Username (peer_of s' 0) = ''ann'' \<and> wsframes (base s') = wsframes (base (st demo_upgraded)) @ [(0, body, False)] \<and>
    Decode go_json body = Some env \<and> Type env = ''welcome'' \<and> ID env = ''1'' \<and>
    read_welcome (Data env) = \<lparr>welcome_PeerID = uuid_String demo_id, welcome_ServerVersion = ''dev'',
      welcome_UdpEndpoint = ''h:7000'', welcome_UdpToken = EncodeToString (bytes_of (of_bytes [9] :: token))\<rparr> \<and>
    map_of (tokenByID (wudp (base s'))) demo_id = Some (of_bytes [9])"
proof -
  have "valid_payload (HelloPayload demo_ann)" "ValidUTF8 ''1''"
    by (simp_all add: demo_ann_def ValidUTF8_def)
  from encoded_hello_is_served [of udp_env demo_ann "''1''" "st demo_upgraded" "''10.0.0.7''" "Some (of_bytes [9])" "''''" 0 demo_id]
    this demo_texts(3) demo_valid(3)
  show ?thesis
    by (simp add: demo_ann_def MaxPasswordBytes_def clean_ascii)
qed

end
