(* ===== verification/Bridge.thy ===== *)
theory Bridge
  imports Proto Netip
begin

text \<open>
  The UDP proxy of the bridge (\<open>cmd/bridge/main.go\<close>): one per plugin connection, with a loopback
  socket for the plugin and a public socket for the server.  The two read loops share the
  addresses under a lock, so each datagram is one step.
\<close>

section \<open>The proxy\<close>

record udp_proxy =
  loopbackConn :: UDPAddr
  upstreamConn :: UDPAddr
  upstream_addr :: UDPAddr
  expectedPeer :: uuid
  expectedToken :: token
  pendingAddr :: "UDPAddr option"
  pluginAddr :: "UDPAddr option"

definition udpDatagramMax :: nat where
  "udpDatagramMax = 9000"

text \<open>What the proxy needs of the system: name resolution, and sockets by their local addresses.\<close>

record net_host =
  resolve_udp :: "string \<Rightarrow> UDPAddr option"
  listen_udp :: "string \<Rightarrow> UDPAddr \<Rightarrow> UDPAddr option"

datatype udp_proxy_error = ResolveListen | ResolveUpstream | ListenNotLocal | BadUpstreamAddr | ListenLoopback | ListenUpstream

definition IPv4zero :: ip where
  "IPv4zero = v4InV6Prefix @ [0, 0, 0, 0]"

definition IPv6unspecified :: ip where
  "IPv6unspecified = replicate 16 0"

text \<open>The result, and how many sockets are left open: a half-made proxy closes the one it has.\<close>

definition newUDPProxy :: "net_host \<Rightarrow> string \<Rightarrow> string \<Rightarrow> uuid \<Rightarrow> token \<Rightarrow> (udp_proxy_error + udp_proxy) \<times> nat" where
  "newUDPProxy H listenAddr upstreamAddr peer tok =
     (case resolve_udp H listenAddr of
        None \<Rightarrow> (Inl ResolveListen, 0)
      | Some la \<Rightarrow>
        (case resolve_udp H upstreamAddr of
           None \<Rightarrow> (Inl ResolveUpstream, 0)
         | Some ua \<Rightarrow>
             if IP la = [] \<or> \<not> IsLoopback (IP la) then (Inl ListenNotLocal, 0)
             else if IP ua = [] \<or> Port ua < 1 then (Inl BadUpstreamAddr, 0)
             else
               (case listen_udp H ''udp'' la of
                  None \<Rightarrow> (Inl ListenLoopback, 0)
                | Some loopback \<Rightarrow>
                    let network = (if To4 (IP ua) = None then ''udp6'' else ''udp4'');
                        localIP = (if To4 (IP ua) = None then IPv6unspecified else IPv4zero)
                    in (case listen_udp H network \<lparr>IP = localIP, Port = 0, Zone = ''''\<rparr> of
                          None \<Rightarrow> (Inl ListenUpstream, 0)
                        | Some up \<Rightarrow>
                            (Inr \<lparr>loopbackConn = loopback, upstreamConn = up, upstream_addr = the (cloneUDPAddr (Some ua)),
                               expectedPeer = peer, expectedToken = tok, pendingAddr = None, pluginAddr = None\<rparr>, 2)))))"

definition sameFixedBytes :: "byte list \<Rightarrow> byte list \<Rightarrow> bool" where
  "sameFixedBytes a b \<longleftrightarrow> length a = length b \<and> a = b"

section \<open>One datagram of each loop\<close>

text \<open>
  The proxy after the datagram, and where it is sent on to, if at all.  \<open>buf[:n]\<close> is the datagram
  cut to the buffer.
\<close>

definition loopFromPlugin :: "byte list \<Rightarrow> UDPAddr \<Rightarrow> udp_proxy \<Rightarrow> udp_proxy \<times> (UDPAddr \<times> byte list) option" where
  "loopFromPlugin datagram src p =
     (let pkt = take udpDatagramMax datagram in
      case pluginAddr p of
        Some bound \<Rightarrow>
          if sameUDPAddr (Some src) (Some bound) then (p, Some (upstream_addr p, pkt)) else (p, None)
      | None \<Rightarrow>
          (case UnpackUdpHello pkt of
             Inl _ \<Rightarrow> (p, None)
           | Inr hello \<Rightarrow>
               if \<not> sameFixedBytes (bytes_of (HelloPeerID hello)) (bytes_of (expectedPeer p)) \<or>
                  \<not> sameFixedBytes (bytes_of (HelloToken hello)) (bytes_of (expectedToken p))
               then (p, None)
               else
                 (case pendingAddr p of
                    Some pending \<Rightarrow>
                      if sameUDPAddr (Some src) (Some pending) then (p, Some (upstream_addr p, pkt)) else (p, None)
                  | None \<Rightarrow> (p\<lparr>pendingAddr := cloneUDPAddr (Some src)\<rparr>, Some (upstream_addr p, pkt)))))"

definition loopFromUpstream :: "byte list \<Rightarrow> UDPAddr \<Rightarrow> udp_proxy \<Rightarrow> udp_proxy \<times> (UDPAddr \<times> byte list) option" where
  "loopFromUpstream datagram src p =
     (let pkt = take udpDatagramMax datagram in
      if \<not> sameUDPAddr (Some src) (Some (upstream_addr p)) then (p, None)
      else
        (case pluginAddr p of
           Some dst \<Rightarrow> (p, Some (dst, pkt))
         | None \<Rightarrow>
             if length pkt \<noteq> UdpWelcomeSize \<or> pkt ! 0 \<noteq> UdpFrameTypeWelcome \<or>
                \<not> sameFixedBytes (subslice 4 20 pkt) (bytes_of (expectedPeer p))
             then (p, None)
             else
               (case pendingAddr p of
                  None \<Rightarrow> (p, None)
                | Some pending \<Rightarrow>
                    (p\<lparr>pluginAddr := cloneUDPAddr (Some pending), pendingAddr := None\<rparr>, Some (pending, pkt)))))"

section \<open>A proxy over time\<close>

text \<open>
  The two loops run until a read fails or the proxy is closed.  The logs hold what each loop handed to
  its socket: source, destination and bytes, oldest first.
\<close>

type_synonym relayed = "UDPAddr \<times> UDPAddr \<times> byte list"

record proxy_run =
  proxy :: udp_proxy
  plugin_loop :: bool
  upstream_loop :: bool
  up_log :: "relayed list"
  down_log :: "relayed list"

definition start_proxy :: "udp_proxy \<Rightarrow> proxy_run" where
  "start_proxy p = \<lparr>proxy = p, plugin_loop = True, upstream_loop = True, up_log = [], down_log = []\<rparr>"

datatype proxy_event =
  PluginDatagram "byte list" UDPAddr | PluginReadError
| UpstreamDatagram "byte list" UDPAddr | UpstreamReadError
| CloseProxy

definition logged :: "UDPAddr \<Rightarrow> (UDPAddr \<times> byte list) option \<Rightarrow> relayed list" where
  "logged src out = (case out of None \<Rightarrow> [] | Some (dst, pkt) \<Rightarrow> [(src, dst, pkt)])"

fun react :: "proxy_event \<Rightarrow> proxy_run \<Rightarrow> proxy_run" where
  "react (PluginDatagram pkt src) s =
     (if plugin_loop s
      then let (p, out) = loopFromPlugin pkt src (proxy s) in s\<lparr>proxy := p, up_log := up_log s @ logged src out\<rparr>
      else s)"
| "react PluginReadError s = s\<lparr>plugin_loop := False\<rparr>"
| "react (UpstreamDatagram pkt src) s =
     (if upstream_loop s
      then let (p, out) = loopFromUpstream pkt src (proxy s) in s\<lparr>proxy := p, down_log := down_log s @ logged src out\<rparr>
      else s)"
| "react UpstreamReadError s = s\<lparr>upstream_loop := False\<rparr>"
| "react CloseProxy s = s\<lparr>plugin_loop := False, upstream_loop := False\<rparr>"

inductive proxy_step :: "proxy_run \<Rightarrow> proxy_run \<Rightarrow> bool" where
  event: "proxy_step s (react e s)"

inductive_cases proxy_stepE: "proxy_step s t"

lemma react_run: "proxy_step\<^sup>*\<^sup>* s (fold react es s)"
proof (induction es arbitrary: s)
  case (Cons e es)
  show ?case
    unfolding fold_simps comp_apply by (rule converse_rtranclp_into_rtranclp, rule proxy_step.event, rule Cons)
qed simp

section \<open>What the proxy keeps\<close>

text \<open>A hello of the session the proxy was made for, and the welcome that answers it.\<close>

definition session_hello :: "udp_proxy \<Rightarrow> byte list \<Rightarrow> bool" where
  "session_hello p pkt \<longleftrightarrow> UnpackUdpHello pkt = Inr \<lparr>HelloPeerID = expectedPeer p, HelloToken = expectedToken p\<rparr>"

definition session_welcome :: "udp_proxy \<Rightarrow> byte list \<Rightarrow> bool" where
  "session_welcome p pkt \<longleftrightarrow> length pkt = UdpWelcomeSize \<and> pkt ! 0 = UdpFrameTypeWelcome \<and>
     subslice 4 20 pkt = bytes_of (expectedPeer p)"

definition session_of :: "udp_proxy \<Rightarrow> UDPAddr \<times> uuid \<times> token \<times> UDPAddr \<times> UDPAddr" where
  "session_of p = (upstream_addr p, expectedPeer p, expectedToken p, loopbackConn p, upstreamConn p)"

definition owner :: "udp_proxy \<Rightarrow> UDPAddr option" where
  "owner p = (case pluginAddr p of None \<Rightarrow> pendingAddr p | Some a \<Rightarrow> Some a)"

definition fresh_proxy :: "udp_proxy \<Rightarrow> bool" where
  "fresh_proxy p \<longleftrightarrow> pendingAddr p = None \<and> pluginAddr p = None"

text \<open>
  Everything that went up came from the owner, to the server, beginning with a hello of the session, and only
  hellos before the binding; everything that went down came from the server, to the
  bound plugin, beginning with the session's welcome.
\<close>

definition proxy_inv :: "udp_proxy \<Rightarrow> proxy_run \<Rightarrow> bool" where
  "proxy_inv p0 s \<longleftrightarrow>
     session_of (proxy s) = session_of p0 \<and>
     (pluginAddr (proxy s) \<noteq> None \<longrightarrow> pendingAddr (proxy s) = None) \<and>
     (owner (proxy s) = None \<longleftrightarrow> up_log s = []) \<and>
     (\<forall>(src, dst, pkt) \<in> set (up_log s). dst = upstream_addr p0 \<and> sameUDPAddr (Some src) (owner (proxy s)) \<and>
        (pluginAddr (proxy s) = None \<longrightarrow> session_hello p0 pkt)) \<and>
     (up_log s \<noteq> [] \<longrightarrow> session_hello p0 (snd (snd (hd (up_log s))))) \<and>
     (pluginAddr (proxy s) = None \<longleftrightarrow> down_log s = []) \<and>
     (\<forall>(src, dst, pkt) \<in> set (down_log s). sameUDPAddr (Some src) (Some (upstream_addr p0)) \<and> Some dst = pluginAddr (proxy s)) \<and>
     (down_log s \<noteq> [] \<longrightarrow> session_welcome p0 (snd (snd (hd (down_log s)))))"

lemma inv_start: "fresh_proxy p \<Longrightarrow> proxy_inv p (start_proxy p)"
  by (simp add: proxy_inv_def start_proxy_def fresh_proxy_def owner_def)

text \<open>The cases of the two loops.\<close>

lemma hello_session:
  assumes "UnpackUdpHello pkt = Inr hello"
  shows "session_hello p pkt \<longleftrightarrow> sameFixedBytes (bytes_of (HelloPeerID hello)) (bytes_of (expectedPeer p)) \<and>
    sameFixedBytes (bytes_of (HelloToken hello)) (bytes_of (expectedToken p))"
  using assms by (cases hello) (simp add: session_hello_def sameFixedBytes_def bytes_of_inject)

lemma from_plugin_cases:
  "loopFromPlugin datagram src p =
     (let pkt = take udpDatagramMax datagram in
      if pluginAddr p \<noteq> None then (p, if sameUDPAddr (Some src) (pluginAddr p) then Some (upstream_addr p, pkt) else None)
      else if \<not> session_hello p pkt then (p, None)
      else if pendingAddr p = None then (p\<lparr>pendingAddr := Some src\<rparr>, Some (upstream_addr p, pkt))
      else (p, if sameUDPAddr (Some src) (pendingAddr p) then Some (upstream_addr p, pkt) else None))"
proof (cases "UnpackUdpHello (take udpDatagramMax datagram)")
  case (Inl e)
  then show ?thesis
    by (auto simp: loopFromPlugin_def session_hello_def Let_def split: option.splits)
next
  case (Inr hello)
  then show ?thesis
    by (auto simp: loopFromPlugin_def hello_session [OF Inr] Let_def split: option.splits)
qed

lemma from_upstream_cases:
  "loopFromUpstream datagram src p =
     (let pkt = take udpDatagramMax datagram in
      if \<not> sameUDPAddr (Some src) (Some (upstream_addr p)) then (p, None)
      else if pluginAddr p \<noteq> None then (p, Some (the (pluginAddr p), pkt))
      else if \<not> session_welcome p pkt \<or> pendingAddr p = None then (p, None)
      else (p\<lparr>pluginAddr := pendingAddr p, pendingAddr := None\<rparr>, Some (the (pendingAddr p), pkt)))"
  by (auto simp: loopFromUpstream_def session_welcome_def sameFixedBytes_def Let_def split: option.splits)

lemma session_cong: "session_of q = session_of p \<Longrightarrow>
    upstream_addr q = upstream_addr p \<and> session_hello q = session_hello p \<and> session_welcome q = session_welcome p"
  by (simp add: session_of_def session_hello_def session_welcome_def fun_eq_iff)

lemma inv_plugin:
  assumes inv: "proxy_inv p0 s"
  shows "proxy_inv p0 (react (PluginDatagram datagram src) s)"
proof (cases "plugin_loop s")
  case True
  let ?p = "proxy s" and ?pkt = "take udpDatagramMax datagram"
  have same: "session_of ?p = session_of p0"
    using inv by (simp add: proxy_inv_def)
  note c = session_cong [OF same]
  consider (bound) a where "pluginAddr ?p = Some a" | (first) "pluginAddr ?p = None" "pendingAddr ?p = None"
    | (pending) a where "pluginAddr ?p = None" "pendingAddr ?p = Some a"
    by (cases "pluginAddr ?p"; cases "pendingAddr ?p") auto
  then show ?thesis
  proof cases
    case bound
    with inv True c show ?thesis
      by (auto simp: proxy_inv_def from_plugin_cases owner_def logged_def Let_def)
  next
    case first
    with inv have "up_log s = []" "down_log s = []"
      by (simp_all add: proxy_inv_def owner_def)
    with inv True c first same show ?thesis
      by (auto simp: proxy_inv_def from_plugin_cases owner_def logged_def session_of_def Let_def)
  next
    case pending
    with inv True c show ?thesis
      by (auto simp: proxy_inv_def from_plugin_cases owner_def logged_def Let_def hd_append)
  qed
qed (simp add: inv)

lemma inv_upstream:
  assumes inv: "proxy_inv p0 s"
  shows "proxy_inv p0 (react (UpstreamDatagram datagram src) s)"
proof (cases "upstream_loop s")
  case True
  let ?p = "proxy s" and ?pkt = "take udpDatagramMax datagram"
  have same: "session_of ?p = session_of p0"
    using inv by (simp add: proxy_inv_def)
  note c = session_cong [OF same]
  consider (bound) a where "pluginAddr ?p = Some a" | (first) "pluginAddr ?p = None" "pendingAddr ?p = None"
    | (pending) a where "pluginAddr ?p = None" "pendingAddr ?p = Some a"
    by (cases "pluginAddr ?p"; cases "pendingAddr ?p") auto
  then show ?thesis
  proof cases
    case bound
    with inv True c show ?thesis
      by (auto simp: proxy_inv_def from_upstream_cases owner_def logged_def Let_def hd_append)
  next
    case first
    with inv True c same show ?thesis
      by (auto simp: proxy_inv_def from_upstream_cases owner_def logged_def Let_def)
  next
    case pending
    with inv have "down_log s = []"
      by (simp add: proxy_inv_def)
    with inv True c same pending show ?thesis
      by (auto simp: proxy_inv_def from_upstream_cases owner_def logged_def session_of_def Let_def)
  qed
qed (simp add: inv)

lemma proxy_inv_cong: "proxy t = proxy s \<Longrightarrow> up_log t = up_log s \<Longrightarrow> down_log t = down_log s \<Longrightarrow> proxy_inv p0 t = proxy_inv p0 s"
  by (simp only: proxy_inv_def)

lemma inv_react: "proxy_inv p0 s \<Longrightarrow> proxy_inv p0 (react e s)"
proof (cases e)
  case (PluginDatagram pkt src)
  then show "proxy_inv p0 s \<Longrightarrow> proxy_inv p0 (react e s)"
    by (simp only: inv_plugin)
next
  case (UpstreamDatagram pkt src)
  then show "proxy_inv p0 s \<Longrightarrow> proxy_inv p0 (react e s)"
    by (simp only: inv_upstream)
qed (simp_all cong: proxy_inv_cong)

interpretation bridge_proxy: machine proxy_step "proxy_inv p0" for p0
  by unfold_locales (auto elim!: proxy_stepE intro: inv_react)

lemma new_proxy:
  assumes "fst (newUDPProxy H listenAddr upstreamAddr peer tok) = Inr p"
  shows "fresh_proxy p \<and> expectedPeer p = peer \<and> expectedToken p = tok \<and>
    resolve_udp H upstreamAddr = Some (upstream_addr p) \<and> 1 \<le> Port (upstream_addr p) \<and> IP (upstream_addr p) \<noteq> [] \<and>
    (\<exists>la. resolve_udp H listenAddr = Some la \<and> IsLoopback (IP la) \<and> listen_udp H ''udp'' la = Some (loopbackConn p))"
  using assms by (auto simp: newUDPProxy_def fresh_proxy_def Let_def split: option.splits if_splits)

lemma new_proxy_sockets:
  "snd (newUDPProxy H listenAddr upstreamAddr peer tok) =
     (if isl (fst (newUDPProxy H listenAddr upstreamAddr peer tok)) then 0 else 2)"
  by (simp add: newUDPProxy_def Let_def split: option.splits)

lemma welcome_form: "session_welcome p pkt \<Longrightarrow> \<exists>pad. length pad = 3 \<and> pkt = UdpFrameTypeWelcome # pad @ bytes_of (expectedPeer p)"
proof -
  assume w: "session_welcome p pkt"
  then have "length pkt = 4 + 16"
    by (simp add: session_welcome_def udp_sizes)
  then obtain a b c d ys where pkt: "pkt = a # b # c # d # ys" "length ys = 16"
    using list_4 by blast
  with w have "pkt = UdpFrameTypeWelcome # [b, c, d] @ bytes_of (expectedPeer p)"
    by (simp add: session_welcome_def subslice_def)
  then show ?thesis
    by (intro exI [where x = "[b, c, d]"]) simp
qed

text \<open>What the invariant says of the two logs.\<close>

lemma logged_up:
  assumes "proxy_inv p s" "(src, dst, pkt) \<in> set (up_log s)"
  shows "dst = upstream_addr p \<and> sameUDPAddr (Some src) (owner (proxy s)) \<and> owner (proxy s) \<noteq> None \<and>
    (down_log s = [] \<longrightarrow> session_hello p pkt)"
proof -
  have "dst = upstream_addr p \<and> sameUDPAddr (Some src) (owner (proxy s)) \<and> (down_log s = [] \<longrightarrow> session_hello p pkt)"
    using assms unfolding proxy_inv_def by blast
  then show ?thesis
    by (cases "owner (proxy s)") auto
qed

lemma logged_down:
  assumes "proxy_inv p s" "(src, dst, pkt) \<in> set (down_log s)"
  shows "sameUDPAddr (Some src) (Some (upstream_addr p)) \<and> owner (proxy s) = Some dst \<and> up_log s \<noteq> []"
proof -
  have d: "sameUDPAddr (Some src) (Some (upstream_addr p))" "pluginAddr (proxy s) = Some dst"
    using assms unfolding proxy_inv_def by fastforce+
  then have "owner (proxy s) = Some dst"
    by (simp add: owner_def)
  with d assms(1) show ?thesis
    unfolding proxy_inv_def by auto
qed

lemma logged_first:
  assumes "proxy_inv p s"
  shows "up_log s \<noteq> [] \<longrightarrow> session_hello p (snd (snd (hd (up_log s))))"
    and "down_log s \<noteq> [] \<longrightarrow> session_welcome p (snd (snd (hd (down_log s))))"
  using assms unfolding proxy_inv_def by blast+

text \<open>
  C14. Only the session is relayed.  Over any run of a proxy, in any order of datagrams from anywhere and
  read failures: every datagram that leaves for the network goes to the resolved server and comes from one
  local source, the first one a hello with this session's peer and token, and nothing but such hellos
  before the server has answered; every datagram handed to the plugin came from that server's
  address, goes to that same source, and the first one is this peer's UDP welcome.
\<close>

theorem only_the_session_is_relayed:
  assumes new: "fst (newUDPProxy H listenAddr upstreamAddr peer tok) = Inr p" and run: "proxy_step\<^sup>*\<^sup>* (start_proxy p) s"
  shows "(\<exists>a. \<forall>(src, dst, pkt) \<in> set (up_log s). sameUDPAddr (Some src) (Some a) \<and> resolve_udp H upstreamAddr = Some dst) \<and>
    (up_log s \<noteq> [] \<longrightarrow> UnpackUdpHello (snd (snd (hd (up_log s)))) = Inr \<lparr>HelloPeerID = peer, HelloToken = tok\<rparr>) \<and>
    (down_log s = [] \<longrightarrow> (\<forall>(src, dst, pkt) \<in> set (up_log s). UnpackUdpHello pkt = Inr \<lparr>HelloPeerID = peer, HelloToken = tok\<rparr>)) \<and>
    (\<forall>(src, dst, pkt) \<in> set (down_log s).
       (\<exists>server. resolve_udp H upstreamAddr = Some server \<and> sameUDPAddr (Some src) (Some server)) \<and>
       (\<forall>(local, _, _) \<in> set (up_log s). sameUDPAddr (Some local) (Some dst)) \<and> up_log s \<noteq> []) \<and>
    (down_log s \<noteq> [] \<longrightarrow> (\<exists>pad. length pad = 3 \<and> snd (snd (hd (down_log s))) = UdpFrameTypeWelcome # pad @ bytes_of peer))"
proof -
  note n = new_proxy [OF new]
  have inv: "proxy_inv p s"
    using bridge_proxy.run_keeps [OF run] inv_start n by blast
  have peer: "expectedPeer p = peer" and res: "resolve_udp H upstreamAddr = Some (upstream_addr p)"
    using n by blast+
  have hello: "session_hello p = (\<lambda>pkt. UnpackUdpHello pkt = Inr \<lparr>HelloPeerID = peer, HelloToken = tok\<rparr>)"
    using n by (simp add: session_hello_def fun_eq_iff)
  note up = logged_up [OF inv, unfolded hello] and down = logged_down [OF inv] and first = logged_first [OF inv, unfolded hello]
  show ?thesis
  proof (intro conjI)
    show "\<exists>a. \<forall>(src, dst, pkt) \<in> set (up_log s). sameUDPAddr (Some src) (Some a) \<and> resolve_udp H upstreamAddr = Some dst"
      using up res by (intro exI [where x = "the (owner (proxy s))"]) fastforce
    show "\<forall>(src, dst, pkt) \<in> set (down_log s).
        (\<exists>server. resolve_udp H upstreamAddr = Some server \<and> sameUDPAddr (Some src) (Some server)) \<and>
        (\<forall>(local, _, _) \<in> set (up_log s). sameUDPAddr (Some local) (Some dst)) \<and> up_log s \<noteq> []"
      using up down res by fastforce
    show "down_log s \<noteq> [] \<longrightarrow> (\<exists>pad. length pad = 3 \<and> snd (snd (hd (down_log s))) = UdpFrameTypeWelcome # pad @ bytes_of peer)"
      using first(2) welcome_form unfolding peer [symmetric] by blast
  qed (use up first(1) in blast)+
qed

text \<open>A local run: the plugin's hello goes up, a stranger's datagram does not, the welcome comes down.\<close>

definition demo_net_host :: net_host where
  "demo_net_host = \<lparr>resolve_udp = (\<lambda>s. if s = ''server'' then Some \<lparr>IP = [192, 0, 2, 9], Port = 18902, Zone = ''''\<rparr>
       else Some \<lparr>IP = [127, 0, 0, 1], Port = 0, Zone = ''''\<rparr>),
     listen_udp = (\<lambda>_ a. Some (a\<lparr>Port := 40000\<rparr>))\<rparr>"

definition demo_proxy :: udp_proxy where
  "demo_proxy = \<lparr>loopbackConn = \<lparr>IP = [127, 0, 0, 1], Port = 40000, Zone = ''''\<rparr>,
     upstreamConn = \<lparr>IP = IPv4zero, Port = 40000, Zone = ''''\<rparr>,
     upstream_addr = \<lparr>IP = [192, 0, 2, 9], Port = 18902, Zone = ''''\<rparr>, expectedPeer = of_bytes [1],
     expectedToken = of_bytes [2], pendingAddr = None, pluginAddr = None\<rparr>"

definition demo_plugin :: UDPAddr where
  "demo_plugin = \<lparr>IP = [127, 0, 0, 1], Port = 50000, Zone = ''''\<rparr>"

definition demo_session_hello :: "byte list" where
  "demo_session_hello = PackUdpHello \<lparr>HelloPeerID = of_bytes [1], HelloToken = of_bytes [2]\<rparr> []"

definition demo_events :: "proxy_event list" where
  "demo_events =
     [PluginDatagram [0xA1, 7] demo_plugin,
      PluginDatagram demo_session_hello demo_plugin,
      PluginDatagram demo_session_hello (demo_plugin\<lparr>Port := 50001\<rparr>),
      UpstreamDatagram (PackUdpWelcome (of_bytes [1]) []) (upstream_addr demo_proxy)]"

lemma demo_new: "newUDPProxy demo_net_host ''local'' ''server'' (of_bytes [1]) (of_bytes [2]) = (Inr demo_proxy, 2)"
  by (simp add: newUDPProxy_def demo_net_host_def demo_proxy_def IsLoopback_def To4_def Let_def)

lemma demo_proxy_run:
  "fold react demo_events (start_proxy demo_proxy) =
     \<lparr>proxy = demo_proxy\<lparr>pluginAddr := Some demo_plugin\<rparr>, plugin_loop = True, upstream_loop = True,
       up_log = [(demo_plugin, upstream_addr demo_proxy, demo_session_hello)],
       down_log = [(upstream_addr demo_proxy, demo_plugin, PackUdpWelcome (of_bytes [1]) [])]\<rparr>"
proof -
  let ?p = "demo_proxy\<lparr>pendingAddr := Some demo_plugin\<rparr>" and ?w = "PackUdpWelcome (of_bytes [1]) []"
  have h: "session_hello demo_proxy demo_session_hello" "session_hello ?p demo_session_hello"
    "take udpDatagramMax demo_session_hello = demo_session_hello"
    by (simp_all only: session_hello_def demo_session_hello_def UnpackUdpHello_PackUdpHello demo_proxy_def udp_proxy.simps)
      (simp add: PackUdpHello_layout udpDatagramMax_def)
  have w: "session_welcome ?p ?w" "take udpDatagramMax ?w = ?w"
    by (simp_all add: session_welcome_def PackUdpWelcome_layout udp_sizes subslice_def udpDatagramMax_def demo_proxy_def)
  have a: "\<not> session_hello demo_proxy (take udpDatagramMax [0xA1, 7])"
    by (simp add: session_hello_def udpDatagramMax_def UnpackUdpHello_def udp_sizes)
  have n: "pendingAddr demo_proxy = None" "pluginAddr demo_proxy = None"
    by (simp_all add: demo_proxy_def)
  have o: "\<not> sameUDPAddr (Some (demo_plugin\<lparr>Port := 50001\<rparr>)) (Some demo_plugin)"
    by (simp add: sameUDPAddr_def demo_plugin_def)
  have 1: "loopFromPlugin [0xA1, 7] demo_plugin demo_proxy = (demo_proxy, None)"
    and 2: "loopFromPlugin demo_session_hello demo_plugin demo_proxy = (?p, Some (upstream_addr demo_proxy, demo_session_hello))"
    and 3: "loopFromPlugin demo_session_hello (demo_plugin\<lparr>Port := 50001\<rparr>) ?p = (?p, None)"
    and 4: "loopFromUpstream ?w (upstream_addr demo_proxy) ?p =
      (demo_proxy\<lparr>pluginAddr := Some demo_plugin, pendingAddr := None\<rparr>, Some (demo_plugin, ?w))"
    unfolding from_plugin_cases from_upstream_cases Let_def h(3) w(2) using h(1,2) w(1) a n o by simp_all
  have "demo_proxy\<lparr>pluginAddr := Some demo_plugin, pendingAddr := None\<rparr> = demo_proxy\<lparr>pluginAddr := Some demo_plugin\<rparr>"
    by (simp add: demo_proxy_def)
  then show ?thesis
    by (simp add: demo_events_def start_proxy_def 1 2 3 4 logged_def)
qed

theorem only_the_session_is_relayed_witness:
  "\<exists>s. proxy_step\<^sup>*\<^sup>* (start_proxy demo_proxy) s \<and> length (up_log s) = 1 \<and>
     snd (snd (hd (up_log s))) = demo_session_hello \<and>
     (\<exists>pad. length pad = 3 \<and> snd (snd (hd (down_log s))) = UdpFrameTypeWelcome # pad @ bytes_of (of_bytes [1] :: uuid))"
proof -
  have "fst (newUDPProxy demo_net_host ''local'' ''server'' (of_bytes [1]) (of_bytes [2])) = Inr demo_proxy"
    by (simp add: demo_new)
  from only_the_session_is_relayed [OF this react_run [of _ demo_events]] show ?thesis
    by (intro exI [where x = "fold react demo_events (start_proxy demo_proxy)"] conjI react_run) (simp_all add: demo_proxy_run)
qed

section \<open>Limits of the proxy\<close>

text \<open>A read error ends its direction for good: nothing later is relayed, although the binding stays.\<close>

lemma read_error_is_final:
  assumes "proxy_step\<^sup>*\<^sup>* s t"
  shows "(\<not> plugin_loop s \<longrightarrow> \<not> plugin_loop t \<and> up_log t = up_log s) \<and>
    (\<not> upstream_loop s \<longrightarrow> \<not> upstream_loop t \<and> down_log t = down_log s)"
  using assms
proof (induction rule: rtranclp_induct)
  case (step t u)
  from step.hyps(2) obtain e where "u = react e t"
    by (rule proxy_stepE)
  with step.IH show ?case
    by (cases e) (auto split: prod.splits)
qed simp

text \<open>The unspecified address passes the check for a \<open>non-zero IP:port\<close>.\<close>

lemma unspecified_upstream_accepted:
  "\<exists>p. newUDPProxy \<lparr>resolve_udp = (\<lambda>s. if s = ''0.0.0.0:18902'' then Some \<lparr>IP = IPv4zero, Port = 18902, Zone = ''''\<rparr>
         else Some \<lparr>IP = [127, 0, 0, 1], Port = 0, Zone = ''''\<rparr>), listen_udp = (\<lambda>_ a. Some a)\<rparr>
       ''127.0.0.1:0'' ''0.0.0.0:18902'' peer tok = (Inr p, 2) \<and> IP (upstream_addr p) = IPv4zero"
  by (simp add: newUDPProxy_def IsLoopback_def To4_def IPv4zero_def v4InV6Prefix_def Let_def)

end
