(* ===== verification/Bridge_Relay.thy ===== *)
theory Bridge_Relay
  imports Bridge Base64
begin

text \<open>
  The WebSocket side of the bridge (\<open>cmd/bridge/main.go\<close>): messages are copied both ways, and the
  first welcome of the server is rewritten so that its UDP endpoint is the local proxy.
  A JSON text is decoded to a map of values; decoding, encoding and the UUID parser are parameters.
\<close>

section \<open>JSON values\<close>

text \<open>What \<open>json.Unmarshal\<close> puts in an \<open>any\<close>; a number is the bits of its \<open>float64\<close>.\<close>

datatype json_value =
  JNull | JBool bool | JNumber u64 | JString string | JArray "json_value list" | JObject "(string \<times> json_value) list"

type_synonym json_map = "(string \<times> json_value) list"

record codec =
  unmarshal_map :: "byte list \<Rightarrow> json_map option"
  marshal_map :: "json_map \<Rightarrow> byte list option"
  uuid_parse :: "string \<Rightarrow> uuid option"

section \<open>The welcome rewriter\<close>

text \<open>\<open>rw_sockets\<close> counts the sockets the rewriter's proxy holds.\<close>

record welcome_rewriter =
  listenAddr :: string
  rw_proxy :: "udp_proxy option"
  rw_sockets :: nat

text \<open>The inner map is shared with the envelope, so a change of it is seen there.\<close>

definition set_data :: "json_map \<Rightarrow> json_map \<Rightarrow> json_map" where
  "set_data envelope data = AList.update ''data'' (JObject data) envelope"

definition stripWelcomeUDP :: "codec \<Rightarrow> json_map \<Rightarrow> json_map \<Rightarrow> byte list \<Rightarrow> byte list" where
  "stripWelcomeUDP C envelope data original =
     (case marshal_map C (set_data envelope (AList.delete ''udpToken'' (AList.delete ''udpEndpoint'' data))) of
        None \<Rightarrow> original
      | Some out \<Rightarrow> out)"

text \<open>The checks on endpoint, token and peer: they pass when all three are there and well formed.\<close>

definition udp_session :: "codec \<Rightarrow> json_map \<Rightarrow> (string \<times> uuid \<times> token) option" where
  "udp_session C data =
     (case (map_of data ''udpEndpoint'', map_of data ''udpToken'', map_of data ''peerId'') of
        (Some (JString ep), Some (JString tokenText), Some (JString peerText)) \<Rightarrow>
          (case (DecodeString tokenText, uuid_parse C peerText) of
             (Some rawToken, Some peerUUID) \<Rightarrow>
               if length rawToken = UdpTokenSize \<and> EncodeToString rawToken = tokenText \<and> ep \<noteq> ''''
               then Some (ep, peerUUID, of_bytes rawToken) else None
           | _ \<Rightarrow> None)
      | _ \<Rightarrow> None)"

definition rewrite ::
  "codec \<Rightarrow> net_host \<Rightarrow> byte list \<Rightarrow> welcome_rewriter \<Rightarrow> byte list \<times> bool \<times> bool \<times> welcome_rewriter" where
  "rewrite C H payload r =
     (case unmarshal_map C payload of
        None \<Rightarrow> (payload, False, False, r)
      | Some envelope \<Rightarrow>
          if map_of envelope ''type'' \<noteq> Some (JString ''welcome'') then (payload, False, False, r)
          else
            (case map_of envelope ''data'' of
               Some (JObject data) \<Rightarrow>
                 if map_of data ''udpEndpoint'' = None \<and> map_of data ''udpToken'' = None then (payload, True, False, r)
                 else
                   (case udp_session C data of
                      None \<Rightarrow> (stripWelcomeUDP C envelope data payload, True, True, r)
                    | Some (ep, peerID, tok) \<Rightarrow>
                        (case newUDPProxy H (listenAddr r) ep peerID tok of
                           (Inl _, n) \<Rightarrow> (stripWelcomeUDP C envelope data payload, True, True, r\<lparr>rw_sockets := rw_sockets r + n\<rparr>)
                         | (Inr p, n) \<Rightarrow>
                             let data = AList.update ''udpEndpoint'' (JString (addr_String (loopbackConn p))) data in
                             (case marshal_map C (set_data envelope data) of
                                None \<Rightarrow> (stripWelcomeUDP C envelope data payload, True, True, r)
                              | Some out \<Rightarrow> (out, True, True, r\<lparr>rw_proxy := Some p, rw_sockets := rw_sockets r + n\<rparr>))))
             | _ \<Rightarrow> (payload, True, False, r)))"

text \<open>\<open>close\<close> of the rewriter closes the two sockets of its proxy.\<close>

definition close_rewriter :: "welcome_rewriter \<Rightarrow> welcome_rewriter" where
  "close_rewriter r = (case rw_proxy r of None \<Rightarrow> r | Some p \<Rightarrow> r\<lparr>rw_sockets := rw_sockets r - 2\<rparr>)"

section \<open>The relays\<close>

datatype ws_kind = WsText | WsBinary

type_synonym ws_message = "ws_kind \<times> byte list"

text \<open>
  What the reader of a connection gives until it fails: whole messages, and perhaps one whose reading
  breaks off after some bytes (the peer is gone, or the message exceeds the read limit of
  64 KiB).  \<open>accepts k\<close> is whether the other side takes the \<open>k\<close>-th message.
\<close>

datatype incoming = Whole ws_message | Broken ws_message

fun relayPassthrough :: "incoming list \<Rightarrow> (nat \<Rightarrow> bool) \<Rightarrow> ws_message list" where
  "relayPassthrough [] accepts = []"
| "relayPassthrough (Whole m # rest) accepts = (if accepts 0 then m # relayPassthrough rest (\<lambda>k. accepts (Suc k)) else [])"
| "relayPassthrough (Broken m # rest) accepts = (if accepts 0 then [m] else [])"

fun relayWithRewrite ::
  "codec \<Rightarrow> net_host \<Rightarrow> welcome_rewriter \<Rightarrow> bool \<Rightarrow> incoming list \<Rightarrow> (nat \<Rightarrow> bool) \<Rightarrow> ws_message list \<times> welcome_rewriter" where
  "relayWithRewrite C H r sniffed (Whole (mt, payload) # rest) accepts =
     (let (payload, r, sniffed) =
        (if mt = WsText \<and> \<not> sniffed then
           (case rewrite C H payload r of
              (rewritten, True, changed, r) \<Rightarrow> (rewritten, r, True)
            | (_, False, _, _) \<Rightarrow> (payload, r, sniffed))
         else (payload, r, sniffed))
      in if accepts 0 then
           (let (out, r) = relayWithRewrite C H r sniffed rest (\<lambda>k. accepts (Suc k)) in ((mt, payload) # out, r))
         else ([], r))"
| "relayWithRewrite C H r sniffed _ accepts = ([], r)"

section \<open>A plugin connection\<close>

datatype plugin_outcome =
  OriginForbidden | AcceptFailed | UpstreamUnavailable
| Relayed "ws_message list" "ws_message list" welcome_rewriter

text \<open>
  What each relay reads until it stops is given; the two run side by side, and the end of one cancels
  the other.  The rewriter is closed on the way out.
\<close>

definition handlePlugin ::
  "codec \<Rightarrow> net_host \<Rightarrow> string list \<Rightarrow> bool \<Rightarrow> bool \<Rightarrow> incoming list \<Rightarrow> (nat \<Rightarrow> bool) \<Rightarrow> incoming list \<Rightarrow> (nat \<Rightarrow> bool) \<Rightarrow> plugin_outcome" where
  "handlePlugin C H origins upgraded dialed from_plugin up_ok from_server down_ok =
     (if \<exists>origin \<in> set origins. TrimSpace origin \<noteq> '''' then OriginForbidden
      else if \<not> upgraded then AcceptFailed
      else if \<not> dialed then UpstreamUnavailable
      else
        let (down, r) = relayWithRewrite C H \<lparr>listenAddr = ''127.0.0.1:0'', rw_proxy = None, rw_sockets = 0\<rparr> False from_server down_ok
        in Relayed (relayPassthrough from_plugin up_ok) down (close_rewriter r))"

section \<open>The rewriter fails closed\<close>

definition is_welcome :: "codec \<Rightarrow> byte list \<Rightarrow> bool" where
  "is_welcome C payload \<longleftrightarrow>
     (case unmarshal_map C payload of None \<Rightarrow> False | Some envelope \<Rightarrow> map_of envelope ''type'' = Some (JString ''welcome''))"

lemma rewrite_handled: "fst (snd (rewrite C H payload r)) = is_welcome C payload"
  by (auto simp: rewrite_def is_welcome_def Let_def split: option.splits json_value.splits prod.splits sum.splits)

lemma rewrite_ignored: "\<not> is_welcome C payload \<Longrightarrow> rewrite C H payload r = (payload, False, False, r)"
  by (auto simp: rewrite_def is_welcome_def split: option.splits)

lemma strip_keys:
  assumes "d = AList.delete ''udpToken'' (AList.delete ''udpEndpoint'' data)"
  shows "map_of d ''udpEndpoint'' = None \<and> map_of d ''udpToken'' = None \<and>
    (\<forall>k. k \<notin> {''udpEndpoint'', ''udpToken''} \<longrightarrow> map_of d k = map_of data k)"
  by (simp add: assms go_map)

lemma udp_session_Some:
  assumes "udp_session C data = Some (ep, pid, tok)"
  shows "map_of data ''udpEndpoint'' = Some (JString ep) \<and> ep \<noteq> '''' \<and>
    map_of data ''udpToken'' = Some (JString (EncodeToString (bytes_of tok))) \<and>
    (\<exists>t. map_of data ''peerId'' = Some (JString t) \<and> uuid_parse C t = Some pid)"
proof -
  obtain tt pt raw where *: "map_of data ''udpEndpoint'' = Some (JString ep)" "map_of data ''udpToken'' = Some (JString tt)"
    "map_of data ''peerId'' = Some (JString pt)" "uuid_parse C pt = Some pid" "length raw = UdpTokenSize"
    "EncodeToString raw = tt" "ep \<noteq> ''''" "tok = of_bytes raw"
    using assms unfolding udp_session_def
    by (auto split: option.splits json_value.splits if_splits)
  have "bytes_of tok = raw"
    unfolding *(8) by (rule bytes_of_of_bytes) (simp add: *(5) udp_sizes)
  with * show ?thesis by auto
qed

lemma udp_session_server:
  "map_of data ''udpEndpoint'' = Some (JString ep) \<Longrightarrow> ep \<noteq> '''' \<Longrightarrow>
   map_of data ''udpToken'' = Some (JString (EncodeToString (bytes_of (tok :: token)))) \<Longrightarrow>
   map_of data ''peerId'' = Some (JString t) \<Longrightarrow> uuid_parse C t = Some pid \<Longrightarrow>
   udp_session C data = Some (ep, pid, tok)"
  by (simp add: udp_session_def decode_encode udp_sizes)

text \<open>The cases of a welcome that carries data.\<close>

lemma rewrite_cases:
  assumes "unmarshal_map C payload = Some envelope" "map_of envelope ''type'' = Some (JString ''welcome'')"
    and "map_of envelope ''data'' = Some (JObject data)"
  shows "rewrite C H payload r =
    (if map_of data ''udpEndpoint'' = None \<and> map_of data ''udpToken'' = None then (payload, True, False, r)
     else case udp_session C data of
         None \<Rightarrow> (stripWelcomeUDP C envelope data payload, True, True, r)
       | Some (ep, pid, tok) \<Rightarrow>
           (case fst (newUDPProxy H (listenAddr r) ep pid tok) of
              Inl _ \<Rightarrow> (stripWelcomeUDP C envelope data payload, True, True, r)
            | Inr p \<Rightarrow>
                (let data' = AList.update ''udpEndpoint'' (JString (addr_String (loopbackConn p))) data in
                 case marshal_map C (set_data envelope data') of
                   None \<Rightarrow> (stripWelcomeUDP C envelope data' payload, True, True, r)
                 | Some out \<Rightarrow> (out, True, True, r\<lparr>rw_proxy := Some p, rw_sockets := rw_sockets r + 2\<rparr>))))"
proof (cases "udp_session C data")
  case (Some x)
  obtain ep pid tok where x: "x = (ep, pid, tok)" by (cases x)
  have n: "newUDPProxy H (listenAddr r) ep pid tok =
      (fst (newUDPProxy H (listenAddr r) ep pid tok), if isl (fst (newUDPProxy H (listenAddr r) ep pid tok)) then 0 else 2)"
    using new_proxy_sockets [of H "listenAddr r" ep pid tok] by (metis prod.collapse)
  show ?thesis
    unfolding rewrite_def assms option.case json_value.case Some x prod.case
    by (subst n) (auto simp: assms Let_def split: sum.splits option.splits)
qed (simp add: rewrite_def assms)

text \<open>What can become of a welcome with data, when every map can be encoded.\<close>

lemma rewrite_outcomes:
  assumes e: "unmarshal_map C payload = Some envelope" "map_of envelope ''type'' = Some (JString ''welcome'')"
      "map_of envelope ''data'' = Some (JObject data)"
    and rw: "rewrite C H payload r = (out, handled, changed, r')" and total: "\<And>m. marshal_map C m \<noteq> None"
    and strip: "stripWelcomeUDP C envelope data payload = s"
  obtains (bare) "map_of data ''udpEndpoint'' = None \<and> map_of data ''udpToken'' = None"
    | (stripped) "rewrite C H payload r = (s, True, True, r)"
    | (proxied) ep p where "udp_session C data = Some (ep, expectedPeer p, expectedToken p)"
        "fst (newUDPProxy H (listenAddr r) ep (expectedPeer p) (expectedToken p)) = Inr p"
        "r' = r\<lparr>rw_proxy := Some p, rw_sockets := rw_sockets r + 2\<rparr>" "changed"
        "marshal_map C (set_data envelope (AList.update ''udpEndpoint'' (JString (addr_String (loopbackConn p))) data)) = Some out"
proof -
  note c = rewrite_cases [OF e, of H r, unfolded strip]
  show thesis
  proof (cases "udp_session C data")
    case None
    with c show thesis using that(1,2) by (auto split: if_splits)
  next
    case (Some x)
    obtain ep pid tok where x: "x = (ep, pid, tok)" by (cases x)
    show thesis
    proof (cases "fst (newUDPProxy H (listenAddr r) ep pid tok)")
      case (Inl err)
      with c Some x show thesis using that(1,2) by (auto split: if_splits)
    next
      case (Inr p)
      note n = new_proxy [OF Inr]
      obtain m where m: "marshal_map C (set_data envelope (AList.update ''udpEndpoint'' (JString (addr_String (loopbackConn p))) data)) = Some m"
        using total by blast
      show thesis
      proof (cases "map_of data ''udpEndpoint'' = None \<and> map_of data ''udpToken'' = None")
        case False
        with c Some x Inr m have "rewrite C H payload r = (m, True, True, r\<lparr>rw_proxy := Some p, rw_sockets := rw_sockets r + 2\<rparr>)"
          by (auto simp: Let_def)
        with rw m Some x Inr n show thesis
          by (intro that(3) [of ep p]) auto
      qed (rule that(1))
    qed
  qed
qed

text \<open>
  C18. The welcome is rewritten safely.  A message that is not a welcome is passed on as it is.  A welcome
  loses its UDP endpoint and its token, and keeps every other field, unless endpoint,
  token and peer form one complete session for which a proxy could be opened; only then does it name
  the proxy's loopback address, and the proxy expects exactly that peer and token.  Untouched
  welcomes carry no UDP metadata, and sockets are held exactly for an installed proxy.
\<close>

theorem welcome_rewrite_fails_closed:
  assumes rw: "rewrite C H payload r = (out, handled, changed, r')"
    and total: "\<And>m. marshal_map C m \<noteq> None"
  shows "(handled \<longleftrightarrow> is_welcome C payload) \<and>
    (if changed then
       \<exists>envelope data data'. unmarshal_map C payload = Some envelope \<and> map_of envelope ''data'' = Some (JObject data) \<and>
         marshal_map C (set_data envelope data') = Some out \<and>
         (\<forall>k. k \<notin> {''udpEndpoint'', ''udpToken''} \<longrightarrow> map_of data' k = map_of data k) \<and>
         (if r' = r then map_of data' ''udpEndpoint'' = None \<and> map_of data' ''udpToken'' = None
          else \<exists>p ep. r' = r\<lparr>rw_proxy := Some p, rw_sockets := rw_sockets r + 2\<rparr> \<and>
            udp_session C data = Some (ep, expectedPeer p, expectedToken p) \<and>
            resolve_udp H ep = Some (upstream_addr p) \<and> fresh_proxy p \<and>
            map_of data' ''udpEndpoint'' = Some (JString (addr_String (loopbackConn p))) \<and>
            map_of data' ''udpToken'' = Some (JString (EncodeToString (bytes_of (expectedToken p)))))
     else out = payload \<and> r' = r \<and>
       (\<forall>envelope data. handled \<and> unmarshal_map C payload = Some envelope \<and> map_of envelope ''data'' = Some (JObject data) \<longrightarrow>
          map_of data ''udpEndpoint'' = None \<and> map_of data ''udpToken'' = None))"
proof -
  have h: "handled \<longleftrightarrow> is_welcome C payload"
    using rewrite_handled [of C H payload r] rw by simp
  show ?thesis
  proof (cases "\<exists>envelope data. unmarshal_map C payload = Some envelope \<and>
      map_of envelope ''type'' = Some (JString ''welcome'') \<and> map_of envelope ''data'' = Some (JObject data)")
    case False
    then have "rewrite C H payload r = (payload, is_welcome C payload, False, r)"
      by (auto simp: rewrite_def is_welcome_def split: option.splits json_value.splits)
    with rw False show ?thesis
      by (auto simp: is_welcome_def split: option.splits)
  next
    case True
    then obtain envelope data where e: "unmarshal_map C payload = Some envelope"
      "map_of envelope ''type'' = Some (JString ''welcome'')" "map_of envelope ''data'' = Some (JObject data)"
      by blast
    define d where "d = AList.delete ''udpToken'' (AList.delete ''udpEndpoint'' data)"
    obtain s where s: "marshal_map C (set_data envelope d) = Some s"
      using total by blast
    have strip: "stripWelcomeUDP C envelope data payload = s"
      by (simp add: stripWelcomeUDP_def d_def [symmetric] s)
    show ?thesis
    proof (cases rule: rewrite_outcomes [OF e rw total strip, case_names bare stripped proxied])
      case bare
      with rewrite_cases [OF e, of H r] rw h e show ?thesis by (auto simp: is_welcome_def)
    next
      case stripped
      with rw h e s strip_keys [OF d_def] show ?thesis
        by auto
    next
      case (proxied ep p)
      let ?d = "AList.update ''udpEndpoint'' (JString (addr_String (loopbackConn p))) data"
      have "r' \<noteq> r"
        using proxied(3) by (cases r) auto
      moreover have "map_of ?d ''udpEndpoint'' = Some (JString (addr_String (loopbackConn p)))"
        "map_of ?d ''udpToken'' = Some (JString (EncodeToString (bytes_of (expectedToken p))))"
        "\<forall>k. k \<notin> {''udpEndpoint'', ''udpToken''} \<longrightarrow> map_of ?d k = map_of data k"
        using udp_session_Some [OF proxied(1)] by (simp_all add: go_map)
      moreover have "resolve_udp H ep = Some (upstream_addr p)" "fresh_proxy p"
        using new_proxy [OF proxied(2)] by blast+
      ultimately show ?thesis
        using h e(1,3) proxied(1,3-5) by (simp only: if_True if_False) blast
    qed
  qed
qed

text \<open>A codec that knows two welcomes, a partial one and a complete one.\<close>

definition partial_data :: json_map where
  "partial_data = [(''peerId'', JString ''p''), (''udpEndpoint'', JString ''server'')]"

definition full_data :: json_map where
  "full_data = (''udpToken'', JString (EncodeToString (bytes_of (of_bytes [2] :: token)))) # partial_data"

definition demo_codec :: codec where
  "demo_codec = \<lparr>
     unmarshal_map = (\<lambda>bs.
       if bs = [1] then Some [(''type'', JString ''welcome''), (''data'', JObject partial_data)]
       else if bs = [2] then Some [(''type'', JString ''welcome''), (''data'', JObject full_data)]
       else None),
     marshal_map = (\<lambda>m. Some [of_nat (length m)]),
     uuid_parse = (\<lambda>t. if t = ''p'' then Some (of_bytes [1]) else None)\<rparr>"

definition demo_rewriter :: welcome_rewriter where
  "demo_rewriter = \<lparr>listenAddr = ''local'', rw_proxy = None, rw_sockets = 0\<rparr>"

lemma partial_session: "udp_session demo_codec partial_data = None"
  by (simp add: udp_session_def partial_data_def)

lemma full_session: "udp_session demo_codec full_data = Some (''server'', of_bytes [1], of_bytes [2])"
  by (rule udp_session_server [where t = "''p''"]) (simp_all add: full_data_def partial_data_def demo_codec_def)

lemma demo_partial: "rewrite demo_codec demo_net_host [1] r = ([2], True, True, r)"
proof -
  have "rewrite demo_codec demo_net_host [1] r =
      (stripWelcomeUDP demo_codec [(''type'', JString ''welcome''), (''data'', JObject partial_data)] partial_data [1], True, True, r)"
    by (subst rewrite_cases [of _ _ "[(''type'', JString ''welcome''), (''data'', JObject partial_data)]" partial_data])
      (simp_all add: demo_codec_def [THEN arg_cong [where f = unmarshal_map]] partial_session, simp add: partial_data_def)
  then show ?thesis
    by (simp add: stripWelcomeUDP_def set_data_def demo_codec_def)
qed

theorem welcome_rewrite_fails_closed_witness:
  "\<exists>data'. marshal_map demo_codec (set_data [(''type'', JString ''welcome''), (''data'', JObject partial_data)] data') = Some [2] \<and>
     map_of data' ''udpEndpoint'' = None \<and> map_of data' ''peerId'' = Some (JString ''p'')"
proof -
  have total: "marshal_map demo_codec m \<noteq> None" for m
    by (simp add: demo_codec_def)
  have u: "unmarshal_map demo_codec [1] = Some [(''type'', JString ''welcome''), (''data'', JObject partial_data)]"
    by (simp add: demo_codec_def)
  have p: "map_of partial_data ''peerId'' = Some (JString ''p'')"
    by (simp add: partial_data_def)
  obtain envelope data data' where d: "unmarshal_map demo_codec [1] = Some envelope" "map_of envelope ''data'' = Some (JObject data)"
    "marshal_map demo_codec (set_data envelope data') = Some [2]"
    "\<forall>k. k \<notin> {''udpEndpoint'', ''udpToken''} \<longrightarrow> map_of data' k = map_of data k" "map_of data' ''udpEndpoint'' = None"
    using welcome_rewrite_fails_closed [OF demo_partial total] unfolding if_True simp_thms by (elim conjE exE)
  from d(1) u have e: "envelope = [(''type'', JString ''welcome''), (''data'', JObject partial_data)]"
    by simp
  with d(2) have "data = partial_data"
    by simp
  with d(4) p have "map_of data' ''peerId'' = Some (JString ''p'')"
    by simp
  with d(3,5) show ?thesis
    unfolding e by blast
qed

text \<open>
  The welcome the server writes opens a proxy.  If its data carries an endpoint, the Base64 text of
  the peer's token and the peer's identifier, and the system gives the sockets, then the plugin gets
  the welcome with the proxy's loopback address in place of the endpoint, and the proxy waits for a
  hello with exactly that peer and token.
\<close>

lemma server_welcome_opens_the_proxy:
  assumes wel: "unmarshal_map C payload = Some envelope" "map_of envelope ''type'' = Some (JString ''welcome'')"
      "map_of envelope ''data'' = Some (JObject data)"
    and fields: "map_of data ''udpEndpoint'' = Some (JString ep)" "ep \<noteq> ''''" "map_of data ''peerId'' = Some (JString t)"
      "uuid_parse C t = Some pid" "map_of data ''udpToken'' = Some (JString (EncodeToString (bytes_of (tok :: token))))"
    and system: "resolve_udp H (listenAddr r) = Some la" "IsLoopback (IP la)" "IP la \<noteq> []" "resolve_udp H ep = Some ua" "IP ua \<noteq> []"
      "1 \<le> Port ua" "listen_udp H ''udp'' la = Some lc" "\<And>net a. listen_udp H net a \<noteq> None"
    and total: "\<And>m. marshal_map C m \<noteq> None"
  shows "\<exists>p out. rewrite C H payload r = (out, True, True, r\<lparr>rw_proxy := Some p, rw_sockets := rw_sockets r + 2\<rparr>) \<and>
    marshal_map C (set_data envelope (AList.update ''udpEndpoint'' (JString (addr_String lc)) data)) = Some out \<and>
    upstream_addr p = ua \<and> (\<forall>pkt. session_hello p pkt \<longleftrightarrow> UnpackUdpHello pkt = Inr \<lparr>HelloPeerID = pid, HelloToken = tok\<rparr>)"
proof -
  have s: "udp_session C data = Some (ep, pid, tok)"
    by (rule udp_session_server [OF fields(1,2,5,3,4)])
  obtain p where p: "fst (newUDPProxy H (listenAddr r) ep pid tok) = Inr p" "loopbackConn p = lc"
  proof -
    let ?net = "if To4 (IP ua) = None then ''udp6'' else ''udp4''"
    let ?local = "\<lparr>IP = (if To4 (IP ua) = None then IPv6unspecified else IPv4zero), Port = 0, Zone = ''''\<rparr>"
    obtain uc where "listen_udp H ?net ?local = Some uc"
      using system(8) by blast
    with system(1-7) that show thesis
      by (simp add: newUDPProxy_def Let_def)
  qed
  obtain out where out: "marshal_map C (set_data envelope (AList.update ''udpEndpoint'' (JString (addr_String lc)) data)) = Some out"
    using total by blast
  have "rewrite C H payload r = (out, True, True, r\<lparr>rw_proxy := Some p, rw_sockets := rw_sockets r + 2\<rparr>)"
    by (simp add: rewrite_cases [OF wel] s p fields(1) out Let_def)
  with out new_proxy [OF p(1)] system(4) show ?thesis
    by (auto simp: session_hello_def)
qed

lemma server_welcome_opens_the_proxy_instance:
  "\<exists>p out. rewrite demo_codec demo_net_host [2] demo_rewriter = (out, True, True, demo_rewriter\<lparr>rw_proxy := Some p, rw_sockets := 2\<rparr>)"
proof -
  have u: "unmarshal_map demo_codec [2] = Some [(''type'', JString ''welcome''), (''data'', JObject full_data)]"
    by (simp add: demo_codec_def)
  have f: "map_of full_data ''udpEndpoint'' = Some (JString ''server'')" "map_of full_data ''peerId'' = Some (JString ''p'')"
    "map_of full_data ''udpToken'' = Some (JString (EncodeToString (bytes_of (of_bytes [2] :: token))))"
    by (simp_all add: full_data_def partial_data_def)
  have p: "uuid_parse demo_codec ''p'' = Some (of_bytes [1])" "marshal_map demo_codec m \<noteq> None" for m
    by (simp_all add: demo_codec_def)
  have s: "resolve_udp demo_net_host (listenAddr demo_rewriter) = Some \<lparr>IP = [127, 0, 0, 1], Port = 0, Zone = ''''\<rparr>"
    "resolve_udp demo_net_host ''server'' = Some \<lparr>IP = [192, 0, 2, 9], Port = 18902, Zone = ''''\<rparr>"
    "listen_udp demo_net_host net a = Some (a\<lparr>Port := 40000\<rparr>)" for net a
    by (simp_all add: demo_net_host_def demo_rewriter_def)
  have "\<exists>p out. rewrite demo_codec demo_net_host [2] demo_rewriter =
      (out, True, True, demo_rewriter\<lparr>rw_proxy := Some p, rw_sockets := rw_sockets demo_rewriter + 2\<rparr>)"
    using server_welcome_opens_the_proxy [OF u _ _ f(1) _ f(2) p(1) f(3) s(1) _ _ s(2) _ _ s(3) _ p(2)]
    by (simp add: IsLoopback_def To4_def s(3)) blast
  moreover have "rw_sockets demo_rewriter + 2 = 2"
    by (simp add: demo_rewriter_def)
  ultimately show ?thesis
    by metis
qed

section \<open>The relays are transparent\<close>

fun wholes :: "incoming list \<Rightarrow> ws_message list" where
  "wholes (Whole m # rest) = m # wholes rest"
| "wholes _ = []"

text \<open>What was read of the message whose reading breaks off, if one does.\<close>

fun cut_short :: "incoming list \<Rightarrow> ws_message list" where
  "cut_short (Whole m # rest) = cut_short rest"
| "cut_short (Broken m # rest) = [m]"
| "cut_short [] = []"

text \<open>How many of \<open>n\<close> messages the other side takes before it fails.\<close>

definition accepted :: "(nat \<Rightarrow> bool) \<Rightarrow> nat \<Rightarrow> nat" where
  "accepted accepts n = length (takeWhile accepts [0..<n])"

definition text_welcome :: "codec \<Rightarrow> ws_message \<Rightarrow> bool" where
  "text_welcome C m \<longleftrightarrow> fst m = WsText \<and> is_welcome C (snd m)"

text \<open>The reference: the messages as they are, but for the first text welcome.\<close>

definition with_first_welcome :: "codec \<Rightarrow> (byte list \<Rightarrow> byte list) \<Rightarrow> ws_message list \<Rightarrow> ws_message list" where
  "with_first_welcome C f ms =
     (let i = length (takeWhile (\<lambda>m. \<not> text_welcome C m) ms)
      in if i < length ms then ms[i := (WsText, f (snd (ms ! i)))] else ms)"

lemma accepted_simps [simp]:
  "accepted accepts 0 = 0"
  "accepted accepts (Suc n) = (if accepts 0 then Suc (accepted (\<lambda>k. accepts (Suc k)) n) else 0)"
proof -
  have "[0..<Suc n] = 0 # map Suc [0..<n]"
    by (simp only: map_Suc_upt upt_conv_Cons zero_less_Suc)
  then show "accepted accepts (Suc n) = (if accepts 0 then Suc (accepted (\<lambda>k. accepts (Suc k)) n) else 0)"
    by (simp only: accepted_def takeWhile.simps takeWhile_map length_map list.size comp_def) (simp add: comp_def)
qed (simp add: accepted_def)

lemma first_welcome_Cons:
  "with_first_welcome C f (m # ms) =
     (if text_welcome C m then (WsText, f (snd m)) # ms else m # with_first_welcome C f ms)"
  by (simp add: with_first_welcome_def Let_def)

lemma passthrough_eq:
  "relayPassthrough msgs accepts =
     take (accepted accepts (length (wholes msgs))) (wholes msgs) @
     (if \<forall>k \<le> length (wholes msgs). accepts k then cut_short msgs else [])"
proof (induction msgs accepts rule: relayPassthrough.induct)
  case (2 m rest accepts)
  have "(\<forall>k \<le> Suc (length (wholes rest)). accepts k) \<longleftrightarrow> accepts 0 \<and> (\<forall>k \<le> length (wholes rest). accepts (Suc k))"
    by (metis Suc_le_mono le0 not0_implies_Suc)
  with 2 show ?case
    by auto
qed simp_all

lemma relay_sniffed:
  "relayWithRewrite C H r True msgs accepts = (take (accepted accepts (length (wholes msgs))) (wholes msgs), r)"
  by (induction msgs arbitrary: accepts rule: wholes.induct) (auto simp: Let_def split: prod.splits)

lemma relay_step:
  "relayWithRewrite C H r False (Whole (mt, payload) # rest) accepts =
    (if text_welcome C (mt, payload)
     then (if accepts 0
       then ((mt, fst (rewrite C H payload r)) # take (accepted (\<lambda>k. accepts (Suc k)) (length (wholes rest))) (wholes rest),
         snd (snd (snd (rewrite C H payload r))))
       else ([], snd (snd (snd (rewrite C H payload r)))))
     else if accepts 0
       then ((mt, payload) # fst (relayWithRewrite C H r False rest (\<lambda>k. accepts (Suc k))), snd (relayWithRewrite C H r False rest (\<lambda>k. accepts (Suc k))))
       else ([], r))"
proof (cases "text_welcome C (mt, payload)")
  case True
  obtain out changed r' where rw: "rewrite C H payload r = (out, True, changed, r')"
    using rewrite_handled [of C H payload r] True by (cases "rewrite C H payload r") (auto simp: text_welcome_def)
  with True show ?thesis
    by (simp add: text_welcome_def relay_sniffed Let_def)
next
  case False
  then show ?thesis
    by (auto simp: text_welcome_def rewrite_ignored Let_def split: prod.splits)
qed

declare relayWithRewrite.simps(1) [simp del]

lemma relay_eq:
  "fst (relayWithRewrite C H r False msgs accepts) =
     take (accepted accepts (length (wholes msgs))) (with_first_welcome C (\<lambda>p. fst (rewrite C H p r)) (wholes msgs))"
proof (induction msgs arbitrary: accepts rule: wholes.induct)
  case (1 m rest)
  then show ?case
    by (cases m) (simp add: relay_step first_welcome_Cons text_welcome_def)
qed (simp_all add: with_first_welcome_def)

lemma relay_rewriter:
  "snd (relayWithRewrite C H r False msgs accepts) \<in> insert r (range (\<lambda>p. snd (snd (snd (rewrite C H p r)))))"
proof (induction msgs arbitrary: accepts rule: wholes.induct)
  case (1 m rest)
  then show ?case
    by (cases m) (auto simp: relay_step)
qed simp_all

lemma new_proxy_count: "newUDPProxy H la ua pid tok = (x, n) \<Longrightarrow> n = (if isl x then 0 else 2)"
  using new_proxy_sockets [of H la ua pid tok] by simp

lemma rewrite_sockets:
  assumes "rw_proxy r = None" "rw_sockets r = 0"
  shows "rw_sockets (close_rewriter (snd (snd (snd (rewrite C H payload r))))) = 0"
  using assms
  by (auto simp: rewrite_def close_rewriter_def Let_def dest: new_proxy_count split: option.splits json_value.splits prod.splits sum.splits)

text \<open>
  C19. The bridge is transparent for whole messages.  A request with an \<open>Origin\<close> is refused before
  anything is dialed.  Otherwise the server gets the messages read whole from the plugin, byte for
  byte, in order, as far as it takes them, and the plugin gets the server's whole messages in the
  same way, each of the same kind and, except for the first text welcome, byte for byte; that one
  is rewritten.  The one departure is upstream and is stated with it: if the reading of a plugin's
  message breaks off after everything before it was taken, what was read of it follows as a last
  message, which the server cannot tell from a complete one; downstream a message that breaks off
  is dropped.  The sockets that the rewriter opened for the UDP proxy are closed with the connection.
\<close>

theorem bridge_is_transparent:
  "let r0 = \<lparr>listenAddr = ''127.0.0.1:0'', rw_proxy = None, rw_sockets = 0\<rparr>;
       result = handlePlugin C H origins upgraded dialed from_plugin up_ok from_server down_ok
   in (result = OriginForbidden) = (\<exists>origin \<in> set origins. TrimSpace origin \<noteq> '''') \<and>
      (case result of
         Relayed up down r \<Rightarrow>
           up = take (accepted up_ok (length (wholes from_plugin))) (wholes from_plugin) @
             (if \<forall>k \<le> length (wholes from_plugin). up_ok k then cut_short from_plugin else []) \<and>
           down = take (accepted down_ok (length (wholes from_server)))
             (with_first_welcome C (\<lambda>p. fst (rewrite C H p r0)) (wholes from_server)) \<and>
           map fst down = take (accepted down_ok (length (wholes from_server))) (map fst (wholes from_server)) \<and>
           rw_sockets r = 0
       | _ \<Rightarrow> True)"
proof -
  let ?r0 = "\<lparr>listenAddr = ''127.0.0.1:0'', rw_proxy = None, rw_sockets = 0\<rparr>"
  have kinds: "map fst (with_first_welcome C f ms) = map fst ms" for f ms
  proof (induction ms)
    case (Cons m ms)
    then show ?case
      by (simp add: first_welcome_Cons) (simp add: text_welcome_def)
  qed (simp add: with_first_welcome_def)
  have "rw_sockets (close_rewriter (snd (relayWithRewrite C H ?r0 False from_server down_ok))) = 0"
    using relay_rewriter [of C H ?r0 from_server down_ok] rewrite_sockets [of ?r0 C H]
    by (auto simp: close_rewriter_def [of ?r0])
  then show ?thesis
    by (auto simp: handlePlugin_def Let_def passthrough_eq relay_eq take_map [symmetric] kinds split_beta)
qed

text \<open>
  A session: the server sends an audio frame and the same partial welcome twice, of which the first
  is stripped; the plugin sends a whole message and half of another.
\<close>

theorem bridge_is_transparent_witness:
  "\<exists>r. handlePlugin demo_codec demo_net_host [] True True
       [Whole (WsText, [123]), Broken (WsBinary, [7])] (\<lambda>_. True)
       [Whole (WsBinary, [1]), Whole (WsText, [1]), Whole (WsText, [1]), Broken (WsText, [8])] (\<lambda>_. True) =
     Relayed [(WsText, [123]), (WsBinary, [7])] [(WsBinary, [1]), (WsText, [2]), (WsText, [1])] r \<and> rw_sockets r = 0"
proof -
  have w: "is_welcome demo_codec [1]"
    by (simp add: is_welcome_def demo_codec_def)
  show ?thesis
    using bridge_is_transparent [of demo_codec demo_net_host "[]" True True
        "[Whole (WsText, [123]), Broken (WsBinary, [7])]" "\<lambda>_. True"
        "[Whole (WsBinary, [1]), Whole (WsText, [1]), Whole (WsText, [1]), Broken (WsText, [8])]" "\<lambda>_. True"]
    by (auto simp: handlePlugin_def first_welcome_Cons text_welcome_def w demo_partial Let_def split: prod.splits)
qed

text \<open>
  The departure at work: the plugin's only message breaks off after one byte, and the server gets
  that byte as a message of the plugin.
\<close>

lemma broken_message_is_delivered:
  "wholes [Broken (WsText, [123])] = [] \<and> relayPassthrough [Broken (WsText, [123])] (\<lambda>_. True) = [(WsText, [123])]"
  by simp

end
