(* ===== verification/Wire_Bridge.thy ===== *)
theory Wire_Bridge
  imports Wire_Run Bridge_Relay "HOL-Library.List_Lexorder" "HOL-Library.Char_ord"
begin

text \<open>
  The bridge's JSON: a text decoded to a \<open>map[string]any\<close> and written again, as the welcome rewriter of
  \<open>cmd/bridge/main.go\<close> does it, and the way of a welcome from the server through the bridge to the plugin.
  How \<open>strconv\<close> reads and writes a \<open>float64\<close>, and \<open>uuid.Parse\<close>, are parameters.
\<close>

declare map_of_eq_Some_iff [simp del]
declare Some_eq_map_of_iff [simp del]

section \<open>Decoding into any\<close>

text \<open>A number out of range is an error; of members with the same key the last one stays.\<close>

fun any_value :: "(string \<Rightarrow> u64 option) \<Rightarrow> jtext \<Rightarrow> json_value option"
  and any_values :: "(string \<Rightarrow> u64 option) \<Rightarrow> jtext list \<Rightarrow> json_value list option"
  and any_members :: "(string \<Rightarrow> u64 option) \<Rightarrow> (string \<times> string \<times> jtext) list \<Rightarrow> json_map \<Rightarrow> json_map option" where
  "any_value pf TNull = Some JNull"
| "any_value pf (TBool b) = Some (JBool b)"
| "any_value pf (TNumber x) = map_option JNumber (pf x)"
| "any_value pf (TString s) = Some (JString s)"
| "any_value pf (TArray vs) = map_option JArray (any_values pf vs)"
| "any_value pf (TObject ms) = map_option JObject (any_members pf ms [])"
| "any_values pf [] = Some []"
| "any_values pf (v # vs) =
     (case any_value pf v of None \<Rightarrow> None | Some x \<Rightarrow> map_option ((#) x) (any_values pf vs))"
| "any_members pf [] m = Some m"
| "any_members pf ((k, _, v) # ms) m =
     (case any_value pf v of None \<Rightarrow> None | Some x \<Rightarrow> any_members pf ms (AList.update k x m))"

definition go_unmarshal_map :: "(string \<Rightarrow> u64 option) \<Rightarrow> byte list \<Rightarrow> json_map option" where
  "go_unmarshal_map pf b =
     (case parse_json (as_text b) of
        Some (TObject ms) \<Rightarrow> any_members pf ms []
      | Some TNull \<Rightarrow> Some []
      | _ \<Rightarrow> None)"

section \<open>Encoding\<close>

text \<open>The keys of a map are written in the order of their bytes.\<close>

primrec any_text :: "(u64 \<Rightarrow> string) \<Rightarrow> json_value \<Rightarrow> jtext" where
  "any_text ff JNull = TNull"
| "any_text ff (JBool b) = TBool b"
| "any_text ff (JNumber x) = TNumber (ff x)"
| "any_text ff (JString s) = TString s"
| "any_text ff (JArray vs) = TArray (map (any_text ff) vs)"
| "any_text ff (JObject m) = obj (sort_key fst (map (map_prod id (any_text ff)) m))"

definition go_codec :: "(string \<Rightarrow> u64 option) \<Rightarrow> (u64 \<Rightarrow> string) \<Rightarrow> (string \<Rightarrow> uuid option) \<Rightarrow> codec" where
  "go_codec pf ff parse =
     \<lparr>unmarshal_map = go_unmarshal_map pf,
      marshal_map = (\<lambda>m. Some (to_bytes (print_json (any_text ff (JObject m))))),
      uuid_parse = parse\<rparr>"

section \<open>A welcome on its way\<close>

text \<open>
  Fields the rewriter does not know are not kept verbatim: of two numbers that read as the same
  \<open>float64\<close> at least one is written differently from how it was read.
\<close>

lemma number_not_verbatim:
  "pf x = Some v \<Longrightarrow> pf y = Some v \<Longrightarrow> x \<noteq> y \<Longrightarrow>
    \<exists>t \<in> {x, y}. map_option (any_text ff) (any_value pf (TNumber t)) \<noteq> Some (TNumber t)"
  by auto

text \<open>The maps of a welcome.\<close>

definition welcome_map :: "WelcomeData \<Rightarrow> json_map" where
  "welcome_map w = [(''peerId'', JString (welcome_PeerID w)), (''serverVersion'', JString (welcome_ServerVersion w)),
     (''udpEndpoint'', JString (welcome_UdpEndpoint w)), (''udpToken'', JString (welcome_UdpToken w))]"

definition envelope_map :: "u64 \<Rightarrow> string \<Rightarrow> json_map \<Rightarrow> json_map" where
  "envelope_map one i data =
     [(''type'', JString ''welcome''), (''v'', JNumber one)] @ (if i = '''' then [] else [(''id'', JString i)]) @ [(''data'', JObject data)]"

definition utf8_welcome :: "WelcomeData \<Rightarrow> bool" where
  "utf8_welcome w \<longleftrightarrow> ValidUTF8 (welcome_PeerID w) \<and> ValidUTF8 (welcome_ServerVersion w) \<and>
     ValidUTF8 (welcome_UdpEndpoint w) \<and> ValidUTF8 (welcome_UdpToken w)"

lemma welcome_parsed:
  assumes "utf8_welcome w" "ValidUTF8 i" "welcome_UdpEndpoint w \<noteq> ''''" "welcome_UdpToken w \<noteq> ''''" "pf (show_int 1) = Some one"
  shows "go_unmarshal_map pf (message ''welcome'' i (welcome_json w)) = Some (envelope_map one i (welcome_map w))"
  using assms payload_sendable [of "Welcome w"]
  by (simp add: go_unmarshal_map_def parse_message obj_facts obj_member_def clean_ascii clean_valid
      opt_text_def num_def welcome_json_def welcome_map_def envelope_map_def utf8_welcome_def ProtocolVersion_def)

lemma data_texts:
  "any_text ff (JObject (welcome_map w)) = obj [(''peerId'', TString (welcome_PeerID w)), (''serverVersion'', TString (welcome_ServerVersion w)),
     (''udpEndpoint'', TString (welcome_UdpEndpoint w)), (''udpToken'', TString (welcome_UdpToken w))]"
  "any_text ff (JObject (take 2 (welcome_map w))) = obj [(''peerId'', TString (welcome_PeerID w)), (''serverVersion'', TString (welcome_ServerVersion w))]"
  by (simp_all add: welcome_map_def sort_key_def)

lemma envelope_text:
  "any_text ff (JObject (AList.update ''data'' (JObject d) (envelope_map one i data))) =
     obj ([(''data'', any_text ff (JObject d))] @ opt_text ''id'' i @ [(''type'', TString ''welcome''), (''v'', TNumber (ff one))])"
  by (simp add: envelope_map_def opt_text_def sort_key_def del: any_text.simps(6)) (simp add: sort_key_def)

lemma data_sendable: "sendable (any_text ff (JObject (welcome_map w)))" "sendable (any_text ff (JObject (take 2 (welcome_map w))))"
  unfolding data_texts by (intro sendable_flat; simp)+

lemma data_read:
  "read_welcome (to_bytes (print_json (any_text ff (JObject (welcome_map w))))) = clean_welcome w"
  "read_welcome (to_bytes (print_json (any_text ff (JObject (take 2 (welcome_map w)))))) =
     clean_welcome (w\<lparr>welcome_UdpEndpoint := '''', welcome_UdpToken := ''''\<rparr>)"
  unfolding data_texts
  by (cases w; simp add: read_welcome_def unmarshal_obj welcome_fields_def struct_simps clean_welcome_def)+

lemma clean_valid_welcome:
  "utf8_welcome w \<Longrightarrow> clean_welcome (w\<lparr>welcome_UdpEndpoint := a\<rparr>) = w\<lparr>welcome_UdpEndpoint := clean a\<rparr>"
  "utf8_welcome w \<Longrightarrow> clean_welcome (w\<lparr>welcome_UdpEndpoint := a, welcome_UdpToken := b\<rparr>) =
     w\<lparr>welcome_UdpEndpoint := clean a, welcome_UdpToken := clean b\<rparr>"
  by (cases w; simp add: clean_welcome_def utf8_welcome_def clean_valid)+

lemma envelope_read:
  assumes "ValidUTF8 i" "x = show_int 1" "sendable d"
  shows "Decode go_json (to_bytes (print_json (obj ([(''data'', d)] @ opt_text ''id'' i @ [(''type'', TString ''welcome''), (''v'', TNumber x)])))) =
    Some \<lparr>Type = ''welcome'', V = 1, ID = i, Data = to_bytes (print_json d)\<rparr>"
proof -
  have "Atoi (show_int 1) = Some 1"
    by (rule Atoi_show_int) simp_all
  with assms show ?thesis
    by (simp add: Decode_def go_json_def unmarshal_obj opt_text_def struct_simps envelope_fields_def raw_field_def)
qed


text \<open>The rewriter on a welcome as the server writes it, by what opening the proxy gives.\<close>

lemma data_maps:
  "AList.update ''udpEndpoint'' (JString a) (welcome_map w) = welcome_map (w\<lparr>welcome_UdpEndpoint := a\<rparr>)"
  "AList.delete ''udpToken'' (AList.delete ''udpEndpoint'' (welcome_map w)) = take 2 (welcome_map w)"
  by (simp_all add: welcome_map_def)

lemma rewritten_welcome:
  fixes tok :: token
  assumes "utf8_welcome w" "ValidUTF8 i" "welcome_UdpEndpoint w \<noteq> ''''" "welcome_UdpToken w = EncodeToString (bytes_of tok)"
    and "parse (welcome_PeerID w) = Some pid" "pf (show_int 1) = Some one"
  shows "rewrite (go_codec pf ff parse) H (message ''welcome'' i (welcome_json w)) r =
    (case fst (newUDPProxy H (listenAddr r) (welcome_UdpEndpoint w) pid tok) of
       Inl _ \<Rightarrow> (to_bytes (print_json (any_text ff (JObject (set_data (envelope_map one i (welcome_map w)) (take 2 (welcome_map w)))))), True, True, r)
     | Inr p \<Rightarrow> (to_bytes (print_json (any_text ff (JObject (set_data (envelope_map one i (welcome_map w))
           (welcome_map (w\<lparr>welcome_UdpEndpoint := addr_String (loopbackConn p)\<rparr>)))))), True, True,
         r\<lparr>rw_proxy := Some p, rw_sockets := rw_sockets r + 2\<rparr>))"
proof -
  let ?C = "go_codec pf ff parse"
  have tok: "welcome_UdpToken w \<noteq> ''''"
  proof
    assume "welcome_UdpToken w = ''''"
    then have "bytes_of tok = []"
      using decode_encode [of "bytes_of tok"] decode_encode [of "[]"] assms(4) by simp
    moreover have "length (bytes_of tok) = 32"
      by simp
    ultimately show False by simp
  qed
  have m: "unmarshal_map ?C (message ''welcome'' i (welcome_json w)) = Some (envelope_map one i (welcome_map w))"
    using welcome_parsed [where pf = pf and one = one, OF assms(1-3) tok assms(6)] by (simp add: go_codec_def)
  have e: "map_of (envelope_map one i (welcome_map w)) ''type'' = Some (JString ''welcome'')"
    "map_of (envelope_map one i (welcome_map w)) ''data'' = Some (JObject (welcome_map w))"
    by (simp_all add: envelope_map_def)
  have d: "map_of (welcome_map w) ''udpEndpoint'' = Some (JString (welcome_UdpEndpoint w))"
    by (simp add: welcome_map_def)
  have s: "udp_session ?C (welcome_map w) = Some (welcome_UdpEndpoint w, pid, tok)"
    by (rule udp_session_server [of _ _ _ "welcome_PeerID w"]) (use assms(3-5) in \<open>simp_all add: welcome_map_def go_codec_def\<close>)
  show ?thesis
    unfolding rewrite_cases [OF m e] s d stripWelcomeUDP_def data_maps Let_def
    by (simp add: go_codec_def split: sum.split)
qed

text \<open>
  C17. A welcome crosses the bridge.  When the server encodes a welcome with an endpoint and the Base64 text
  of the peer's token, the text that the bridge passes on decodes at the plugin to a welcome under the
  same request id with the same fields, but for the endpoint, which is the loopback address of the
  proxy that the bridge opened for exactly that endpoint, peer and token; if no proxy could be opened, it is
  the same welcome without UDP.
\<close>

theorem welcome_crosses_the_bridge:
  assumes "utf8_welcome w" "ValidUTF8 i" "welcome_UdpEndpoint w \<noteq> ''''" "welcome_UdpToken w = EncodeToString (bytes_of (tok :: token))"
    and "parse (welcome_PeerID w) = Some pid" "pf (show_int 1) = Some one" "ff one = show_int 1"
    and "Encode go_json TypeWelcome i (Welcome w) = Some body"
  shows "\<exists>out env. fst (rewrite (go_codec pf ff parse) H body r) = out \<and>
    Decode go_json out = Some env \<and> Type env = ''welcome'' \<and> V env = 1 \<and> ID env = i \<and>
    (case newUDPProxy H (listenAddr r) (welcome_UdpEndpoint w) pid tok of
       (Inr p, _) \<Rightarrow> read_welcome (Data env) = w\<lparr>welcome_UdpEndpoint := clean (addr_String (loopbackConn p))\<rparr> \<and>
         expectedPeer p = pid \<and> expectedToken p = tok \<and> resolve_udp H (welcome_UdpEndpoint w) = Some (upstream_addr p) \<and>
         rw_proxy (snd (snd (snd (rewrite (go_codec pf ff parse) H body r)))) = Some p
     | (Inl _, _) \<Rightarrow> read_welcome (Data env) = w\<lparr>welcome_UdpEndpoint := '''', welcome_UdpToken := ''''\<rparr> \<and>
         snd (snd (snd (rewrite (go_codec pf ff parse) H body r))) = r)"
proof -
  have b: "body = message ''welcome'' i (welcome_json w)"
    using Encode_go [of TypeWelcome i "Welcome w"] assms(8) by simp
  note rw = rewritten_welcome [where pf = pf and one = one and ff = ff and H = H and r = r and parse = parse and pid = pid and w = w and tok = tok, OF assms(1-6)]
  have env: "Decode go_json (to_bytes (print_json (any_text ff (JObject (set_data (envelope_map one i (welcome_map w)) d))))) =
      Some \<lparr>Type = ''welcome'', V = 1, ID = i, Data = to_bytes (print_json (any_text ff (JObject d)))\<rparr>"
    if "sendable (any_text ff (JObject d))" for d
    using envelope_read [OF assms(2,7) that] unfolding set_data_def envelope_text .
  show ?thesis
  proof (cases "newUDPProxy H (listenAddr r) (welcome_UdpEndpoint w) pid tok")
    case (Pair res n)
    show ?thesis
    proof (cases res)
      case (Inl e)
      with env [OF data_sendable(2)] data_read(2) Pair show ?thesis
        unfolding b rw by (simp add: clean_valid_welcome assms(1))
    next
      case (Inr p)
      with env [OF data_sendable(1)] data_read(1) Pair new_proxy [of H "listenAddr r" "welcome_UdpEndpoint w" pid tok p] show ?thesis
        unfolding b rw by (simp add: clean_valid_welcome assms(1))
    qed
  qed
qed


definition demo_welcome :: WelcomeData where
  "demo_welcome = \<lparr>welcome_PeerID = ''p'', welcome_ServerVersion = ''dev'', welcome_UdpEndpoint = ''server'',
     welcome_UdpToken = EncodeToString (bytes_of (of_bytes [2] :: token))\<rparr>"

lemma demo_welcome_utf8: "utf8_welcome demo_welcome"
  by (simp add: utf8_welcome_def demo_welcome_def utf8_ascii ascii_base64)

lemma show_one: "show_int 1 = ''1''"
  by code_simp

lemma demo_opens: "\<exists>p n. newUDPProxy demo_net_host (listenAddr demo_rewriter) (welcome_UdpEndpoint demo_welcome) pid tok = (Inr p, n)"
  unfolding newUDPProxy_def Let_def demo_net_host_def demo_rewriter_def demo_welcome_def
  by (simp add: IsLoopback_def To4_def)

theorem welcome_crosses_the_bridge_witness:
  "\<exists>body out env (p :: udp_proxy). Encode go_json TypeWelcome ''1'' (Welcome demo_welcome) = Some body \<and>
    fst (rewrite (go_codec (\<lambda>x. if x = ''1'' then Some 1 else None) (\<lambda>_. ''1'') (\<lambda>_. Some (of_bytes [1]))) demo_net_host body demo_rewriter) = out \<and>
    Decode go_json out = Some env \<and> expectedPeer p = of_bytes [1] \<and>
    read_welcome (Data env) = demo_welcome\<lparr>welcome_UdpEndpoint := clean (addr_String (loopbackConn p))\<rparr>"
proof -
  let ?pf = "\<lambda>x. if x = ''1'' then Some (1 :: u64) else None" and ?ff = "\<lambda>_ :: u64. ''1''"
    and ?up = "\<lambda>_ :: string. Some (of_bytes [1] :: uuid)"
  obtain p n where p: "newUDPProxy demo_net_host (listenAddr demo_rewriter) (welcome_UdpEndpoint demo_welcome) (of_bytes [1]) (of_bytes [2]) = (Inr p, n)"
    using demo_opens by blast
  obtain body where b: "Encode go_json TypeWelcome ''1'' (Welcome demo_welcome) = Some body"
    by (simp add: Encode_go)
  have "welcome_UdpEndpoint demo_welcome \<noteq> ''''" "ValidUTF8 ''1''"
    "welcome_UdpToken demo_welcome = EncodeToString (bytes_of (of_bytes [2] :: token))"
    by (simp_all add: demo_welcome_def ValidUTF8_def)
  note w = welcome_crosses_the_bridge [where pf = ?pf and ff = ?ff and parse = ?up and one = 1 and H = demo_net_host
      and r = demo_rewriter, OF demo_welcome_utf8 this(2) this(1) this(3) refl _ _ b]
  have "?pf (show_int 1) = Some 1" "?ff 1 = show_int 1"
    by (simp_all add: show_one)
  from w [OF this, unfolded p prod.case sum.case] obtain env where
    "Decode go_json (fst (rewrite (go_codec ?pf ?ff ?up) demo_net_host body demo_rewriter)) = Some env" "expectedPeer p = of_bytes [1]"
    "read_welcome (Data env) = demo_welcome\<lparr>welcome_UdpEndpoint := clean (addr_String (loopbackConn p))\<rparr>"
    by blast
  with b show ?thesis
    by blast
qed

end
