(* ===== verification/Bridge_Run.thy ===== *)
theory Bridge_Run
  imports Bridge Udp_Run
begin

text \<open>
  The bridge between a plugin and the server: the proxy of \<open>cmd/bridge\<close> in front of the UDP server
  of \<open>internal/udp\<close>, from the plugin's hello to audio in both directions.
\<close>

declare map_of_eq_Some_iff [simp del]
declare Some_eq_map_of_iff [simp del]

lemma hello_whole:
  "take maxDatagramSize (PackUdpHello h []) = PackUdpHello h []"
  "take udpDatagramMax (PackUdpHello h []) = PackUdpHello h []"
  "PackUdpHello h [] \<noteq> []" "hd (PackUdpHello h []) = UdpFrameTypeHello"
  by (simp_all add: PackUdpHello_layout maxDatagramSize_def udpDatagramMax_def)

lemma receive_hello: "receive net (PackUdpHello h []) src w = handleHello net (PackUdpHello h []) src w"
  by (simp add: receive_def hello_whole Let_def) (simp add: udp_types AudioFrameType_def)

lemma session_hello_ok: "session_hello p (PackUdpHello \<lparr>HelloPeerID = expectedPeer p, HelloToken = expectedToken p\<rparr> [])"
  by (simp only: session_hello_def UnpackUdpHello_PackUdpHello)

lemma session_welcome_ok:
  "session_welcome p (PackUdpWelcome (expectedPeer p) [])"
  "take udpDatagramMax (PackUdpWelcome pid []) = PackUdpWelcome pid []"
  by (simp_all add: session_welcome_def PackUdpWelcome_layout udp_sizes subslice_def udpDatagramMax_def)

text \<open>An attached peer that has a token and no binding yet, at an address nobody holds.\<close>

definition awaits_hello :: "world \<Rightarrow> uuid \<Rightarrow> peer_ref \<Rightarrow> token \<Rightarrow> UDPAddr \<Rightarrow> bool" where
  "awaits_hello w pid p tok pub \<longleftrightarrow>
     map_of (peerByID (wudp w)) pid = Some p \<and> map_of (tokenByID (wudp w)) pid = Some tok \<and>
     udpAddr (the_peer w p) = None \<and> map_of (peerByAddr (wudp w)) (addr_String pub) = None \<and>
     snd (hello_limited w pid)"

lemma awaited_verdict:
  "awaits_hello w pid p tok pub \<Longrightarrow>
    hello_verdict (PackUdpHello \<lparr>HelloPeerID = pid, HelloToken = tok\<rparr> []) pub w = (Accepted, p, tok)"
  by (simp add: hello_verdict_def UnpackUdpHello_PackUdpHello awaits_hello_def)

lemma awaited_receive:
  "awaits_hello w pid p tok pub \<Longrightarrow>
    receive net (PackUdpHello \<lparr>HelloPeerID = pid, HelloToken = tok\<rparr> []) pub w =
    reply_welcome net pid pub (bound pub p tok (hello_charged (PackUdpHello \<lparr>HelloPeerID = pid, HelloToken = tok\<rparr> []) w))"
  by (simp add: receive_hello handleHello_eq awaited_verdict UnpackUdpHello_PackUdpHello)

text \<open>A bound proxy is a wire between the plugin and the server.\<close>

lemma bound_proxy_is_a_wire:
  assumes "pluginAddr p = Some src"
  shows "loopFromPlugin d src p = (p, Some (upstream_addr p, take udpDatagramMax d))"
    and "loopFromUpstream d (upstream_addr p) p = (p, Some (src, take udpDatagramMax d))"
  using assms by (simp_all add: from_plugin_cases from_upstream_cases Let_def)

text \<open>The steps of the handshake at a fresh proxy and at the server.\<close>

lemma proxied_hello:
  fixes P :: udp_proxy
  assumes "fresh_proxy P"
  defines "h \<equiv> PackUdpHello \<lparr>HelloPeerID = expectedPeer P, HelloToken = expectedToken P\<rparr> []"
  shows "loopFromPlugin h src P = (P\<lparr>pendingAddr := Some src\<rparr>, Some (upstream_addr P, h))"
  using assms session_hello_ok [of P] by (simp add: from_plugin_cases fresh_proxy_def hello_whole Let_def)

lemma proxied_welcome:
  fixes P :: udp_proxy
  assumes "fresh_proxy P"
  defines "w \<equiv> PackUdpWelcome (expectedPeer P) []"
  shows "loopFromUpstream w (upstream_addr P) (P\<lparr>pendingAddr := Some src\<rparr>) =
    (P\<lparr>pluginAddr := Some src, pendingAddr := None\<rparr>, Some (src, w))"
proof -
  have "session_welcome (P\<lparr>pendingAddr := Some src\<rparr>) w"
    using session_welcome_ok(1) [of "P\<lparr>pendingAddr := Some src\<rparr>"] by (simp add: w_def)
  with assms(1) show ?thesis
    by (simp add: from_upstream_cases fresh_proxy_def session_welcome_ok w_def Let_def)
qed

lemma hello_answered:
  assumes "awaits_hello w pid p tok pub" "net pub (PackUdpWelcome pid [])"
  defines "w1 \<equiv> receive net (PackUdpHello \<lparr>HelloPeerID = pid, HelloToken = tok\<rparr> []) pub w"
  shows "datagrams w1 = datagrams w @ [(pub, PackUdpWelcome pid [])]" "udpAddr (the_peer w1 p) = Some pub"
  using assms(2) by (simp_all add: w1_def awaited_receive [OF assms(1), of net] bound_def)

text \<open>
  C15. The handshake completes through the bridge.  When the plugin sends the hello of its session, the
  proxy passes it on, the server answers it with a welcome to the bridge's public address and
  binds the peer to it, and that welcome binds the plugin at the proxy and reaches it.  From
  then on the proxy is a wire: audio of the peer sent by the plugin is accepted by the server
  (within the rate limit), and whatever the server sends reaches the plugin.
\<close>

theorem bridge_completes_the_handshake:
  fixes P :: udp_proxy
  assumes inv: "udp_inv w" and waits: "awaits_hello w (expectedPeer P) p (expectedToken P) pub"
    and fresh: "fresh_proxy P" and up: "net pub (PackUdpWelcome (expectedPeer P) [])"
  shows "let hello = PackUdpHello \<lparr>HelloPeerID = expectedPeer P, HelloToken = expectedToken P\<rparr> [];
      welcome_pkt = PackUdpWelcome (expectedPeer P) [];
      (P1, out) = loopFromPlugin hello src P;
      w1 = receive net hello pub w;
      (P2, back) = loopFromUpstream welcome_pkt (upstream_addr P) P1
    in out = Some (upstream_addr P, hello) \<and> datagrams w1 = datagrams w @ [(pub, welcome_pkt)] \<and>
      udpAddr (the_peer w1 p) = Some pub \<and> back = Some (src, welcome_pkt) \<and> pluginAddr P2 = Some src \<and>
      (\<forall>d. loopFromPlugin d src P2 = (P2, Some (upstream_addr P, take udpDatagramMax d)) \<and>
         loopFromUpstream d (upstream_addr P) P2 = (P2, Some (src, take udpDatagramMax d))) \<and>
      (\<forall>frame hdr payload. Unpack frame = Inr (hdr, payload) \<and> SourcePeerID hdr = expectedPeer P \<and>
         snd (audio_limited w1 (expectedPeer P)) \<longrightarrow> (\<exists>b. bindPeer b = p \<and> audio_accepts frame pub w1 b))"
proof -
  let ?h = "PackUdpHello \<lparr>HelloPeerID = expectedPeer P, HelloToken = expectedToken P\<rparr> []"
  let ?w = "PackUdpWelcome (expectedPeer P) []"
  let ?P1 = "P\<lparr>pendingAddr := Some src\<rparr>" and ?P2 = "P\<lparr>pluginAddr := Some src, pendingAddr := None\<rparr>"
  let ?w1 = "receive net ?h pub w"
  note r = awaited_receive [OF waits, of net]
  have pid: "peerID (the_peer w p) = expectedPeer P"
    using waits inv_attached [OF inv] by (auto simp: awaits_hello_def)
  note 3 = hello_answered [where net = net, OF waits up]
  have b: "map_of (peerByAddr (wudp ?w1)) (addr_String pub) =
      Some \<lparr>bindPeer = p, bindAddr = pub, bindToken = expectedToken P, lastSeen = now (on_peer p (SetUdpAddr (Some pub)) w)\<rparr>"
    "peerID (the_peer ?w1 p) = expectedPeer P"
    using pid by (simp_all add: r bound_def go_map)
  have 4: "\<exists>b. bindPeer b = p \<and> audio_accepts frame pub ?w1 b"
    if "Unpack frame = Inr (hdr, payload)" "SourcePeerID hdr = expectedPeer P" "snd (audio_limited ?w1 (expectedPeer P))"
    for frame hdr payload
    using that b by (auto simp: audio_accepts_def)
  show ?thesis
    using 3 bound_proxy_is_a_wire [of ?P2 src] by (simp add: Let_def proxied_hello [OF fresh] proxied_welcome [OF fresh]) (blast intro: 4)
qed

theorem bridge_completes_the_handshake_witness:
  "udpAddr (the_peer (receive all_net demo_hello demo_addr demo_session) 0) = Some demo_addr"
proof -
  let ?P = "demo_proxy\<lparr>expectedToken := demo_token\<rparr>"
  have P: "expectedPeer ?P = demo_id" "expectedToken ?P = demo_token" "fresh_proxy ?P"
    by (simp_all add: demo_proxy_def fresh_proxy_def)
  have "awaits_hello demo_session (expectedPeer ?P) 0 (expectedToken ?P) demo_addr"
    unfolding P by (simp add: awaits_hello_def hello_limited_def limiter_eval Let_def)
  from bridge_completes_the_handshake [OF demo_session_inv this P(3), of all_net demo_plugin]
  show ?thesis
    by (simp only: P(1,2) demo_hello_def Let_def split_beta)
qed

end
