(* ===== verification/End_To_End.thy ===== *)
theory End_To_End
  imports Wire_Bridge Bridge_Run
begin

text \<open>
  The programs together: a plugin behind the bridge says hello to the server on its WebSocket, reads the
  welcome the bridge has rewritten, and binds its audio to the session over UDP.
\<close>

declare map_of_eq_Some_iff [simp del]
declare Some_eq_map_of_iff [simp del]

text \<open>The UDP hello the protocol asks of a client for a welcome; the plugin is not part of the repository.\<close>

definition plugin_hello :: "(string \<Rightarrow> uuid option) \<Rightarrow> WelcomeData \<Rightarrow> byte list" where
  "plugin_hello parse w =
     PackUdpHello \<lparr>HelloPeerID = the (parse (welcome_PeerID w)), HelloToken = of_bytes (the (DecodeString (welcome_UdpToken w)))\<rparr> []"

lemma plugin_hello_session:
  fixes tok :: token
  assumes "parse (welcome_PeerID w) = Some pid" "welcome_UdpToken w = EncodeToString (bytes_of tok)"
  shows "plugin_hello parse w = PackUdpHello \<lparr>HelloPeerID = pid, HelloToken = tok\<rparr> []"
  using assms by (simp add: plugin_hello_def decode_encode)

lemma session_welcome_utf8:
  "ValidUTF8 (version E) \<Longrightarrow> ValidUTF8 (advertised E host) \<Longrightarrow> utf8_welcome (session_welcome_data E host uid random)"
  by (simp add: utf8_welcome_def session_welcome_data_def utf8_ascii ascii_uuid ascii_base64)

text \<open>What the plugin reads when the bridge has opened a proxy.\<close>

lemma proxied_read:
  fixes tok :: token
  assumes w: "utf8_welcome w" "ValidUTF8 i" "welcome_UdpEndpoint w \<noteq> ''''" "welcome_UdpToken w = EncodeToString (bytes_of tok)"
    and pf: "parse (welcome_PeerID w) = Some pid" "pf (show_int 1) = Some one" "ff one = show_int 1"
    and P: "newUDPProxy H (listenAddr r) (welcome_UdpEndpoint w) pid tok = (Inr P, n)"
  shows "\<exists>env. Decode go_json (fst (rewrite (go_codec pf ff parse) H (message ''welcome'' i (welcome_json w)) r)) = Some env \<and>
    read_welcome (Data env) = w\<lparr>welcome_UdpEndpoint := clean (addr_String (loopbackConn P))\<rparr>"
  using envelope_read [OF w(2) pf(3) data_sendable(1)]
  unfolding rewritten_welcome [where pf = pf and one = one and ff = ff and H = H and r = r and parse = parse and pid = pid
      and w = w and tok = tok, OF w pf(1,2)] P
  by (simp add: set_data_def envelope_text data_read clean_valid_welcome w(1) del: any_text.simps)

text \<open>
  C16. A plugin reaches its room's audio through the bridge.  Let a connection that has not said hello send
  the hello that \<open>proto.Encode\<close> writes for a valid username and the server's password, let the
  server advertise a UDP endpoint, and let the bridge be able to open a proxy for it.  Then the server opens a
  session and queues one welcome; the bridge's rewriting of that very text decodes at the plugin to a
  welcome that names the proxy; the UDP hello the plugin makes of it passes the proxy to the resolved server,
  which answers it and binds the session's peer to the bridge's address; and the answer passes the
  proxy back to the plugin's source, which from then on is the one it serves.
\<close>

theorem plugin_connects_through_the_bridge:
  fixes tok :: token
  assumes conn: "c \<in> set (conns R)" "map_of (sessions R) c = None" "fresh_id uid (hall (st R))"
    and hello: "json_text E = go_json" "validUsername (hello_Username h)" "valid_payload (HelloPayload h)" "ValidUTF8 i"
      "length (hello_ServerPassword h) \<le> MaxPasswordBytes"
      "ServerPasswordHash (server E) = [] \<or> hello_ServerPassword h \<noteq> '''' \<and> passwordBusy (st R) < passwordCap E \<and>
        bcrypt_compare E (ServerPasswordHash (server E)) (hello_ServerPassword h)"
      "snd (Allow (connLimiter (st R)) ip (HelloPerIPPerMinute (Limits (server E))) Minute (clock (hall (st R))))"
      "\<forall>b. write_queue E c b False"
    and udp: "advertised E host \<noteq> ''''" "ValidUTF8 (version E)" "ValidUTF8 (advertised E host)"
    and bridge: "parse (uuid_String uid) = Some uid" "pf (show_int 1) = Some one" "ff one = show_int 1"
      "newUDPProxy H (listenAddr r) (advertised E host) uid tok = (Inr P, n)"
    and network: "map_of (peerByAddr (wudp (base (st R)))) (addr_String pub) = None" "snd (hello_limited (base (st R)) uid)"
      "net pub (PackUdpWelcome uid [])"
  shows "\<exists>b body env s' R1 R2 P1 P2.
    Encode_client TypeHello i (HelloPayload h) = Some b \<and>
    run_hello E c ip host uid (Some tok) True b (st R) = (s', Some (next_peer (hall (st R)))) \<and>
    R1 = R\<lparr>st := s', sessions := (c, next_peer (hall (st R))) # sessions R\<rparr> \<and> server_step E net R R1 \<and>
    wsframes (base s') = wsframes (base (st R)) @ [(c, body, False)] \<and>
    Decode go_json (fst (rewrite (go_codec pf ff parse) H body r)) = Some env \<and>
    welcome_UdpEndpoint (read_welcome (Data env)) = clean (addr_String (loopbackConn P)) \<and>
    loopFromPlugin (plugin_hello parse (read_welcome (Data env))) src P =
      (P1, Some (upstream_addr P, plugin_hello parse (read_welcome (Data env)))) \<and>
    resolve_udp H (advertised E host) = Some (upstream_addr P) \<and>
    R2 = R1\<lparr>st := on_base (receive net (plugin_hello parse (read_welcome (Data env))) pub) s'\<rparr> \<and> server_step E net R1 R2 \<and>
    datagrams (base (st R2)) = datagrams (base s') @ [(pub, PackUdpWelcome uid [])] \<and>
    udpAddr (peer_of (st R2) (next_peer (hall (st R)))) = Some pub \<and>
    loopFromUpstream (PackUdpWelcome uid []) (upstream_addr P) P1 = (P2, Some (src, PackUdpWelcome uid [])) \<and>
    pluginAddr P2 = Some src"
proof -
  let ?p = "next_peer (hall (st R))" and ?b = "message ''hello'' i (hello_json h)"
  let ?w = "session_welcome_data E host uid (Some tok)"
  let ?body = "message ''welcome'' i (welcome_json ?w)" and ?h = "PackUdpHello \<lparr>HelloPeerID = uid, HelloToken = tok\<rparr> []"
  obtain s' where s': "run_hello E c ip host uid (Some tok) True ?b (st R) = (s', Some ?p)"
      "wsframes (base s') = wsframes (base (st R)) @ [(c, ?body, False)]" "udp_ready uid (Some tok) ?p (base (st R)) (base s')"
    using hello_served [OF hello(1-7) _ hello(8), of "Some tok" host uid] udp(1) by blast
  let ?R1 = "R\<lparr>st := s', sessions := (c, ?p) # sessions R\<rparr>" and ?R2 = "\<lambda>R1. R1\<lparr>st := on_base (receive net ?h pub) s'\<rparr>"
  have w: "utf8_welcome ?w"
    by (rule session_welcome_utf8 [OF udp(2,3)])
  have f: "welcome_UdpEndpoint ?w = advertised E host" "welcome_PeerID ?w = uuid_String uid"
    "welcome_UdpToken ?w = EncodeToString (bytes_of tok)"
    using udp(1) by (simp_all add: session_welcome_data_def)
  have e: "welcome_UdpEndpoint ?w \<noteq> ''''" "parse (welcome_PeerID ?w) = Some uid"
    "newUDPProxy H (listenAddr r) (welcome_UdpEndpoint ?w) uid tok = (Inr P, n)"
    unfolding f by (rule udp(1), rule bridge(1), rule bridge(4))
  obtain env where env: "Decode go_json (fst (rewrite (go_codec pf ff parse) H ?body r)) = Some env"
      "read_welcome (Data env) = ?w\<lparr>welcome_UdpEndpoint := clean (addr_String (loopbackConn P))\<rparr>"
    using proxied_read [where parse = parse and pf = pf and ff = ff and one = one and H = H and r = r,
        OF w hello(4) e(1) f(3) e(2) bridge(2,3) e(3)] by blast
  have hello': "plugin_hello parse (read_welcome (Data env)) = ?h"
    using plugin_hello_session [where parse = parse and w = "read_welcome (Data env)"] env(2) f(2,3) bridge(1) by simp
  have fresh: "fresh_proxy P" "expectedPeer P = uid" "expectedToken P = tok" "resolve_udp H (advertised E host) = Some (upstream_addr P)"
    using new_proxy [of H "listenAddr r" "advertised E host" uid tok P] bridge(4) by simp_all
  have waits: "awaits_hello (base s') uid ?p tok pub"
    using s'(3) network(1,2) by (simp add: awaits_hello_def udp_ready_def hello_limited_def Let_def split: prod.splits)
  have steps: "server_step E net R ?R1" "server_step E net ?R1 (?R2 ?R1)"
    using server_step.hello [OF conn s'(1)] server_step.datagram [of E net ?R1 ?h pub] by simp_all
  have told: "welcome_UdpEndpoint (read_welcome (Data env)) = clean (addr_String (loopbackConn P))"
    by (simp add: env(2))
  note answered = hello_answered [where net = net, OF waits network(3)]
  note at_proxy = proxied_hello [OF fresh(1), unfolded fresh(2,3), of src] proxied_welcome [OF fresh(1), unfolded fresh(2), of src]
  have served: "pluginAddr (P\<lparr>pluginAddr := Some src, pendingAddr := None\<rparr>) = Some src"
    by simp
  have after: "datagrams (base (st (?R2 ?R1))) = datagrams (base s') @ [(pub, PackUdpWelcome uid [])]"
    "udpAddr (peer_of (st (?R2 ?R1)) ?p) = Some pub"
    using answered by (simp_all add: on_base_def)
  from hello_encoded [of i h] s'(1) refl steps(1) s'(2) env(1) told at_proxy(1) fresh(4) refl steps(2) after at_proxy(2) served
  show ?thesis
    unfolding hello' [symmetric] by blast
qed

definition bridge_env :: env where
  "bridge_env = udp_env\<lparr>server := (server udp_env)\<lparr>UdpEndpoint := ''server''\<rparr>\<rparr>"

lemma bridge_env_get [simp]:
  "json_text bridge_env = go_json" "HelloPerIPPerMinute (Limits (server bridge_env)) = 0" "ServerPasswordHash (server bridge_env) = [7]"
  "bcrypt_compare bridge_env h p = (h = [7] \<and> p = ''secret'')" "write_queue bridge_env = (\<lambda>_ _ _. True)" "passwordCap bridge_env = 4"
  "advertised bridge_env host = ''server''" "version bridge_env = ''dev''"
  by (simp_all add: bridge_env_def udp_env_def demo_env_def advertised_def passwordCap_def version_def)

lemma demo_upgraded_udp:
  "map_of (peerByAddr (wudp (base (st demo_upgraded)))) a = None" "snd (hello_limited (base (st demo_upgraded)) uid)"
  "fresh_id uid (hall (st demo_upgraded))"
  by (simp_all add: fresh_id_def NewRegistry_def)
    (simp_all add: demo_upgraded_def start_server_def Let_def HandleHTTP_def HandleHTTP_accepted_def world0_def hello_limited_def
      meter_def on_base_def metered_def NewServer_def)

theorem plugin_connects_through_the_bridge_witness:
  "\<exists>(P :: udp_proxy) body env (R2 :: server_run).
    Decode go_json (fst (rewrite (go_codec (\<lambda>x. if x = ''1'' then Some 1 else None) (\<lambda>_. ''1'') (\<lambda>_. Some demo_id))
      demo_net_host body demo_rewriter)) = Some env \<and>
    welcome_UdpEndpoint (read_welcome (Data env)) = clean (addr_String (loopbackConn P)) \<and>
    resolve_udp demo_net_host ''server'' = Some (upstream_addr P) \<and> udpAddr (peer_of (st R2) 0) = Some demo_addr"
proof -
  let ?pf = "\<lambda>x. if x = ''1'' then Some (1 :: u64) else None" and ?ff = "\<lambda>_ :: u64. ''1''"
    and ?up = "\<lambda>_ :: string. Some (demo_id :: uuid)"
  obtain P n where "newUDPProxy demo_net_host (listenAddr demo_rewriter) (welcome_UdpEndpoint demo_welcome) demo_id (of_bytes [9]) = (Inr P, n)"
    using demo_opens by blast
  then have P: "newUDPProxy demo_net_host (listenAddr demo_rewriter) (advertised bridge_env '''') demo_id (of_bytes [9] :: token) = (Inr P, n)"
    by (simp add: demo_welcome_def)
  have h: "validUsername (hello_Username demo_ann)" "valid_payload (HelloPayload demo_ann)" "ValidUTF8 ''1''"
    "length (hello_ServerPassword demo_ann) \<le> MaxPasswordBytes" "hello_ServerPassword demo_ann = ''secret''"
    using demo_valid(3) by (simp_all add: demo_ann_def ValidUTF8_def MaxPasswordBytes_def)
  have e: "0 \<in> set (conns demo_upgraded)" "map_of (sessions demo_upgraded) 0 = None" "all_net demo_addr (PackUdpWelcome demo_id [])"
    "ServerPasswordHash (server bridge_env) = [] \<or> hello_ServerPassword demo_ann \<noteq> '''' \<and>
      passwordBusy (st demo_upgraded) < passwordCap bridge_env \<and>
      bcrypt_compare bridge_env (ServerPasswordHash (server bridge_env)) (hello_ServerPassword demo_ann)"
    "snd (Allow (connLimiter (st demo_upgraded)) ''10.0.0.7'' (HelloPerIPPerMinute (Limits (server bridge_env))) Minute
      (clock (hall (st demo_upgraded))))" "\<forall>b. write_queue bridge_env 0 b False" "advertised bridge_env '''' \<noteq> ''''"
    "ValidUTF8 (version bridge_env)" "ValidUTF8 (advertised bridge_env '''')" "?up (uuid_String demo_id) = Some demo_id"
    "?pf (show_int 1) = Some 1" "?ff 1 = show_int 1"
    by (simp_all add: h(5) show_one ValidUTF8_def)
  have first: "next_peer (hall (st demo_upgraded)) = 0"
    by simp
  show ?thesis
    using plugin_connects_through_the_bridge [where pub = demo_addr and parse = ?up and pf = ?pf and ff = ?ff and one = 1 and src = demo_plugin,
        OF e(1,2) demo_upgraded_udp(3) bridge_env_get(1) h(1-4) e(4-10,11,12) P demo_upgraded_udp(1,2) e(3)]
    unfolding first bridge_env_get by blast
qed

end
