(* ===== verification/Url.thy ===== *)
theory Url
  imports Strs
begin

text \<open>
  Go's \<open>net/url.Parse\<close>, as the bridge uses it to check the upstream address and to find the host it
  dials: scheme, user, host, path, query and fragment of an absolute URL, with the percent decoding
  of each part.  A text that is not a URL is \<open>None\<close>.
\<close>

section \<open>Percent decoding\<close>

datatype encoding = encodePath | encodeHost | encodeZone | encodeUserPassword | encodeFragment

definition alnum :: "char \<Rightarrow> bool" where
  "alnum c \<longleftrightarrow> (97 \<le> code c \<and> code c \<le> 122) \<or> (65 \<le> code c \<and> code c \<le> 90) \<or> is_digit c"

text \<open>\<open>shouldEscape(c, encodeHost)\<close>; \<open>encodeZone\<close> treats a byte the same way.\<close>

definition host_escape :: "char \<Rightarrow> bool" where
  "host_escape c \<longleftrightarrow> \<not> (alnum c \<or> c \<in> set ''!$&()*+,;=:[]<>-_.~'' \<or> code c = 34 \<or> code c = 39)"

definition unhex :: "char \<Rightarrow> nat option" where
  "unhex c =
     (if is_digit c then Some (code c - 48)
      else if 97 \<le> code c \<and> code c \<le> 102 then Some (code c - 87)
      else if 65 \<le> code c \<and> code c \<le> 70 then Some (code c - 55)
      else None)"

text \<open>A percent triple whose digits are \<open>h\<close> and \<open>l\<close>; in a host only bytes above ASCII may be written so.\<close>

definition triple_ok :: "encoding \<Rightarrow> nat \<Rightarrow> nat \<Rightarrow> bool" where
  "triple_ok m h l =
     (case m of
        encodeHost \<Rightarrow> 8 \<le> h \<or> (h = 2 \<and> l = 5)
      | encodeZone \<Rightarrow> (h = 2 \<and> l = 5) \<or> 16 * h + l = 32 \<or> \<not> host_escape (char_of (16 * h + l))
      | _ \<Rightarrow> True)"

definition plain_ok :: "encoding \<Rightarrow> char \<Rightarrow> bool" where
  "plain_ok m c \<longleftrightarrow> \<not> ((m = encodeHost \<or> m = encodeZone) \<and> code c < 128 \<and> host_escape c)"

fun unescape :: "encoding \<Rightarrow> string \<Rightarrow> string option" where
  "unescape m [] = Some []"
| "unescape m (c # s) =
     (if c = CHR 0x25 then
        (case s of
           a # b # t \<Rightarrow>
             (case (unhex a, unhex b) of
                (Some h, Some l) \<Rightarrow>
                  if triple_ok m h l then map_option ((#) (char_of (16 * h + l))) (unescape m t) else None
              | _ \<Rightarrow> None)
         | _ \<Rightarrow> None)
      else if plain_ok m c then map_option ((#) c) (unescape m s)
      else None)"

section \<open>Parsing\<close>

record URL =
  Scheme :: string
  Opaque :: string
  User :: "(string \<times> string option) option"
  Host :: string
  Path :: string
  RawQuery :: string
  Fragment :: string

text \<open>\<open>getScheme\<close>: \<open>None\<close> for a missing scheme before a colon, an empty scheme when there is none.\<close>

definition scheme_part :: "string \<Rightarrow> nat" where
  "scheme_part s = length (takeWhile (\<lambda>c. alnum c \<or> c \<in> set ''+-.'') s)"

definition getScheme :: "string \<Rightarrow> (string \<times> string) option" where
  "getScheme s =
     (let n = scheme_part s in
      if n < length s \<and> n = 0 \<and> s ! 0 = CHR '':'' then None
      else if n < length s \<and> s ! n = CHR '':'' \<and> alnum (hd s) \<and> \<not> is_digit (hd s) then Some (take n s, drop (Suc n) s)
      else Some ([], s))"

definition url_port_ok :: "string \<Rightarrow> bool" where
  "url_port_ok p \<longleftrightarrow> p = [] \<or> (hd p = CHR '':'' \<and> list_all is_digit (tl p))"

text \<open>\<open>strings.Index(s, "%25")\<close>.\<close>

fun percent25 :: "string \<Rightarrow> nat option" where
  "percent25 [] = None"
| "percent25 (c # s) = (if take 3 (c # s) = [CHR 0x25, CHR ''2'', CHR ''5''] then Some 0 else map_option Suc (percent25 s))"

definition parseHost :: "string \<Rightarrow> string option" where
  "parseHost host =
     (if HasPrefix host ''['' then
        (case LastIndexByte host CHR '']'' of
           None \<Rightarrow> None
         | Some i \<Rightarrow>
             if \<not> url_port_ok (drop (Suc i) host) then None
             else (case percent25 (take i host) of
                     None \<Rightarrow> unescape encodeHost host
                   | Some z \<Rightarrow>
                       (case (unescape encodeHost (take z host), unescape encodeZone (drop z (take i host)),
                              unescape encodeHost (drop i host)) of
                          (Some a, Some b, Some c) \<Rightarrow> Some (a @ b @ c)
                        | _ \<Rightarrow> None)))
      else
        (case LastIndexByte host CHR '':'' of
           None \<Rightarrow> unescape encodeHost host
         | Some i \<Rightarrow> if url_port_ok (drop i host) then unescape encodeHost host else None))"

definition validUserinfo :: "string \<Rightarrow> bool" where
  "validUserinfo s \<longleftrightarrow> list_all (\<lambda>c. alnum c \<or> c \<in> set ''-._:~!$&()*+,;=%@'' \<or> code c = 39) s"

definition parse_user :: "string \<Rightarrow> (string \<times> string option) option" where
  "parse_user s =
     (if \<not> validUserinfo s then None
      else case Cut s CHR '':'' of
             None \<Rightarrow> map_option (\<lambda>u. (u, None)) (unescape encodeUserPassword s)
           | Some (name, pass) \<Rightarrow>
               (case (unescape encodeUserPassword name, unescape encodeUserPassword pass) of
                  (Some u, Some p) \<Rightarrow> Some (u, Some p)
                | _ \<Rightarrow> None))"

definition parseAuthority :: "string \<Rightarrow> ((string \<times> string option) option \<times> string) option" where
  "parseAuthority authority =
     (case LastIndexByte authority CHR ''@'' of
        None \<Rightarrow> map_option (\<lambda>h. (None, h)) (parseHost authority)
      | Some i \<Rightarrow>
          (case (parseHost (drop (Suc i) authority), parse_user (take i authority)) of
             (Some h, Some u) \<Rightarrow> Some (Some u, h)
           | _ \<Rightarrow> None))"

definition lower :: "string \<Rightarrow> string" where
  "lower s = map lower_byte s"

text \<open>The query is cut off at the first question mark; a single trailing one leaves no query.\<close>

definition cut_query :: "string \<Rightarrow> string \<times> string" where
  "cut_query s = (case Cut s CHR ''?'' of None \<Rightarrow> (s, []) | Some (a, b) \<Rightarrow> (a, b))"

definition with_path :: "(string \<times> string option) option \<Rightarrow> string \<Rightarrow> string \<Rightarrow> string \<Rightarrow> string \<Rightarrow> URL option" where
  "with_path user host sch query path =
     map_option (\<lambda>p. \<lparr>Scheme = sch, Opaque = [], User = user, Host = host, Path = p, RawQuery = query, Fragment = []\<rparr>)
       (unescape encodePath path)"

definition parse_rest :: "string \<Rightarrow> string \<Rightarrow> string \<Rightarrow> URL option" where
  "parse_rest sch rest query =
     (if \<not> HasPrefix rest ''/'' \<and> sch \<noteq> [] then
        Some \<lparr>Scheme = sch, Opaque = rest, User = None, Host = [], Path = [], RawQuery = query, Fragment = []\<rparr>
      else if \<not> HasPrefix rest ''/'' \<and> CHR '':'' \<in> set (takeWhile (\<lambda>c. c \<noteq> CHR ''/'') rest) then None
      else if (sch \<noteq> [] \<or> \<not> HasPrefix rest ''///'') \<and> HasPrefix rest ''//'' then
        (case parseAuthority (takeWhile (\<lambda>c. c \<noteq> CHR ''/'') (drop 2 rest)) of
           None \<Rightarrow> None
         | Some (user, host) \<Rightarrow> with_path user host sch query (dropWhile (\<lambda>c. c \<noteq> CHR ''/'') (drop 2 rest)))
      else with_path None [] sch query rest)"

definition parse_url :: "string \<Rightarrow> URL option" where
  "parse_url s =
     (if \<exists>c \<in> set s. code c < 32 \<or> code c = 127 then None
      else if s = ''*'' then with_path None [] [] [] ''*''
      else (case getScheme s of
              None \<Rightarrow> None
            | Some (sch, rest) \<Rightarrow> parse_rest (lower sch) (fst (cut_query rest)) (snd (cut_query rest))))"

definition Parse :: "string \<Rightarrow> URL option" where
  "Parse s =
     (let (u, frag) = (case Cut s CHR ''#'' of None \<Rightarrow> (s, []) | Some (a, b) \<Rightarrow> (a, b)) in
      case parse_url u of
        None \<Rightarrow> None
      | Some url \<Rightarrow>
          if frag = [] then Some url
          else map_option (\<lambda>f. url\<lparr>Fragment := f\<rparr>) (unescape encodeFragment frag))"

section \<open>What parses\<close>

lemma Cut_Some: "Cut s c = Some (a, b) \<Longrightarrow> s = a @ c # b \<and> c \<notin> set a"
  using IndexByte_Some [of s c] by (auto simp: Cut_def id_take_nth_drop [symmetric])

lemma Cut_None: "Cut s c = None \<longleftrightarrow> c \<notin> set s"
  by (simp add: Cut_def IndexByte_None)

lemma LastIndexByte_None: "LastIndexByte s c = None \<longleftrightarrow> c \<notin> set s"
  by (simp add: LastIndexByte_def IndexByte_None)

lemma unescape_empty: "unescape m s = Some t \<Longrightarrow> t = [] \<longleftrightarrow> s = []"
  by (cases s) (auto split: if_splits list.splits option.splits)

lemma unescape_slash: "unescape m (CHR ''/'' # s) = Some p \<Longrightarrow> \<exists>q. p = CHR ''/'' # q \<and> unescape m s = Some q"
  by (auto split: if_splits)

lemma root_path:
  assumes "unescape m s = Some p" "p = [] \<or> p = ''/''" "s = [] \<or> hd s = CHR ''/''"
  shows "s = [] \<or> s = ''/''"
proof (cases s)
  case (Cons c t)
  with assms(3) have s: "s = CHR ''/'' # t"
    by simp
  with assms(1) have "p \<noteq> []"
    using unescape_empty by blast
  with assms(1,2) s have "unescape m (CHR ''/'' # t) = Some ''/''"
    by blast
  then have "unescape m t = Some []"
    using unescape_slash by fastforce
  with Cons assms(3) show ?thesis
    by (auto dest: unescape_empty)
qed simp

lemma getScheme_Some:
  assumes "getScheme s = Some (sch, rest)" "sch \<noteq> []"
  shows "s = sch @ CHR '':'' # rest \<and> list_all (\<lambda>c. alnum c \<or> c \<in> set ''+-.'') sch"
proof -
  let ?n = "scheme_part s"
  have n: "?n < length s" "s ! ?n = CHR '':''" "sch = take ?n s" "rest = drop (Suc ?n) s"
    using assms by (auto simp: getScheme_def Let_def split: if_splits)
  have "sch = takeWhile (\<lambda>c. alnum c \<or> c \<in> set ''+-.'') s"
    unfolding n(3) scheme_part_def by (simp add: takeWhile_eq_take [symmetric])
  then have "list_all (\<lambda>c. alnum c \<or> c \<in> set ''+-.'') sch"
    by (auto simp: list_all_iff dest!: set_takeWhileD)
  moreover have "s = sch @ CHR '':'' # rest"
    using n id_take_nth_drop [of ?n s] by simp
  ultimately show ?thesis by blast
qed

lemma parseHost_empty: "parseHost a = Some h \<Longrightarrow> h \<noteq> [] \<Longrightarrow> a \<noteq> []"
  by (auto simp: parseHost_def HasPrefix_def LastIndexByte_def IndexByte_def)

lemma parseAuthority_plain:
  "parseAuthority a = Some (None, h) \<Longrightarrow> parseHost a = Some h \<and> CHR ''@'' \<notin> set a"
  by (auto simp: parseAuthority_def LastIndexByte_None split: option.splits)

lemma HasPrefix_split: "HasPrefix s p \<Longrightarrow> s = p @ drop (length p) s"
  by (metis HasPrefix_def append_take_drop_id)

lemma parse_rest_root:
  assumes "parse_rest sch rest query = Some u" "sch \<noteq> []" "Host u \<noteq> []" "User u = None" "Path u = [] \<or> Path u = ''/''"
  obtains h path where "rest = ''//'' @ h @ path" "parseHost h = Some (Host u)" "h \<noteq> []" "path = [] \<or> path = ''/''"
    "set h \<inter> {CHR ''/'', CHR ''@''} = {}" "Scheme u = sch" "RawQuery u = query" "Fragment u = []"
proof -
  let ?a = "takeWhile (\<lambda>c. c \<noteq> CHR ''/'') (drop 2 rest)"
  let ?p = "dropWhile (\<lambda>c. c \<noteq> CHR ''/'') (drop 2 rest)"
  have two: "HasPrefix rest ''//''" and a: "parseAuthority ?a = Some (None, Host u)"
    and p: "unescape encodePath ?p = Some (Path u)"
    and f: "Scheme u = sch" "RawQuery u = query" "Fragment u = []"
    using assms by (auto simp: parse_rest_def with_path_def split: if_splits option.splits)
  have rest: "rest = ''//'' @ ?a @ ?p"
    using HasPrefix_split [OF two] by (simp add: eval_nat_numeral)
  have path: "?p = [] \<or> ?p = ''/''"
    using p assms(5) by (rule root_path) (use hd_dropWhile [of "\<lambda>c. c \<noteq> CHR ''/''" "drop 2 rest"] in blast)
  have h: "parseHost ?a = Some (Host u)" "CHR ''@'' \<notin> set ?a"
    using parseAuthority_plain [OF a] by simp_all
  have "?a \<noteq> []"
    using parseHost_empty [OF h(1) assms(3)] .
  moreover have "set ?a \<inter> {CHR ''/'', CHR ''@''} = {}"
    using h(2) by (auto dest: set_takeWhileD)
  ultimately show ?thesis
    using that [OF rest h(1) _ path _ f] by blast
qed

text \<open>
  A root URL that parses, with a scheme, a host and neither user, query nor fragment, is
  literally \<open>scheme://host\<close>, perhaps with a slash, an empty query and an empty fragment behind it.
\<close>

lemma cut_query_eq: "snd (cut_query s) = [] \<Longrightarrow> s = fst (cut_query s) \<or> s = fst (cut_query s) @ ''?''"
  by (auto simp: cut_query_def dest: Cut_Some split: option.splits)

lemma cut_query_fst: "CHR ''?'' \<notin> set (fst (cut_query s))"
  by (auto simp: cut_query_def Cut_None dest: Cut_Some split: option.splits)

lemma parse_url_root:
  assumes u: "parse_url s = Some u" "Scheme u \<noteq> []" "Host u \<noteq> []" "User u = None" "Path u = [] \<or> Path u = ''/''" "RawQuery u = []"
  obtains sch h path q where "s = sch @ ''://'' @ h @ path @ q" "lower sch = Scheme u" "parseHost h = Some (Host u)" "h \<noteq> []"
    "path = [] \<or> path = ''/''" "q = [] \<or> q = ''?''" "set h \<inter> {CHR ''/'', CHR ''@'', CHR ''?''} = {}" "Fragment u = []"
proof -
  from u(1,3) have g: "getScheme s \<noteq> None" "s \<noteq> ''*''"
    by (auto simp: parse_url_def with_path_def split: if_splits option.splits)
  then obtain sch rest where g: "getScheme s = Some (sch, rest)" by auto
  have r: "parse_rest (lower sch) (fst (cut_query rest)) (snd (cut_query rest)) = Some u"
    using u(1,3) g \<open>s \<noteq> ''*''\<close> by (auto simp: parse_url_def split: if_splits)
  have "sch \<noteq> []"
    using r u(2) by (auto simp: parse_rest_def with_path_def lower_def split: if_splits option.splits)
  then have ls: "lower sch \<noteq> []" and s: "s = sch @ CHR '':'' # rest"
    using getScheme_Some [OF g] by (simp_all add: lower_def)
  from parse_rest_root [OF r ls u(3,4,5)] obtain h path where h:
    "fst (cut_query rest) = ''//'' @ h @ path" "parseHost h = Some (Host u)" "h \<noteq> []" "path = [] \<or> path = ''/''"
    "set h \<inter> {CHR ''/'', CHR ''@''} = {}" "Scheme u = lower sch" "RawQuery u = snd (cut_query rest)" "Fragment u = []"
    by metis
  have q: "CHR ''?'' \<notin> set h"
    using cut_query_fst [of rest] unfolding h(1) by simp
  from h(7) u(6) cut_query_eq [of rest] have "rest = ''//'' @ h @ path \<or> rest = ''//'' @ h @ path @ ''?''"
    unfolding h(1) by simp
  then obtain q where "rest = ''//'' @ h @ path @ q" "q = [] \<or> q = ''?''"
    by auto
  with that [of sch h path q] s h q show ?thesis
    by auto
qed

lemma Parse_root:
  assumes "Parse s = Some u" "Scheme u \<noteq> []" "Host u \<noteq> []" "User u = None" "Path u = [] \<or> Path u = ''/''"
    "RawQuery u = []" "Fragment u = []"
  shows "\<exists>sch h path q f. s = sch @ ''://'' @ h @ path @ q @ f \<and> lower sch = Scheme u \<and> parseHost h = Some (Host u) \<and> h \<noteq> [] \<and>
    (path = [] \<or> path = ''/'') \<and> (q = [] \<or> q = ''?'') \<and> (f = [] \<or> f = ''#'') \<and> set h \<inter> {CHR ''/'', CHR ''@'', CHR ''?'', CHR ''#''} = {}"
proof -
  obtain t f where t: "parse_url t = Some u" "s = t @ f" "f = [] \<or> f = ''#''" "CHR ''#'' \<notin> set t"
  proof (cases "Cut s CHR ''#''")
    case None
    then have "CHR ''#'' \<notin> set s"
      by (simp add: Cut_None)
    moreover have "parse_url s = Some u"
      using assms(1) None by (simp add: Parse_def split: option.splits)
    ultimately show ?thesis
      using that [of s "[]"] by simp
  next
    case (Some ab)
    obtain a b where ab: "ab = (a, b)" by (cases ab)
    have s: "s = a @ CHR ''#'' # b" "CHR ''#'' \<notin> set a"
      using Cut_Some [of s "CHR ''#''" a b] Some ab by simp_all
    show ?thesis
    proof (cases "b = []")
      case True
      with Some ab assms(1) s that [of a "''#''"] show ?thesis
        by (auto simp: Parse_def split: option.splits)
    next
      case False
      then have "unescape encodeFragment b \<noteq> Some []"
        using unescape_empty by blast
      with Some ab assms(1,7) False show ?thesis
        by (auto simp: Parse_def split: option.splits)
    qed
  qed
  from parse_url_root [OF t(1) assms(2-6)] obtain sch h path q where p:
    "t = sch @ ''://'' @ h @ path @ q" "lower sch = Scheme u" "parseHost h = Some (Host u)" "h \<noteq> []"
    "path = [] \<or> path = ''/''" "q = [] \<or> q = ''?''" "set h \<inter> {CHR ''/'', CHR ''@'', CHR ''?''} = {}"
    by metis
  have "set h \<inter> {CHR ''/'', CHR ''@'', CHR ''?'', CHR ''#''} = {}" "s = sch @ ''://'' @ h @ path @ q @ f"
    using t(2,4) p(7) unfolding p(1) by simp_all
  with p(2-6) t(3) show ?thesis
    by blast
qed

end
