(* ===== verification/Health_Text.thy ===== *)
theory Health_Text
  imports Wire Server_Main Bridge_Start "HOL-Library.List_Lexorder" "HOL-Library.Char_ord"
begin

text \<open>
  The bodies of the two health endpoints as the text they send: \<open>internal/httpapi/httpapi.go\<close> and
  \<open>handleHealthz\<close> of \<open>cmd/bridge/main.go\<close> encode a map, whose keys \<open>encoding/json\<close> sorts, and end it
  with a line break.
\<close>

definition Encode_map :: "(string \<times> jtext) list \<Rightarrow> string" where
  "Encode_map fs = print_json (obj (sort_key fst fs)) @ [CHR 0x0A]"

definition health_text :: "health \<Rightarrow> string" where
  "health_text h = Encode_map [(''status'', TString (health_status h)), (''uptime'', num (health_uptime h)),
     (''rooms'', num (health_rooms h)), (''peers'', num (health_peers h)), (''version'', TString (health_version h))]"

definition bridge_health_text :: "bridge_health \<Rightarrow> string" where
  "bridge_health_text h = Encode_map [(''ok'', TBool (health_ok h)), (''component'', TString (health_component h)),
     (''protocol'', TString (health_protocol h)), (''version'', TString (bridge_version h)), (''pid'', num (health_pid h)),
     (''upstream'', TString (health_upstream h)), (''startedAt'', TString (health_startedAt h)),
     (''uptimeMs'', num (health_uptimeMs h))]"

text \<open>A body is one JSON object with the members that were put into the map.\<close>

lemma parse_line:
  assumes "numbers_ok v" "depth v \<le> maxNestingDepth"
  shows "parse_json (print_json v @ [CHR 0x0A]) = Some (norm_json v)"
proof -
  have "parse_value (2 * length (print_json v @ [CHR 0x0A]) + 1) maxNestingDepth (print_json v @ [CHR 0x0A]) = Some (norm_json v, [CHR 0x0A])"
    by (intro reads_backD reads_all assms) (simp_all add: no_number_def is_digit_def)
  moreover have "skip (print_json v @ [CHR 0x0A]) = print_json v @ [CHR 0x0A]"
    using skip_start [of "print_json v" "[CHR 0x0A]"] print_start [OF assms(1)] by simp
  ultimately show ?thesis
    by (simp add: parse_json_def skip_def is_space_def)
qed

lemma Encode_map_parsed:
  assumes "\<forall>f \<in> set fs. depth (snd f) = 0 \<and> numbers_ok (snd f)"
  shows "parse_json (Encode_map fs) = Some (TObject (map obj_member (sort_key fst fs)))"
proof -
  have "sendable (obj (sort_key fst fs))"
    using assms by (intro sendable_flat) simp
  then show ?thesis
    unfolding Encode_map_def by (subst parse_line) (auto simp: sendable_def obj_facts(1))
qed

lemma health_parsed:
  "parse_json (health_text h) = Some (TObject (map obj_member
     [(''peers'', num (health_peers h)), (''rooms'', num (health_rooms h)), (''status'', TString (health_status h)),
      (''uptime'', num (health_uptime h)), (''version'', TString (health_version h))]))"
  unfolding health_text_def by (subst Encode_map_parsed) (simp_all add: num_def number_show_int sort_key_def)

lemma bridge_health_parsed:
  "parse_json (bridge_health_text h) = Some (TObject (map obj_member
     [(''component'', TString (health_component h)), (''ok'', TBool (health_ok h)), (''pid'', num (health_pid h)),
      (''protocol'', TString (health_protocol h)), (''startedAt'', TString (health_startedAt h)),
      (''upstream'', TString (health_upstream h)), (''uptimeMs'', num (health_uptimeMs h)),
      (''version'', TString (bridge_version h))]))"
  unfolding bridge_health_text_def by (subst Encode_map_parsed) (simp_all add: num_def number_show_int sort_key_def)

end
