(* ===== verification/Reclaim.thy ===== *)
theory Reclaim
  imports Strs Netip
begin

text \<open>
  Reclaiming the bridge's port on Windows (\<open>cmd/bridge/reclaim_windows.go\<close>): find the processes that listen
  on the exact address in the system's TCP tables, check that each one runs this very executable,
  and terminate them through the handles that were checked.  The system calls and the path functions
  of Windows are parameters; the tables are parsed from the bytes the system returns.
\<close>

type_synonym u32 = "32 word"
type_synonym handle = nat
type_synonym pid = int

datatype image_result = ImageName string | InsufficientBuffer | QueryFailed

text \<open>
  The answers of the system.  \<open>tcp_size k f\<close> and \<open>tcp_fill k f size\<close> are the two calls of
  \<open>GetExtendedTcpTable\<close> for address family \<open>f\<close> in the \<open>k\<close>-th enumeration: result code and size,
  and result code, size and bytes written.  \<open>equal_fold\<close> is \<open>strings.EqualFold\<close>, whose folding of letters
  outside ASCII is a table of the Go library; paths may hold any letter.
\<close>

record win_os =
  getpid :: pid
  current_process :: "handle option"
  open_process :: "pid \<Rightarrow> handle option"
  image_name :: "handle \<Rightarrow> nat \<Rightarrow> image_result"
  tcp_size :: "nat \<Rightarrow> u32 \<Rightarrow> u32 \<times> u32"
  tcp_fill :: "nat \<Rightarrow> u32 \<Rightarrow> u32 \<Rightarrow> u32 \<times> u32 \<times> byte list"
  terminate_process :: "handle \<Rightarrow> bool"
  wait_process :: "handle \<Rightarrow> u32 option"
  path_clean :: "string \<Rightarrow> string"
  path_is_abs :: "string \<Rightarrow> bool"
  equal_fold :: "string \<Rightarrow> string \<Rightarrow> bool"

section \<open>Executables\<close>

definition verbatim_prefix :: string where
  "verbatim_prefix = [CHR 0x5C, CHR 0x5C, CHR ''?'', CHR 0x5C]"

definition normalizeProcessImagePath :: "win_os \<Rightarrow> string \<Rightarrow> string option" where
  "normalizeProcessImagePath S path =
     (let path = TrimSpace path;
          path = (if HasPrefix path verbatim_prefix then drop (length verbatim_prefix) path else path)
      in if path = '''' \<or> \<not> path_is_abs S path then None else Some (path_clean S path))"

text \<open>The buffer doubles from 512 to 32768 characters.\<close>

fun query_sizes :: "win_os \<Rightarrow> handle \<Rightarrow> nat list \<Rightarrow> string option" where
  "query_sizes S h [] = None"
| "query_sizes S h (sz # sizes) =
     (case image_name S h sz of
        ImageName path \<Rightarrow> normalizeProcessImagePath S path
      | InsufficientBuffer \<Rightarrow> query_sizes S h sizes
      | QueryFailed \<Rightarrow> None)"

definition queryProcessImagePath :: "win_os \<Rightarrow> handle \<Rightarrow> string option" where
  "queryProcessImagePath S h = query_sizes S h (map (\<lambda>k. 512 * 2 ^ k) [0..<7])"

definition sameCanonicalExecutable :: "win_os \<Rightarrow> string \<Rightarrow> string \<Rightarrow> bool" where
  "sameCanonicalExecutable S current candidate = equal_fold S (path_clean S current) (path_clean S candidate)"

section \<open>The TCP owner tables\<close>

datatype table_error =
  BadHostPort | NotLoopbackAddr | BadPort | SizeFailed | FillFailed | TruncatedTable | SlicePanic | OutOfBounds

text \<open>A little-endian \<open>uint32\<close> at an offset; \<open>None\<close> when the buffer ends before it.\<close>

definition uint32_at :: "nat \<Rightarrow> byte list \<Rightarrow> u32 option" where
  "uint32_at off buf =
     (if off + 4 \<le> length buf
      then Some (of_nat (unat (buf ! off) + 256 * unat (buf ! (off + 1)) + 65536 * unat (buf ! (off + 2)) + 16777216 * unat (buf ! (off + 3))))
      else None)"

definition bytes_at :: "nat \<Rightarrow> nat \<Rightarrow> byte list \<Rightarrow> byte list option" where
  "bytes_at off n buf = (if off + n \<le> length buf then Some (take n (drop off buf)) else None)"

definition tcpTable :: "win_os \<Rightarrow> nat \<Rightarrow> u32 \<Rightarrow> table_error + byte list" where
  "tcpTable S k family =
     (case tcp_size S k family of (result, sz) \<Rightarrow>
        if result \<noteq> 122 \<or> sz < 4 then Inl SizeFailed
        else
          (case tcp_fill S k family sz of (result, sz', filled) \<Rightarrow>
             if result \<noteq> 0 then Inl FillFailed
             else if sz < sz' then Inl SlicePanic
             else Inr (take (unat sz') (take (unat sz) (filled @ replicate (unat sz) 0)))))"

definition networkPort :: "u32 \<Rightarrow> int" where
  "networkPort raw = push_bit 8 (uint (ucast raw :: byte)) OR uint (ucast (drop_bit 8 raw) :: byte)"

text \<open>A row of each table at its offset: local address, local port and owner.\<close>

definition row4 :: "byte list \<Rightarrow> nat \<Rightarrow> (ip \<times> int \<times> pid) option" where
  "row4 buf off =
     (case (uint32_at (off + 4) buf, uint32_at (off + 8) buf, uint32_at (off + 20) buf) of
        (Some addr, Some port, Some owner) \<Rightarrow>
          Some (v4InV6Prefix @ [ucast addr, ucast (drop_bit 8 addr), ucast (drop_bit 16 addr), ucast (drop_bit 24 addr)],
            networkPort port, uint owner)
      | _ \<Rightarrow> None)"

definition row6 :: "byte list \<Rightarrow> nat \<Rightarrow> (ip \<times> int \<times> pid) option" where
  "row6 buf off =
     (case (bytes_at off 16 buf, uint32_at (off + 20) buf, uint32_at (off + 52) buf) of
        (Some addr, Some port, Some owner) \<Rightarrow> Some (addr, networkPort port, uint owner)
      | _ \<Rightarrow> None)"

text \<open>The owners of the matching rows; a read outside the buffer is an error of its own.\<close>

fun scan_rows :: "(nat \<Rightarrow> (ip \<times> int \<times> pid) option) \<Rightarrow> ip \<Rightarrow> int \<Rightarrow> nat list \<Rightarrow> pid list option" where
  "scan_rows row target port [] = Some []"
| "scan_rows row target port (i # is) =
     (case (row i, scan_rows row target port is) of
        (Some (ip, p, owner), Some owners) \<Rightarrow> Some (if IP_Equal ip target \<and> p = port then owner # owners else owners)
      | _ \<Rightarrow> None)"

definition sortedPIDs :: "pid list \<Rightarrow> pid list" where
  "sortedPIDs owners = sort (remdups owners)"

definition pids_from :: "nat \<Rightarrow> (byte list \<Rightarrow> nat \<Rightarrow> (ip \<times> int \<times> pid) option) \<Rightarrow> ip \<Rightarrow> int \<Rightarrow> byte list \<Rightarrow> table_error + pid list" where
  "pids_from rowSize row target port buf =
     (if buf = [] then Inl SlicePanic
      else case uint32_at 0 buf of
          None \<Rightarrow> Inl TruncatedTable
        | Some n \<Rightarrow>
            if (4 :: u64) + ucast n * of_nat rowSize > of_nat (length buf) then Inl TruncatedTable
            else (case scan_rows (\<lambda>i. row buf (4 + i * rowSize)) target port [0..<unat n] of
                    None \<Rightarrow> Inl OutOfBounds
                  | Some owners \<Rightarrow> Inr (sortedPIDs owners)))"

definition pidsFromTCP4Table :: "win_os \<Rightarrow> nat \<Rightarrow> ip \<Rightarrow> int \<Rightarrow> table_error + pid list" where
  "pidsFromTCP4Table S k target port =
     (case tcpTable S k 2 of Inl e \<Rightarrow> Inl e | Inr buf \<Rightarrow> pids_from 24 row4 target port buf)"

definition pidsFromTCP6Table :: "win_os \<Rightarrow> nat \<Rightarrow> ip \<Rightarrow> int \<Rightarrow> table_error + pid list" where
  "pidsFromTCP6Table S k target port =
     (case tcpTable S k 23 of Inl e \<Rightarrow> Inl e | Inr buf \<Rightarrow> pids_from 56 row6 target port buf)"

definition pidsHoldingAddr :: "win_os \<Rightarrow> nat \<Rightarrow> string \<Rightarrow> table_error + pid list" where
  "pidsHoldingAddr S k addr =
     (case SplitHostPort addr of
        None \<Rightarrow> Inl BadHostPort
      | Some (host, portText) \<Rightarrow>
          (case ParseIP (Trim host ''[]'') of
             None \<Rightarrow> Inl NotLoopbackAddr
           | Some ip \<Rightarrow>
               if \<not> IsLoopback ip then Inl NotLoopbackAddr
               else
                 (case Atoi portText of
                    None \<Rightarrow> Inl BadPort
                  | Some port \<Rightarrow>
                      if port < 1 \<or> 65535 < port then Inl BadPort
                      else (case To4 ip of
                              Some ip4 \<Rightarrow> pidsFromTCP4Table S k ip4 port
                            | None \<Rightarrow> pidsFromTCP6Table S k ip port))))"

section \<open>Reclaiming the port\<close>

record verifiedProcess =
  vp_pid :: pid
  vp_handle :: handle
  vp_path :: string

datatype reclaim_error =
  EnumerateFailed table_error | NoHolder | OwnHandle | OwnPath | OpenFailed pid | QueryImage pid | ForeignHolder pid
| NoneEligible | RecheckFailed table_error | OwnershipChanged | TerminateFailed pid | WaitFailed pid | WaitTimeout pid | WaitOdd pid

fun open_holders :: "win_os \<Rightarrow> string \<Rightarrow> pid list \<Rightarrow> verifiedProcess list \<Rightarrow> reclaim_error + verifiedProcess list" where
  "open_holders S own [] opened = Inr opened"
| "open_holders S own (p # ps) opened =
     (if p = getpid S then open_holders S own ps opened
      else case open_process S p of
          None \<Rightarrow> Inl (OpenFailed p)
        | Some h \<Rightarrow>
            (case queryProcessImagePath S h of
               None \<Rightarrow> Inl (QueryImage p)
             | Some path \<Rightarrow>
                 if \<not> sameCanonicalExecutable S own path then Inl (ForeignHolder p)
                 else open_holders S own ps (opened @ [\<lparr>vp_pid = p, vp_handle = h, vp_path = path\<rparr>])))"

definition allPIDsStillHolding :: "verifiedProcess list \<Rightarrow> pid list \<Rightarrow> bool" where
  "allPIDsStillHolding opened confirmed = list_all (\<lambda>p. vp_pid p \<in> set confirmed) opened"

text \<open>The processes \<open>TerminateProcess\<close> was called on, in order, and the error that stopped the loop.\<close>

fun terminate_all :: "win_os \<Rightarrow> verifiedProcess list \<Rightarrow> verifiedProcess list \<times> reclaim_error option" where
  "terminate_all S [] = ([], None)"
| "terminate_all S (p # ps) =
     (if \<not> terminate_process S (vp_handle p) then ([p], Some (TerminateFailed (vp_pid p)))
      else case wait_process S (vp_handle p) of
          None \<Rightarrow> ([p], Some (WaitFailed (vp_pid p)))
        | Some result \<Rightarrow>
            if result = 258 then ([p], Some (WaitTimeout (vp_pid p)))
            else if result \<noteq> 0 then ([p], Some (WaitOdd (vp_pid p)))
            else (let (killed, err) = terminate_all S ps in (p # killed, err)))"

definition reclaimPort :: "win_os \<Rightarrow> string \<Rightarrow> verifiedProcess list \<times> reclaim_error option" where
  "reclaimPort S addr =
     (case pidsHoldingAddr S 0 addr of
        Inl e \<Rightarrow> ([], Some (EnumerateFailed e))
      | Inr pids \<Rightarrow>
          if pids = [] then ([], Some NoHolder)
          else
            (case current_process S of
               None \<Rightarrow> ([], Some OwnHandle)
             | Some self \<Rightarrow>
                 (case queryProcessImagePath S self of
                    None \<Rightarrow> ([], Some OwnPath)
                  | Some own \<Rightarrow>
                      (case open_holders S own pids [] of
                         Inl e \<Rightarrow> ([], Some e)
                       | Inr opened \<Rightarrow>
                           if opened = [] then ([], Some NoneEligible)
                           else
                             (case pidsHoldingAddr S 1 addr of
                                Inl e \<Rightarrow> ([], Some (RecheckFailed e))
                              | Inr confirmed \<Rightarrow>
                                  if \<not> allPIDsStillHolding opened confirmed then ([], Some OwnershipChanged)
                                  else terminate_all S opened)))))"

text \<open>Elsewhere (\<open>reclaim_other.go\<close>) nothing is ever terminated.\<close>

datatype platform_error = NotImplemented

definition reclaimPort_other :: "string \<Rightarrow> platform_error option" where
  "reclaimPort_other addr = Some NotImplemented"

section \<open>The tables are read in bounds\<close>

lemma tcpTable_length: "tcpTable S k f = Inr buf \<Longrightarrow> length buf < 2 ^ 32"
proof -
  assume "tcpTable S k f = Inr buf"
  then obtain sz' :: u32 and bs where "buf = take (unat sz') bs"
    by (auto simp: tcpTable_def simp del: take_append take_take split: prod.splits if_splits)
  then have "length buf \<le> unat sz'"
    by simp
  moreover have "unat sz' < 2 ^ 32"
    using unsigned_less [of sz', where ?'a = nat] by simp
  ultimately show ?thesis
    by (rule le_less_trans)
qed

lemma table_check:
  fixes n :: u32
  assumes "length buf < 2 ^ 32" "rowSize \<le> 56"
  shows "(of_nat (length buf) :: u64) < 4 + ucast n * of_nat rowSize \<longleftrightarrow> length buf < 4 + unat n * rowSize"
proof -
  have "unat n < 2 ^ 32"
    using unsigned_less [of n, where ?'a = nat] by simp
  then have "unat n * rowSize \<le> 2 ^ 32 * 56"
    using assms(2) by (intro mult_le_mono) simp_all
  then have small: "4 + unat n * rowSize < 2 ^ 64"
    by simp
  have "(4 :: u64) + ucast n * of_nat rowSize = of_nat (4 + unat n * rowSize)"
    by (simp add: of_nat_unat)
  then have "unat ((4 :: u64) + ucast n * of_nat rowSize) = 4 + unat n * rowSize"
    using small by (simp only: unat_of_nat) simp
  moreover have "unat (of_nat (length buf) :: u64) = length buf"
    using assms(1) by (simp add: unat_of_nat)
  ultimately show ?thesis
    by (simp add: word_less_nat_alt)
qed

lemma scan_rows_total: "(\<And>i. i \<in> set is \<Longrightarrow> row i \<noteq> None) \<Longrightarrow> scan_rows row target port is \<noteq> None"
  by (induction "is") (auto split: option.splits)

lemma scan_rows_set:
  "scan_rows row target port is = Some owners \<Longrightarrow>
    p \<in> set owners \<longleftrightarrow> (\<exists>i \<in> set is. \<exists>a. row i = Some (a, port, p) \<and> IP_Equal a target)"
  by (induction "is" arbitrary: owners) (auto split: option.splits prod.splits if_splits)

text \<open>A row reader of a given size reads within its row.\<close>

definition reads_within :: "nat \<Rightarrow> (byte list \<Rightarrow> nat \<Rightarrow> (ip \<times> int \<times> pid) option) \<Rightarrow> bool" where
  "reads_within rowSize row \<longleftrightarrow> rowSize \<le> 56 \<and> (\<forall>buf off. off + rowSize \<le> length buf \<longrightarrow> row buf off \<noteq> None)"

lemma rows_within: "reads_within 24 row4" "reads_within 56 row6"
  by (simp_all add: reads_within_def row4_def row6_def uint32_at_def bytes_at_def)

lemma pids_from_ok:
  assumes "reads_within rowSize row" "length buf < 2 ^ 32"
  shows "pids_from rowSize row target port buf \<noteq> Inl OutOfBounds"
    and "pids_from rowSize row target port buf = Inr pids \<Longrightarrow>
      sorted pids \<and> distinct pids \<and> (\<exists>n. uint32_at 0 buf = Some n \<and> 4 + unat n * rowSize \<le> length buf \<and>
        (\<forall>p. p \<in> set pids \<longleftrightarrow> (\<exists>i < unat n. \<exists>a. row buf (4 + i * rowSize) = Some (a, port, p) \<and> IP_Equal a target)))"
proof -
  have total: "scan_rows (\<lambda>i. row buf (4 + i * rowSize)) target port [0..<unat n] \<noteq> None"
    if "4 + unat n * rowSize \<le> length buf" for n :: u32
  proof (rule scan_rows_total)
    fix i assume "i \<in> set [0..<unat n]"
    then have "Suc i * rowSize \<le> unat n * rowSize"
      by (intro mult_le_mono) auto
    with that have "4 + i * rowSize + rowSize \<le> length buf"
      by simp
    with assms(1) show "row buf (4 + i * rowSize) \<noteq> None"
      by (simp add: reads_within_def)
  qed
  note check = table_check [OF assms(2), of rowSize]
  have le: "rowSize \<le> 56"
    using assms(1) by (simp add: reads_within_def)
  show "pids_from rowSize row target port buf \<noteq> Inl OutOfBounds"
    by (auto simp: pids_from_def check [OF le] not_less total split: option.splits)
  show "sorted pids \<and> distinct pids \<and> (\<exists>n. uint32_at 0 buf = Some n \<and> 4 + unat n * rowSize \<le> length buf \<and>
        (\<forall>p. p \<in> set pids \<longleftrightarrow> (\<exists>i < unat n. \<exists>a. row buf (4 + i * rowSize) = Some (a, port, p) \<and> IP_Equal a target)))"
    if "pids_from rowSize row target port buf = Inr pids"
  proof -
    from that obtain n owners where n: "uint32_at 0 buf = Some n" "4 + unat n * rowSize \<le> length buf" "pids = sort (remdups owners)"
      "scan_rows (\<lambda>i. row buf (4 + i * rowSize)) target port [0..<unat n] = Some owners"
      by (auto simp: pids_from_def check [OF le] not_less sortedPIDs_def split: option.splits if_splits)
    have "p \<in> set owners \<longleftrightarrow> (\<exists>i < unat n. \<exists>a. row buf (4 + i * rowSize) = Some (a, port, p) \<and> IP_Equal a target)" for p
      unfolding scan_rows_set [OF n(4)] by (simp add: Bex_def)
    with n show ?thesis by simp
  qed
qed

text \<open>\<open>owner_row S k ip port p\<close>: the table of the address's family has a row for it that names \<open>p\<close>.\<close>

definition owner_row :: "win_os \<Rightarrow> nat \<Rightarrow> ip \<Rightarrow> int \<Rightarrow> pid \<Rightarrow> bool" where
  "owner_row S k ip port p \<longleftrightarrow>
     (case To4 ip of
        Some ip4 \<Rightarrow> (\<exists>buf n i a. tcpTable S k 2 = Inr buf \<and> uint32_at 0 buf = Some n \<and> i < unat n \<and>
          row4 buf (4 + i * 24) = Some (a, port, p) \<and> IP_Equal a ip4)
      | None \<Rightarrow> (\<exists>buf n i a. tcpTable S k 23 = Inr buf \<and> uint32_at 0 buf = Some n \<and> i < unat n \<and>
          row6 buf (4 + i * 56) = Some (a, port, p) \<and> IP_Equal a ip))"

lemma tables_ok:
  "pidsFromTCP4Table S k ip port \<noteq> Inl OutOfBounds" "pidsFromTCP6Table S k ip port \<noteq> Inl OutOfBounds"
  using pids_from_ok(1) [OF rows_within(1) tcpTable_length] pids_from_ok(1) [OF rows_within(2) tcpTable_length]
  by (auto simp: pidsFromTCP4Table_def pidsFromTCP6Table_def tcpTable_def split: sum.splits prod.splits if_splits)

lemma tables_exact:
  "To4 ip = Some ip4 \<Longrightarrow> pidsFromTCP4Table S k ip4 port = Inr pids \<Longrightarrow>
     sorted pids \<and> distinct pids \<and> (\<forall>p. p \<in> set pids \<longleftrightarrow> owner_row S k ip port p)"
  "To4 ip = None \<Longrightarrow> pidsFromTCP6Table S k ip port = Inr pids \<Longrightarrow>
     sorted pids \<and> distinct pids \<and> (\<forall>p. p \<in> set pids \<longleftrightarrow> owner_row S k ip port p)"
  using pids_from_ok(2) [OF rows_within(1) tcpTable_length] pids_from_ok(2) [OF rows_within(2) tcpTable_length]
  by (fastforce simp: pidsFromTCP4Table_def pidsFromTCP6Table_def owner_row_def split: sum.splits)+

lemma holding_exact:
  "pidsHoldingAddr S k addr = Inr pids \<Longrightarrow> sorted pids \<and> distinct pids \<and>
    (\<exists>host portText ip port. SplitHostPort addr = Some (host, portText) \<and> ParseIP (Trim host ''[]'') = Some ip \<and>
       IsLoopback ip \<and> Atoi portText = Some port \<and> 1 \<le> port \<and> port \<le> 65535 \<and>
       (\<forall>p. p \<in> set pids \<longleftrightarrow> owner_row S k ip port p))"
  using tables_exact
  by (auto simp: pidsHoldingAddr_def not_less split: option.splits sum.splits if_splits)

text \<open>
  C40. The TCP tables are parsed safely and exactly.  Whatever bytes and sizes the system returns, no row is
  read outside the buffer, the check on the row count not overflowing; and an enumeration that
  succeeds gives, sorted and without repetition, exactly the owners of the rows for the given
  loopback address and port.
\<close>

theorem tcp_tables_are_read_in_bounds:
  "pidsHoldingAddr S k addr \<noteq> Inl OutOfBounds \<and>
   (case pidsHoldingAddr S k addr of
      Inl _ \<Rightarrow> True
    | Inr pids \<Rightarrow> sorted pids \<and> distinct pids \<and>
        (\<exists>host portText ip port. SplitHostPort addr = Some (host, portText) \<and> ParseIP (Trim host ''[]'') = Some ip \<and>
           IsLoopback ip \<and> Atoi portText = Some port \<and> 1 \<le> port \<and> port \<le> 65535 \<and>
           (\<forall>p. p \<in> set pids \<longleftrightarrow> owner_row S k ip port p)))"
proof -
  have "pidsHoldingAddr S k addr \<noteq> Inl OutOfBounds"
    using tables_ok by (auto simp: pidsHoldingAddr_def split: option.splits if_splits)
  then show ?thesis
    using holding_exact [of S k addr] by (simp split: sum.split)
qed

section \<open>Only stale copies of the bridge are terminated\<close>

text \<open>A process that was opened and runs the same executable.\<close>

definition stale_copy :: "win_os \<Rightarrow> string \<Rightarrow> verifiedProcess \<Rightarrow> bool" where
  "stale_copy S own p \<longleftrightarrow> vp_pid p \<noteq> getpid S \<and> open_process S (vp_pid p) = Some (vp_handle p) \<and>
     queryProcessImagePath S (vp_handle p) = Some (vp_path p) \<and> sameCanonicalExecutable S own (vp_path p)"

lemma open_holders_ok:
  "open_holders S own pids opened = Inr out \<Longrightarrow>
    \<exists>new. out = opened @ new \<and> list_all (stale_copy S own) new \<and> map vp_pid new = filter (\<lambda>p. p \<noteq> getpid S) pids"
proof (induction pids arbitrary: opened)
  case (Cons p ps)
  show ?case
  proof (cases "p = getpid S")
    case False
    with Cons.prems obtain h path where h: "open_process S p = Some h" "queryProcessImagePath S h = Some path"
      "sameCanonicalExecutable S own path" "open_holders S own ps (opened @ [\<lparr>vp_pid = p, vp_handle = h, vp_path = path\<rparr>]) = Inr out"
      by (auto split: option.splits if_splits)
    from Cons.IH [OF h(4)] False h(1-3) show ?thesis
      by (auto simp: stale_copy_def)
  qed (use Cons in simp)
qed simp

lemma terminate_all_prefix:
  "terminate_all S ps = (killed, err) \<Longrightarrow> (\<exists>rest. ps = killed @ rest) \<and>
    (err = None \<longrightarrow> killed = ps \<and> list_all (\<lambda>p. terminate_process S (vp_handle p) \<and> wait_process S (vp_handle p) = Some 0) ps)"
  by (induction ps arbitrary: killed err) (auto split: if_splits option.splits prod.splits)

text \<open>What had to hold before anything was terminated.\<close>

lemma reclaim_verified:
  assumes "reclaimPort S addr = (killed, err)" "killed \<noteq> [] \<or> err = None"
  obtains self own holders opened confirmed rest where
    "current_process S = Some self" "queryProcessImagePath S self = Some own"
    "pidsHoldingAddr S 0 addr = Inr holders" "pidsHoldingAddr S 1 addr = Inr confirmed" "opened \<noteq> []"
    "list_all (stale_copy S own) opened" "map vp_pid opened = filter (\<lambda>p. p \<noteq> getpid S) holders"
    "\<forall>p \<in> set opened. vp_pid p \<in> set confirmed" "terminate_all S opened = (killed, err)" "opened = killed @ rest"
proof -
  obtain self own holders opened confirmed where *:
    "current_process S = Some self" "queryProcessImagePath S self = Some own"
    "pidsHoldingAddr S 0 addr = Inr holders" "pidsHoldingAddr S 1 addr = Inr confirmed" "opened \<noteq> []"
    "open_holders S own holders [] = Inr opened" "allPIDsStillHolding opened confirmed" "terminate_all S opened = (killed, err)"
    using assms by (auto simp: reclaimPort_def split: sum.splits option.splits if_splits)
  obtain rest where rest: "opened = killed @ rest"
    using terminate_all_prefix [OF *(8)] by blast
  have "list_all (stale_copy S own) opened" "map vp_pid opened = filter (\<lambda>p. p \<noteq> getpid S) holders"
    using open_holders_ok [OF *(6)] by simp_all
  moreover have "\<forall>p \<in> set opened. vp_pid p \<in> set confirmed"
    using *(7) by (simp add: allPIDsStillHolding_def list_all_iff)
  ultimately show ?thesis
    by (rule that [OF *(1-5) _ _ _ *(8) rest])
qed

lemma both_enumerations:
  assumes "pidsHoldingAddr S 0 addr = Inr holders" "pidsHoldingAddr S 1 addr = Inr confirmed"
  obtains host portText ip port where "SplitHostPort addr = Some (host, portText)" "ParseIP (Trim host ''[]'') = Some ip"
    "IsLoopback ip" "Atoi portText = Some port" "\<forall>p. p \<in> set holders \<longleftrightarrow> owner_row S 0 ip port p"
    "\<forall>p. p \<in> set confirmed \<longleftrightarrow> owner_row S 1 ip port p"
proof -
  from holding_exact [OF assms(1)] obtain host portText ip port where a: "SplitHostPort addr = Some (host, portText)"
    "ParseIP (Trim host ''[]'') = Some ip" "IsLoopback ip" "Atoi portText = Some port"
    "\<forall>p. p \<in> set holders \<longleftrightarrow> owner_row S 0 ip port p"
    by blast
  from holding_exact [OF assms(2)] obtain host' portText' ip' port' where b': "SplitHostPort addr = Some (host', portText')"
    "ParseIP (Trim host' ''[]'') = Some ip'" "Atoi portText' = Some port'" "\<forall>p. p \<in> set confirmed \<longleftrightarrow> owner_row S 1 ip' port' p"
    by blast
  from a(1) b'(1) have hp: "host' = host" "portText' = portText"
    by (simp_all only: option.inject prod.inject)
  from a(2,4) b'(2,3) have ip: "ip' = ip" "port' = port"
    unfolding hp by (simp_all only: option.inject)
  from a b'(4) [unfolded ip] show thesis
    by (rule that)
qed

text \<open>
  C20. Only stale copies of the bridge are terminated.  A process that \<open>reclaimPort\<close> terminates is not the bridge
  itself, was opened under the identifier found, runs the very executable of this bridge through that same
  handle, and owned the exact loopback address both before and after it was checked.  If any
  other holder could not be opened, or runs anything else, nothing at all is terminated.
\<close>

theorem only_stale_copies_are_terminated:
  assumes reclaim: "reclaimPort S addr = (killed, err)" and p: "p \<in> set killed"
  shows "vp_pid p \<noteq> getpid S \<and> open_process S (vp_pid p) = Some (vp_handle p) \<and>
    (\<exists>self own holders confirmed host portText ip port.
       current_process S = Some self \<and> queryProcessImagePath S self = Some own \<and>
       queryProcessImagePath S (vp_handle p) = Some (vp_path p) \<and> sameCanonicalExecutable S own (vp_path p) \<and>
       pidsHoldingAddr S 0 addr = Inr holders \<and> pidsHoldingAddr S 1 addr = Inr confirmed \<and>
       SplitHostPort addr = Some (host, portText) \<and> ParseIP (Trim host ''[]'') = Some ip \<and> IsLoopback ip \<and>
       Atoi portText = Some port \<and> owner_row S 0 ip port (vp_pid p) \<and> owner_row S 1 ip port (vp_pid p) \<and>
       (\<forall>q \<in> set holders. q = getpid S \<or> (\<exists>h path. open_process S q = Some h \<and>
          queryProcessImagePath S h = Some path \<and> sameCanonicalExecutable S own path)))"
proof -
  from p have "killed \<noteq> [] \<or> err = None" by auto
  from reclaim this obtain self own holders opened confirmed rest where r:
    "current_process S = Some self" "queryProcessImagePath S self = Some own"
    "pidsHoldingAddr S 0 addr = Inr holders" "pidsHoldingAddr S 1 addr = Inr confirmed" "opened \<noteq> []"
    "list_all (stale_copy S own) opened" "map vp_pid opened = filter (\<lambda>p. p \<noteq> getpid S) holders"
    "\<forall>p \<in> set opened. vp_pid p \<in> set confirmed" "terminate_all S opened = (killed, err)" "opened = killed @ rest"
    by (rule reclaim_verified)
  from p r(10) have o: "p \<in> set opened" by simp
  with r(6) have stale: "stale_copy S own p"
    by (simp add: list_all_iff)
  have ids: "vp_pid ` set opened = {q \<in> set holders. q \<noteq> getpid S}"
    using arg_cong [OF r(7), of set] by simp
  have "vp_pid p \<in> vp_pid ` set opened"
    using o by (rule imageI)
  then have h: "vp_pid p \<in> set holders"
    by (simp add: ids)
  obtain host portText ip port where a: "SplitHostPort addr = Some (host, portText)" "ParseIP (Trim host ''[]'') = Some ip"
    "IsLoopback ip" "Atoi portText = Some port" "\<forall>p. p \<in> set holders \<longleftrightarrow> owner_row S 0 ip port p"
    and b: "\<forall>p. p \<in> set confirmed \<longleftrightarrow> owner_row S 1 ip port p"
    by (rule both_enumerations [OF r(3,4)])
  have "\<exists>h path. open_process S q = Some h \<and> queryProcessImagePath S h = Some path \<and> sameCanonicalExecutable S own path"
    if "q \<in> set holders" "q \<noteq> getpid S" for q
  proof -
    from that have "q \<in> vp_pid ` set opened"
      by (simp add: ids)
    then obtain x where x: "q = vp_pid x" "x \<in> set opened"
      by (rule imageE)
    with r(6) have "stale_copy S own x"
      by (simp add: list_all_iff)
    then show ?thesis
      unfolding x(1) stale_copy_def by (elim conjE) (intro exI conjI, assumption+)
  qed
  then have all: "\<forall>q \<in> set holders. q = getpid S \<or> (\<exists>h path. open_process S q = Some h \<and>
      queryProcessImagePath S h = Some path \<and> sameCanonicalExecutable S own path)"
    by blast
  have rows: "owner_row S 0 ip port (vp_pid p)" "owner_row S 1 ip port (vp_pid p)"
    using a(5) b h r(8) o by simp_all
  note s' = stale [unfolded stale_copy_def]
  note s = s' [THEN conjunct1] s' [THEN conjunct2, THEN conjunct1] s' [THEN conjunct2, THEN conjunct2, THEN conjunct1]
    s' [THEN conjunct2, THEN conjunct2, THEN conjunct2]
  show ?thesis
    by (intro conjI exI) (rule s r(1-4) a(1-4) rows all)+
qed

text \<open>A success means that every other holder of the address was terminated and has ended.\<close>

lemma success_ended_every_holder:
  assumes "reclaimPort S addr = (killed, None)"
  shows "\<exists>holders. pidsHoldingAddr S 0 addr = Inr holders \<and> killed \<noteq> [] \<and>
    map vp_pid killed = filter (\<lambda>p. p \<noteq> getpid S) holders \<and>
    list_all (\<lambda>p. terminate_process S (vp_handle p) \<and> wait_process S (vp_handle p) = Some 0) killed"
proof -
  obtain self own holders opened confirmed rest where r:
    "current_process S = Some self" "queryProcessImagePath S self = Some own"
    "pidsHoldingAddr S 0 addr = Inr holders" "pidsHoldingAddr S 1 addr = Inr confirmed" "opened \<noteq> []"
    "list_all (stale_copy S own) opened" "map vp_pid opened = filter (\<lambda>p. p \<noteq> getpid S) holders"
    "\<forall>p \<in> set opened. vp_pid p \<in> set confirmed" "terminate_all S opened = (killed, None)" "opened = killed @ rest"
    by (rule reclaim_verified [OF assms]) simp
  from terminate_all_prefix [OF r(9)] r(3,5,7) show ?thesis
    by auto
qed

text \<open>One stale bridge with process identifier 77 listens on the address of this one.\<close>

definition demo_table :: "byte list" where
  "demo_table = [1, 0, 0, 0] @ [2, 0, 0, 0] @ [127, 0, 0, 1] @ [0x49, 0xD4, 0, 0] @ [0, 0, 0, 0] @ [0, 0, 0, 0] @ [77, 0, 0, 0]"

definition demo_os :: win_os where
  "demo_os = \<lparr>getpid = 5, current_process = Some 0, open_process = (\<lambda>p. if p = 77 then Some 9 else None),
     image_name = (\<lambda>h sz. ImageName ''bridge''), tcp_size = (\<lambda>k f. (122, 28)),
     tcp_fill = (\<lambda>k f sz. (0, 28, demo_table)), terminate_process = (\<lambda>h. True), wait_process = (\<lambda>h. Some 0),
     path_clean = (\<lambda>s. s), path_is_abs = (\<lambda>s. True), equal_fold = (=)\<rparr>"

lemma demo_rows: "scan_rows (\<lambda>i. row4 demo_table (4 + i * 24)) [127, 0, 0, 1] 18900 [0] = Some [77]"
  by (simp add: row4_def uint32_at_def demo_table_def networkPort_def IP_Equal_def v4InV6Prefix_def)

lemma demo_holders: "pidsHoldingAddr demo_os k ''127.0.0.1:18900'' = Inr [77]"
proof -
  have t: "tcpTable demo_os k 2 = Inr demo_table"
    by (simp add: tcpTable_def demo_os_def demo_table_def)
  have "pids_from 24 row4 [127, 0, 0, 1] 18900 demo_table = Inr [77]"
    using demo_rows by (simp add: pids_from_def uint32_at_def) (simp add: demo_table_def sortedPIDs_def)
  then show ?thesis
    by (simp add: pidsHoldingAddr_def pidsFromTCP4Table_def t text_eval IsLoopback_def)
qed

lemma demo_path: "queryProcessImagePath demo_os h = Some ''bridge''"
proof -
  have "TrimSpace ''bridge'' = ''bridge''"
    by (rule TrimSpace_graphic) (simp_all add: graphic_def)
  then show ?thesis
    by (simp add: queryProcessImagePath_def normalizeProcessImagePath_def demo_os_def upt_conv_Cons verbatim_prefix_def HasPrefix_def)
qed

lemma demo_same: "sameCanonicalExecutable demo_os ''bridge'' ''bridge''"
  by (simp add: sameCanonicalExecutable_def demo_os_def)

definition demo_stale :: verifiedProcess where
  "demo_stale = \<lparr>vp_pid = 77, vp_handle = 9, vp_path = ''bridge''\<rparr>"

lemma demo_reclaim: "reclaimPort demo_os ''127.0.0.1:18900'' = ([demo_stale], None)"
proof -
  have c: "current_process demo_os = Some 0" "getpid demo_os = 5" "open_process demo_os 77 = Some 9"
    "terminate_process demo_os h" "wait_process demo_os h = Some 0" for h
    by (simp_all add: demo_os_def)
  have o: "open_holders demo_os ''bridge'' [77] [] = Inr [demo_stale]"
    by (simp add: c demo_path demo_same demo_stale_def)
  show ?thesis
    by (simp add: reclaimPort_def demo_holders demo_path demo_same o c allPIDsStillHolding_def) (simp add: demo_stale_def)
qed

theorem only_stale_copies_are_terminated_witness:
  "vp_pid demo_stale \<noteq> getpid demo_os \<and> open_process demo_os (vp_pid demo_stale) = Some (vp_handle demo_stale)"
  using only_stale_copies_are_terminated [OF demo_reclaim, of demo_stale] by simp

end
