(* ===== verification/Clients.thy ===== *)
theory Clients
  imports Proto Messages
begin

text \<open>
  The reference clients (\<open>cmd/testclient\<close>, \<open>cmd/audiotest\<close>): their own audio frame code, which
  \<open>internal/proto\<close> must agree with, the exchange that gets a client into a room, and the verdict of the
  audio test.
\<close>

declare map_of_eq_Some_iff [simp del]
declare Some_eq_map_of_iff [simp del]

section \<open>Frames\<close>

text \<open>\<open>makeAudioFrame\<close> of the test client: a zero payload, at most 8192 bytes of it.\<close>

definition makeAudioFrame :: "uuid \<Rightarrow> u16 \<Rightarrow> nat \<Rightarrow> byte list" where
  "makeAudioFrame sourcePeerID seq samples =
     (let payloadLen = (if samples * 2 * 4 > 8192 then 8192 else samples * 2 * 4);
          buf = replicate (24 + payloadLen) 0;
          buf = buf[0 := 0xA1];
          buf = copy_range 4 20 (bytes_of sourcePeerID) buf;
          buf = put_uint16 20 seq buf
      in put_uint16 22 (of_nat payloadLen) buf)"

record recvFrame =
  sourcePeer :: uuid
  recv_seq :: u16
  recv_payload :: "byte list"

definition parseAudioFrame :: "byte list \<Rightarrow> recvFrame option" where
  "parseAudioFrame data =
     (if length data < 24 \<or> data ! 0 \<noteq> 0xA1 then None
      else
        let n = unat (uint16_at 22 data)
        in if 24 + n > length data then None
           else Some \<lparr>sourcePeer = of_bytes (subslice 4 20 data), recv_seq = uint16_at 20 data,
                  recv_payload = subslice 24 (24 + n) data\<rparr>)"

definition packAudioFrame :: "uuid \<Rightarrow> u16 \<Rightarrow> byte list \<Rightarrow> byte list" where
  "packAudioFrame source seq payload =
     (let buf = replicate (24 + length payload) 0;
          buf = buf[0 := 0xA1];
          buf = copy_range 4 20 (bytes_of source) buf;
          buf = put_uint16 20 seq buf;
          buf = put_uint16 22 (of_nat (length payload)) buf
      in copy_range 24 (24 + length payload) payload buf)"

definition bytesEqual :: "byte list \<Rightarrow> byte list \<Rightarrow> bool" where
  "bytesEqual a b \<longleftrightarrow> length a = length b \<and> (\<forall>i < length a. a ! i = b ! i)"

lemma bytesEqual_iff: "bytesEqual a b \<longleftrightarrow> a = b"
  by (auto simp: bytesEqual_def intro: nth_equalityI)

text \<open>A preview shows at most \<open>max\<close> bytes, and says when it leaves some out.\<close>

definition prettyDataPreview :: "string \<Rightarrow> nat \<Rightarrow> string" where
  "prettyDataPreview b limit = (if length b \<le> limit then b else take limit b @ ''...(truncated)'')"

section \<open>Entering a room\<close>

text \<open>
  After \<open>room_create\<close> the client reads on: it joins when the name is taken, skips what other peers do, and
  stops at the first \<open>room_joined\<close>.  A read that fails, another error and any other message end
  the program.  The result is the number of joins sent and whether the client is in the room.
\<close>

datatype reply = Reply server_type | ErrorReply string | ReadFailed

fun enter_room :: "reply list \<Rightarrow> nat \<Rightarrow> nat \<times> bool" where
  "enter_room [] joins = (joins, False)"
| "enter_room (r # rs) joins =
     (case r of
        Reply TypeRoomJoined \<Rightarrow> (joins, True)
      | ErrorReply errcode \<Rightarrow> if errcode = code_text RoomNameTaken then enter_room rs (Suc joins) else (joins, False)
      | Reply TypePeerJoined \<Rightarrow> enter_room rs joins
      | Reply TypePeerLeft \<Rightarrow> enter_room rs joins
      | Reply TypeRoomListDelta \<Rightarrow> enter_room rs joins
      | _ \<Rightarrow> (joins, False))"

text \<open>
  A session of the test client, as what it sends: \<open>first\<close> is the reply to its hello, \<open>peerId\<close> the parsed
  identifier of the welcome.  False is \<open>fail\<close>.
\<close>

datatype client_send = SendHello | SendCreate | SendJoin | SendAudio "byte list" | SendLeave

definition testclient_session :: "reply \<Rightarrow> uuid option \<Rightarrow> reply list \<Rightarrow> nat \<Rightarrow> client_send list \<times> bool" where
  "testclient_session first peerId replies frames =
     (if first \<noteq> Reply TypeWelcome then ([SendHello], False)
      else case peerId of
          None \<Rightarrow> ([SendHello], False)
        | Some pid \<Rightarrow>
            (case enter_room replies 0 of
               (joins, False) \<Rightarrow> ([SendHello, SendCreate] @ replicate joins SendJoin, False)
             | (joins, True) \<Rightarrow>
                 ([SendHello, SendCreate] @ replicate joins SendJoin @
                  map (\<lambda>i. SendAudio (makeAudioFrame pid (of_nat (i + 1)) 480)) [0..<frames] @ [SendLeave], True)))"

section \<open>The verdict of the audio test\<close>

type_synonym sentFrame = "u16 \<times> byte list"

text \<open>\<open>recvMap\<close>: the last frame received from the sender under each sequence number.\<close>

definition recvMap :: "uuid \<Rightarrow> recvFrame list \<Rightarrow> (u16 \<times> recvFrame) list" where
  "recvMap sendPeerID received =
     fold (\<lambda>rf m. if sourcePeer rf = sendPeerID then AList.update (recv_seq rf) rf m else m) received []"

record tally =
  ok_frames :: nat
  missing :: nat
  mismatched :: nat

fun tally_frames :: "(u16 \<times> recvFrame) list \<Rightarrow> sentFrame list \<Rightarrow> tally \<Rightarrow> tally" where
  "tally_frames m [] t = t"
| "tally_frames m ((sq, payload) # rest) t =
     tally_frames m rest
       (case map_of m sq of
          None \<Rightarrow> t\<lparr>missing := Suc (missing t)\<rparr>
        | Some rf \<Rightarrow>
            if length (recv_payload rf) \<noteq> length payload \<or> \<not> bytesEqual (recv_payload rf) payload
            then t\<lparr>mismatched := Suc (mismatched t)\<rparr>
            else t\<lparr>ok_frames := Suc (ok_frames t)\<rparr>)"

definition audiotest_exit :: "uuid \<Rightarrow> sentFrame list \<Rightarrow> recvFrame list \<Rightarrow> int" where
  "audiotest_exit sendPeerID sent received =
     (let t = tally_frames (recvMap sendPeerID received) sent \<lparr>ok_frames = 0, missing = 0, mismatched = 0\<rparr>
      in if missing t > length sent div 20 \<or> mismatched t > 0 then 1 else 0)"

section \<open>The clients' frames are the protocol's\<close>

lemma client_header:
  "put_uint16 22 l (put_uint16 20 sq (copy_range 4 20 (bytes_of (pid :: uuid)) ((replicate (24 + n) 0)[0 := 0xA1]))) =
     audio_layout pid sq l (replicate n 0)"
proof -
  let ?t = "[0xA1, 0, 0, 0] :: byte list" and ?p = "bytes_of pid" and ?z = "replicate n (0 :: byte)"
  let ?s = "[ucast sq, ucast (drop_bit 8 sq)] :: byte list"
  have 1: "(replicate (24 + n) (0 :: byte))[0 := 0xA1] = ?t @ replicate 16 0 @ [0, 0, 0, 0] @ ?z"
    by (simp add: eval_nat_numeral)
  have 2: "copy_range 4 20 ?p (?t @ replicate 16 0 @ [0, 0, 0, 0] @ ?z) = ?t @ ?p @ [0, 0, 0, 0] @ ?z"
    by (rule copy_range_exact) simp_all
  have 3: "put_uint16 20 sq (?t @ ?p @ [0, 0, 0, 0] @ ?z) = ?t @ ?p @ ?s @ [0, 0] @ ?z"
    using put_uint16_exact [of "?t @ ?p" 20] by simp
  have 4: "put_uint16 22 l (?t @ ?p @ ?s @ [0, 0] @ ?z) = (?t @ ?p @ ?s @ [ucast l, ucast (drop_bit 8 l)]) @ ?z"
    using put_uint16_exact [of "?t @ ?p @ ?s" 22 l 0 0 ?z] by simp
  show ?thesis
    unfolding 1 2 3 4 by (simp add: audio_layout_def AudioFrameType_def)
qed

lemma packAudioFrame_layout: "packAudioFrame pid sq payload = audio_layout pid sq (of_nat (length payload)) payload"
proof -
  let ?l = "of_nat (length payload) :: u16"
  let ?h = "[AudioFrameType, 0, 0, 0] @ bytes_of pid @ [ucast sq, ucast (drop_bit 8 sq), ucast ?l, ucast (drop_bit 8 ?l)]"
  have "copy_range 24 (24 + length payload) payload (?h @ replicate (length payload) 0 @ []) = ?h @ payload @ []"
    by (rule copy_range_exact) simp_all
  then show ?thesis
    by (simp add: packAudioFrame_def client_header Let_def audio_layout_def)
qed

lemma makeAudioFrame_layout:
  "makeAudioFrame pid sq samples =
     audio_layout pid sq (of_nat (min (8 * samples) 8192)) (replicate (min (8 * samples) 8192) 0)"
proof -
  have "(if samples * 2 * 4 > 8192 then 8192 else samples * 2 * 4) = min (8 * samples) 8192"
    by simp
  then show ?thesis
    unfolding makeAudioFrame_def Let_def by (simp only: client_header)
qed

lemma parse_layout:
  assumes "length payload < 65536"
  shows "parseAudioFrame (audio_layout pid sq (of_nat (length payload)) payload @ rest) =
    Some \<lparr>sourcePeer = pid, recv_seq = sq, recv_payload = payload\<rparr>"
proof -
  let ?l = "of_nat (length payload) :: u16"
  let ?src = "audio_layout pid sq ?l payload"
  have l: "unat ?l = length payload"
    using assms by (simp add: unat_of_nat take_bit_nat_eq_self)
  have pid: "subslice 4 20 (?src @ rest) = bytes_of pid"
    using subslice_exact [of "[AudioFrameType, 0, 0, 0]" 4 20 "bytes_of pid"] by (simp add: audio_layout_def)
  have "subslice 24 (24 + length payload) (?src @ rest) = payload"
    by (simp add: audio_layout_def subslice_def)
  moreover have "uint16_at 20 (?src @ rest) = sq" "uint16_at 22 (?src @ rest) = ?l"
    using audio_layout_nth [of pid sq ?l payload] by (simp_all add: uint16_at_def nth_append length_audio_layout wire)
  moreover have "(?src @ rest) ! 0 = 0xA1"
    by (simp add: audio_layout_def AudioFrameType_def)
  ultimately show ?thesis
    by (simp add: parseAudioFrame_def Let_def l pid length_audio_layout)
qed

text \<open>A client reads every frame the server's codec accepts, and reads the same from it.\<close>

lemma parse_accepts:
  assumes "Unpack data = Inr (h, payload)"
  shows "parseAudioFrame data = Some \<lparr>sourcePeer = SourcePeerID h, recv_seq = Seq h, recv_payload = payload\<rparr>"
  using assms
  by (auto simp: Unpack_def parseAudioFrame_def Let_def audio_sizes subslice_def split: if_splits)

lemma make_accepted:
  "Unpack (makeAudioFrame pid sq samples) =
     Inr (\<lparr>SourcePeerID = pid, Seq = sq, Length = of_nat (min (8 * samples) 8192)\<rparr>, replicate (min (8 * samples) 8192) 0)"
  using Unpack_layout [of "replicate (min (8 * samples) 8192) 0" pid sq] by (simp add: makeAudioFrame_layout MaxAudioPayload_def)

text \<open>Every audio message of a test client's session is a frame of its own that the server's codec accepts.\<close>

lemma session_frames_accepted:
  assumes "SendAudio b \<in> set (fst (testclient_session first peerId replies frames))"
  shows "\<exists>pid h payload. peerId = Some pid \<and> Unpack b = Inr (h, payload) \<and> SourcePeerID h = pid"
  using assms make_accepted
  by (auto simp: testclient_session_def split: if_splits option.splits prod.splits bool.splits)

text \<open>
  The reference clients speak the protocol.  What the audio test packs is what \<open>internal/proto\<close>
  packs, byte for byte; the test client's frames pass the server's \<open>Unpack\<close> for every sample count; and
  a client parses a frame to the fields it was packed from, and every frame \<open>Unpack\<close> accepts to the same
  fields.
\<close>

lemma client_frames_agree:
  "(length payload \<le> MaxAudioPayload \<longrightarrow>
      Pack \<lparr>SourcePeerID = pid, Seq = sq, Length = l\<rparr> payload dst = Inr (packAudioFrame pid sq payload) \<and>
      Unpack (packAudioFrame pid sq payload) = Inr (\<lparr>SourcePeerID = pid, Seq = sq, Length = of_nat (length payload)\<rparr>, payload)) \<and>
   (\<exists>n. n \<le> MaxAudioPayload \<and>
      Unpack (makeAudioFrame pid sq samples) = Inr (\<lparr>SourcePeerID = pid, Seq = sq, Length = of_nat n\<rparr>, replicate n 0)) \<and>
   (length payload < 65536 \<longrightarrow>
      parseAudioFrame (packAudioFrame pid sq payload) = Some \<lparr>sourcePeer = pid, recv_seq = sq, recv_payload = payload\<rparr>) \<and>
   (case Unpack data of
      Inl _ \<Rightarrow> True
    | Inr (h, body) \<Rightarrow> parseAudioFrame data = Some \<lparr>sourcePeer = SourcePeerID h, recv_seq = Seq h, recv_payload = body\<rparr>)"
proof (intro conjI impI)
  assume small: "length payload \<le> MaxAudioPayload"
  show "Pack \<lparr>SourcePeerID = pid, Seq = sq, Length = l\<rparr> payload dst = Inr (packAudioFrame pid sq payload)"
    using Pack_layout [OF small] by (simp add: packAudioFrame_layout)
  show "Unpack (packAudioFrame pid sq payload) = Inr (\<lparr>SourcePeerID = pid, Seq = sq, Length = of_nat (length payload)\<rparr>, payload)"
    using Unpack_layout [OF small] by (simp add: packAudioFrame_layout)
next
  let ?n = "min (8 * samples) 8192"
  show "\<exists>n. n \<le> MaxAudioPayload \<and>
      Unpack (makeAudioFrame pid sq samples) = Inr (\<lparr>SourcePeerID = pid, Seq = sq, Length = of_nat n\<rparr>, replicate n 0)"
    by (intro exI [where x = ?n]) (simp add: make_accepted MaxAudioPayload_def)
next
  assume "length payload < 65536"
  with parse_layout [of payload pid sq "[]"]
  show "parseAudioFrame (packAudioFrame pid sq payload) = Some \<lparr>sourcePeer = pid, recv_seq = sq, recv_payload = payload\<rparr>"
    by (simp add: packAudioFrame_layout)
next
  show "case Unpack data of Inl _ \<Rightarrow> True
      | Inr (h, body) \<Rightarrow> parseAudioFrame data = Some \<lparr>sourcePeer = SourcePeerID h, recv_seq = Seq h, recv_payload = body\<rparr>"
    using parse_accepts [of data] by (auto split: sum.splits)
qed

lemma client_frames_agree_instance:
  "parseAudioFrame (packAudioFrame (of_bytes [1]) 7 [3, 4]) = Some \<lparr>sourcePeer = of_bytes [1], recv_seq = 7, recv_payload = [3, 4]\<rparr>"
  using client_frames_agree [of "[3, 4]" "of_bytes [1]" 7 0 "[]" 480 "[]"] by simp

section \<open>The exchange and the verdict\<close>

text \<open>The client is in the room as soon as one reply says so, and a taken name is answered by a join.\<close>

lemma enters_after_taken_name:
  "enter_room [Reply TypePeerJoined, ErrorReply (code_text RoomNameTaken), Reply TypeRoomListDelta, Reply TypeRoomJoined] 0 = (1, True)"
  by simp

lemma tally_total:
  "let t' = tally_frames m sent t in ok_frames t' + missing t' + mismatched t' = ok_frames t + missing t + mismatched t + length sent"
  by (induction m sent t rule: tally_frames.induct) (auto simp: Let_def split: option.splits)

lemma tally_counts:
  "missing (tally_frames m sent t) = missing t + length (filter (\<lambda>(sq, _). map_of m sq = None) sent) \<and>
   mismatched (tally_frames m sent t) = mismatched t +
     length (filter (\<lambda>(sq, payload). \<exists>rf. map_of m sq = Some rf \<and> recv_payload rf \<noteq> payload) sent)"
  by (induction m sent t rule: tally_frames.induct) (auto simp: bytesEqual_iff split: option.splits)

text \<open>
  The verdict of the audio test is sound.  It succeeds exactly when at most one frame in twenty
  is missing and every frame that arrived under a sent sequence number, from the sender, is byte for
  byte what was sent; and every sent frame is counted once.
\<close>

lemma audiotest_verdict_is_sound:
  "(audiotest_exit pid sent received = 0 \<longleftrightarrow>
      length (filter (\<lambda>(sq, _). map_of (recvMap pid received) sq = None) sent) \<le> length sent div 20 \<and>
      (\<nexists>sq payload rf. (sq, payload) \<in> set sent \<and> map_of (recvMap pid received) sq = Some rf \<and> recv_payload rf \<noteq> payload)) \<and>
   audiotest_exit pid sent received \<in> {0, 1} \<and>
   (let t = tally_frames (recvMap pid received) sent \<lparr>ok_frames = 0, missing = 0, mismatched = 0\<rparr>
    in ok_frames t + missing t + mismatched t = length sent)"
proof -
  let ?m = "recvMap pid received" and ?t = "\<lparr>ok_frames = 0, missing = 0, mismatched = 0\<rparr>"
  have "mismatched (tally_frames ?m sent ?t) = 0 \<longleftrightarrow>
      (\<nexists>sq payload rf. (sq, payload) \<in> set sent \<and> map_of ?m sq = Some rf \<and> recv_payload rf \<noteq> payload)"
    using tally_counts [of ?m sent ?t] by (auto simp: filter_empty_conv)
  then show ?thesis
    using tally_counts [of ?m sent ?t] tally_total [of ?m sent ?t] by (auto simp: audiotest_exit_def Let_def)
qed

end
