(* ===== verification/Client_Run.thy ===== *)
theory Client_Run
  imports Clients Wire_Run Url
begin

text \<open>
  The programs \<open>cmd/testclient\<close> and \<open>cmd/audiotest\<close> on the messages of their connection: what they read,
  what they make of it with \<open>proto.Decode\<close>, and every message they send.  Flags, printing, pauses and the
  deadlines of reads are not modelled: a read that fails, for whatever reason, is \<open>None\<close>, and so is the
  end of the list.  A send is an attempt.
\<close>

declare map_of_eq_Some_iff [simp del]
declare Some_eq_map_of_iff [simp del]

section \<open>Reading\<close>

text \<open>A message read, text or binary.\<close>

type_synonym ws_read = "(bool \<times> byte list) option"

text \<open>\<open>env, _ := proto.Decode(body)\<close>: the envelope as far as it was filled, whether or not there was an error.\<close>

definition decoded :: "byte list \<Rightarrow> Envelope \<times> bool" where
  "decoded b =
     (let (env, ok) = unmarshal_struct envelope_fields \<lparr>Type = '''', V = 0, ID = '''', Data = []\<rparr> b
      in if \<not> ok \<or> Type env = '''' then (env, False)
         else (if V env = 0 then env\<lparr>V := 1\<rparr> else env, True))"

lemma decoded_Decode: "Decode go_json b = (if snd (decoded b) then Some (fst (decoded b)) else None)"
  by (auto simp: decoded_def Decode_def go_json_def checked_def Let_def split: prod.split)

definition readText :: "ws_read \<Rightarrow> Envelope option" where
  "readText m = (case m of Some (True, data) \<Rightarrow> Decode go_json data | _ \<Rightarrow> None)"

text \<open>The code of an error message.\<close>

definition error_code_read :: "byte list \<Rightarrow> string" where
  "error_code_read b =
     fst (fst (unmarshal_struct [(''code'', text_field apfst), (''message'', text_field apsnd)] ('''', '''') b))"

datatype drained = DrainText string string string | DrainBinary nat

fun drainLoop :: "ws_read list \<Rightarrow> drained list" where
  "drainLoop (Some (isText, data) # rest) =
     (if isText then (let env = fst (decoded data) in DrainText (Type env) (ID env) (prettyDataPreview (as_text data) 200))
      else DrainBinary (length data)) # drainLoop rest"
| "drainLoop _ = []"

section \<open>The audio test\<close>

text \<open>The loop after \<open>room_create\<close>; \<open>join\<close> is the message sent when the name is taken.\<close>

fun join_loop :: "byte list \<Rightarrow> ws_read list \<Rightarrow> byte list list \<times> bool" where
  "join_loop join (Some (_, body) # rest) =
     (let env = fst (decoded body) in
      if Type env = server_text TypeRoomJoined then ([], True)
      else if Type env = server_text TypeError then
        (if error_code_read (Data env) = code_text RoomNameTaken
         then (let (sent, ok) = join_loop join rest in (join # sent, ok)) else ([], False))
      else if Type env \<in> {server_text TypePeerJoined, server_text TypePeerLeft, server_text TypeRoomListDelta}
        then join_loop join rest
      else ([], False))"
| "join_loop join _ = ([], False)"

definition encoded :: "client_type \<Rightarrow> string \<Rightarrow> client_payload \<Rightarrow> byte list" where
  "encoded ty i p = (case Encode_client ty i p of None \<Rightarrow> [] | Some b \<Rightarrow> b)"

text \<open>\<open>dialAndJoin\<close> on an open connection: what it sends, and the identifier, or \<open>None\<close> when it fails.\<close>

definition dialAndJoin ::
  "string \<Rightarrow> (string \<Rightarrow> uuid option) \<Rightarrow> string \<Rightarrow> string \<Rightarrow> string \<Rightarrow> ws_read list \<Rightarrow> byte list list \<times> uuid option" where
  "dialAndJoin goos parse username room role reads =
     (let hello = encoded TypeHello ''h'' (HelloPayload \<lparr>hello_Username = username, hello_Client = ''audiotest/1.0'',
            hello_Platform = goos, hello_ServerPassword = ''''\<rparr>);
          create = encoded TypeRoomCreate ''c'' (CreatePayload \<lparr>create_RoomName = room, create_Visibility = ''public'',
            create_Password = ''''\<rparr>);
          join = encoded TypeRoomJoin ''j'' (JoinPayload \<lparr>join_RoomName = room, join_Password = '''', join_Role = role\<rparr>)
      in case reads of
           Some (True, body) # rest \<Rightarrow>
             let env = fst (decoded body) in
             if Type env \<noteq> server_text TypeWelcome then ([hello], None)
             else (case parse (welcome_PeerID (read_welcome (Data env))) of
                     None \<Rightarrow> ([hello], None)
                   | Some myID \<Rightarrow>
                       let (joins, ok) = join_loop join rest in (hello # create # joins, if ok then Some myID else None))
         | _ \<Rightarrow> ([hello], None))"

text \<open>The receiver: frames parsed from binary messages, as long as the channel of \<open>room\<close> places has room.\<close>

fun receive_loop :: "nat \<Rightarrow> ws_read list \<Rightarrow> recvFrame list" where
  "receive_loop places (Some (isText, data) # rest) =
     (if isText then receive_loop places rest
      else case parseAudioFrame data of
          None \<Rightarrow> receive_loop places rest
        | Some rf \<Rightarrow> if places = 0 then receive_loop 0 rest else rf # receive_loop (places - 1) rest)"
| "receive_loop places _ = []"

text \<open>What the sender pushes; \<open>makeSinePayload\<close> is floating-point, and a parameter.\<close>

definition sent_frames :: "(u16 \<Rightarrow> byte list) \<Rightarrow> nat \<Rightarrow> sentFrame list" where
  "sent_frames makeSinePayload frames = map (\<lambda>i. (of_nat (i + 1), makeSinePayload (of_nat (i + 1)))) [0..<frames]"

definition sent_bodies :: "uuid \<Rightarrow> sentFrame list \<Rightarrow> byte list list" where
  "sent_bodies pid = map (\<lambda>(sq, payload). packAudioFrame pid sq payload)"

text \<open>
  \<open>main\<close>: the receiver and the sender join, the sender pushes its frames, and the receiver's are
  compared; \<open>to_recv\<close> and \<open>to_send\<close> are what the two connections read.  The exit code, and what the sender
  sent.
\<close>

definition audiotest_main ::
  "string \<Rightarrow> (string \<Rightarrow> uuid option) \<Rightarrow> (u16 \<Rightarrow> byte list) \<Rightarrow> string \<Rightarrow> nat \<Rightarrow> ws_read list \<Rightarrow> ws_read list \<Rightarrow> ws_read list \<Rightarrow>
    int \<times> byte list list" where
  "audiotest_main goos parse makeSinePayload room frames recv_joins to_recv send_joins =
     (case dialAndJoin goos parse ''Recv'' room ''recv'' recv_joins of
        (_, None) \<Rightarrow> (1, [])
      | (_, Some _) \<Rightarrow>
          (case dialAndJoin goos parse ''Send'' room ''send'' send_joins of
             (_, None) \<Rightarrow> (1, [])
           | (_, Some sendPeerID) \<Rightarrow>
               let sent = sent_frames makeSinePayload frames
               in (audiotest_exit sendPeerID sent (receive_loop (2 * frames) to_recv), sent_bodies sendPeerID sent)))"

section \<open>The test client\<close>

definition testclient_url_ok :: "string \<Rightarrow> bool" where
  "testclient_url_ok raw = (case Parse raw of None \<Rightarrow> False | Some u \<Rightarrow> Scheme u = ''ws'' \<or> Scheme u = ''wss'')"

text \<open>A read of \<open>readText\<close> as the session of theory Clients sees it; another type ends the session like a failed read.\<close>

definition reply_of :: "Envelope option \<Rightarrow> reply" where
  "reply_of r =
     (case r of
        None \<Rightarrow> ReadFailed
      | Some env \<Rightarrow>
          if Type env = server_text TypeError then ErrorReply (error_code_read (Data env))
          else (case find (\<lambda>ty. Type env = server_text ty) [TypeWelcome, TypeRoomJoined, TypePeerJoined, TypePeerLeft, TypeRoomListDelta] of
                  None \<Rightarrow> ReadFailed
                | Some ty \<Rightarrow> Reply ty))"

text \<open>The message of a send: text or binary.\<close>

primrec sent_message ::
  "string \<Rightarrow> string \<Rightarrow> string \<Rightarrow> string \<Rightarrow> string \<Rightarrow> string \<Rightarrow> client_send \<Rightarrow> bool \<times> byte list" where
  "sent_message platform username room role password visibility SendHello =
     (True, encoded TypeHello ''hello-1'' (HelloPayload \<lparr>hello_Username = username, hello_Client = ''testclient/1.0'',
        hello_Platform = platform, hello_ServerPassword = ''''\<rparr>))"
| "sent_message platform username room role password visibility SendCreate =
     (True, encoded TypeRoomCreate ''create-1'' (CreatePayload \<lparr>create_RoomName = room, create_Visibility = visibility,
        create_Password = password\<rparr>))"
| "sent_message platform username room role password visibility SendJoin =
     (True, encoded TypeRoomJoin ''join-1'' (JoinPayload \<lparr>join_RoomName = room, join_Password = password, join_Role = role\<rparr>))"
| "sent_message platform username room role password visibility (SendAudio b) = (False, b)"
| "sent_message platform username room role password visibility SendLeave = (True, encoded TypeRoomLeave ''leave-1'' Nothing)"

text \<open>\<open>main\<close> on an open connection: the messages sent, and whether the client got to the end.\<close>

definition testclient_main ::
  "string \<Rightarrow> (string \<Rightarrow> uuid option) \<Rightarrow> string \<Rightarrow> string \<Rightarrow> string \<Rightarrow> string \<Rightarrow> string \<Rightarrow> nat \<Rightarrow> string \<Rightarrow> ws_read list \<Rightarrow>
    (bool \<times> byte list) list \<times> bool" where
  "testclient_main platform parse username room role password visibility frames serverURL reads =
     (if \<not> testclient_url_ok serverURL then ([], False)
      else
        let envs = map readText reads;
            welcome = (case envs of [] \<Rightarrow> None | e # _ \<Rightarrow> e);
            peerId = (case welcome of None \<Rightarrow> None | Some env \<Rightarrow> parse (welcome_PeerID (read_welcome (Data env))));
            (sends, ok) = testclient_session (reply_of welcome) peerId (map reply_of (tl envs)) frames
        in (map (sent_message platform username room role password visibility) sends, ok))"

section \<open>What the clients send is understood\<close>

lemma encoded_message: "encoded ty i p = message (client_text ty) i (client_json p)"
  using marshal_message [OF client_sendable, of "client_text ty" i p] by (simp add: encoded_def Encode_client_def)

lemma enter_room_count: "enter_room rs (Suc k) = (case enter_room rs k of (n, ok) \<Rightarrow> (Suc n, ok))"
proof (induction rs arbitrary: k)
  case (Cons r rs)
  show ?case
  proof (cases r)
    case (Reply ty)
    with Cons [of k] show ?thesis
      by (cases ty) simp_all
  next
    case (ErrorReply x)
    with Cons [of "Suc k"] show ?thesis by simp
  qed simp
qed simp

text \<open>The loop of the audio test is the exchange of theory Clients, on texts.\<close>

definition audio_reply :: "ws_read \<Rightarrow> reply" where
  "audio_reply m = (case m of None \<Rightarrow> ReadFailed | Some (_, body) \<Rightarrow> reply_of (Some (fst (decoded body))))"

lemma audio_reply_cases:
  "audio_reply (Some (isText, body)) =
     (let env = fst (decoded body) in
      if Type env = ''room_joined'' then Reply TypeRoomJoined
      else if Type env = ''error'' then ErrorReply (error_code_read (Data env))
      else if Type env = ''peer_joined'' then Reply TypePeerJoined
      else if Type env = ''peer_left'' then Reply TypePeerLeft
      else if Type env = ''room_list_delta'' then Reply TypeRoomListDelta
      else if Type env = ''welcome'' then Reply TypeWelcome
      else ReadFailed)"
  by (simp add: audio_reply_def reply_of_def Let_def)

lemma join_loop_enters:
  "join_loop join reads = (case enter_room (map audio_reply reads) 0 of (n, ok) \<Rightarrow> (replicate n join, ok))"
proof (induction reads)
  case (Cons m reads)
  show ?case
  proof (cases m)
    case (Some x)
    obtain isText body where x: "x = (isText, body)"
      by (cases x)
    have "code_text RoomNameTaken = ''ROOM_NAME_TAKEN''"
      by simp
    then show ?thesis
      unfolding Some x join_loop.simps Cons Let_def list.map audio_reply_cases
      by (simp add: enter_room_count split: prod.split)
  qed (simp add: audio_reply_def)
qed simp


text \<open>A session of the test client, message by message: what the server decodes from each text.\<close>

definition understood :: "string \<Rightarrow> string \<Rightarrow> string \<Rightarrow> string \<Rightarrow> Envelope \<Rightarrow> bool" where
  "understood username room role password env \<longleftrightarrow>
     (Type env = ''hello'' \<and> (\<exists>d. un_hello go_json (Data env) = Some d \<and> hello_Username d = username)) \<or>
     (Type env = ''room_create'' \<and> (\<exists>d. un_create go_json (Data env) = Some d \<and> create_RoomName d = room \<and> create_Password d = password)) \<or>
     (Type env = ''room_join'' \<and> un_join go_json (Data env) =
        Some \<lparr>join_RoomName = room, join_Password = password, join_Role = role\<rparr>) \<or>
     Type env = ''room_leave''"

lemma encoded_arrives:
  assumes "valid_payload p"
  shows "\<exists>env. Decode go_json (encoded ty i p) = Some env \<and> Type env = client_text ty \<and> carries go_json p (Data env)"
  using read_message [OF client_sendable, of "client_text ty" i p] client_text_utf8 [of ty] payload_carried [OF assms]
  by (simp add: encoded_message)

lemma testclient_is_understood:
  assumes "list_all ValidUTF8 [platform, username, room, role, password, visibility]"
    and "(isText, b) \<in> set (fst (testclient_main platform parse username room role password visibility frames serverURL reads))"
  shows "if isText then \<exists>env. Decode go_json b = Some env \<and> understood username room role password env
    else \<exists>pid h payload. Unpack b = Inr (h, payload) \<and> SourcePeerID h = pid"
proof -
  let ?envs = "map readText reads"
  let ?greeting = "case ?envs of [] \<Rightarrow> None | e # _ \<Rightarrow> e"
  let ?session = "testclient_session (reply_of ?greeting) (case ?greeting of None \<Rightarrow> None | Some env \<Rightarrow>
    parse (welcome_PeerID (read_welcome (Data env)))) (map reply_of (tl ?envs)) frames"
  have "(isText, b) \<in> set (map (sent_message platform username room role password visibility) (fst ?session))"
    using assms(2) unfolding testclient_main_def Let_def case_prod_unfold by (cases "testclient_url_ok serverURL") simp_all
  then obtain x where x: "(isText, b) = sent_message platform username room role password visibility x" "x \<in> set (fst ?session)"
    unfolding set_map by (elim imageE)
  have a: "\<exists>pid h payload. Unpack a = Inr (h, payload) \<and> SourcePeerID h = pid" if "x = SendAudio a" for a
    using session_frames_accepted x(2) unfolding that by blast
  have v: "ValidUTF8 ''testclient/1.0''"
    by (simp add: ValidUTF8_def)
  show ?thesis
  proof (cases x)
    case SendHello
    then show ?thesis
      using x(1) assms(1) v encoded_arrives [of "HelloPayload \<lparr>hello_Username = username, hello_Client = ''testclient/1.0'',
        hello_Platform = platform, hello_ServerPassword = ''''\<rparr>" TypeHello "''hello-1''"] by (auto simp: understood_def)
  next
    case SendCreate
    then show ?thesis
      using x(1) assms(1) encoded_arrives [of "CreatePayload \<lparr>create_RoomName = room, create_Visibility = visibility,
        create_Password = password\<rparr>" TypeRoomCreate "''create-1''"] by (auto simp: understood_def)
  next
    case SendJoin
    then show ?thesis
      using x(1) assms(1) encoded_arrives [of "JoinPayload \<lparr>join_RoomName = room, join_Password = password, join_Role = role\<rparr>"
        TypeRoomJoin "''join-1''"] by (auto simp: understood_def)
  next
    case (SendAudio y)
    with x(1) a [OF SendAudio] show ?thesis by simp
  next
    case SendLeave
    then show ?thesis
      using x(1) encoded_arrives [of Nothing TypeRoomLeave "''leave-1''"] by (auto simp: understood_def)
  qed
qed

section \<open>The audio test succeeds when everything arrives\<close>

lemma recvMap_snoc: "recvMap pid (fs @ [rf]) =
    (if sourcePeer rf = pid then AList.update (recv_seq rf) rf (recvMap pid fs) else recvMap pid fs)"
  by (simp add: recvMap_def)

lemma recvMap_entry: "map_of (recvMap pid fs) sq = Some rf \<Longrightarrow> rf \<in> set fs \<and> sourcePeer rf = pid \<and> recv_seq rf = sq"
proof (induction fs rule: rev_induct)
  case (snoc x fs)
  then show ?case
    by (cases "sourcePeer x = pid \<and> recv_seq x = sq") (auto simp: recvMap_snoc go_map split: if_splits)
qed (simp add: recvMap_def)

lemma recvMap_hit: "rf \<in> set fs \<Longrightarrow> sourcePeer rf = pid \<Longrightarrow> map_of (recvMap pid fs) (recv_seq rf) \<noteq> None"
proof (induction fs rule: rev_induct)
  case (snoc x fs)
  then show ?case
    by (auto simp: recvMap_snoc go_map)
qed simp

lemma receive_loop_all:
  "None \<notin> set reads \<Longrightarrow> length reads \<le> places \<Longrightarrow>
    set (receive_loop places reads) = {rf. \<exists>data. Some (False, data) \<in> set reads \<and> parseAudioFrame data = Some rf}"
proof (induction places reads rule: receive_loop.induct)
  case (1 places isText data rest)
  then show ?case
    by (cases "parseAudioFrame data") auto
qed auto

lemma all_delivered:
  fixes pid :: uuid
  defines "frame \<equiv> \<lambda>mk i. \<lparr>sourcePeer = pid, recv_seq = of_nat (i + 1), recv_payload = mk (of_nat (i + 1))\<rparr>"
  assumes there: "\<forall>i < frames. frame mk i \<in> set received"
    and only: "\<forall>rf \<in> set received. sourcePeer rf = pid \<longrightarrow> (\<exists>i < frames. rf = frame mk i)"
  shows "audiotest_exit pid (sent_frames mk frames) received = 0"
proof -
  have sent: "(sq, payload) \<in> set (sent_frames mk frames) \<Longrightarrow> \<exists>i < frames. sq = of_nat (i + 1) \<and> payload = mk sq" for sq payload
    by (auto simp: sent_frames_def)
  have hit: "map_of (recvMap pid received) sq \<noteq> None" if "(sq, payload) \<in> set (sent_frames mk frames)" for sq payload
    using sent [OF that] there recvMap_hit [of _ received pid] by (force simp: frame_def)
  have same: "recv_payload rf = payload"
    if "(sq, payload) \<in> set (sent_frames mk frames)" "map_of (recvMap pid received) sq = Some rf" for sq payload rf
  proof -
    note e = recvMap_entry [OF that(2)] sent [OF that(1)]
    obtain j where "rf = frame mk j"
      using e(1) only by blast
    then have "recv_payload rf = mk (recv_seq rf)"
      by (simp add: frame_def)
    then show ?thesis
      using e by auto
  qed
  have "filter (\<lambda>(sq, _). map_of (recvMap pid received) sq = None) (sent_frames mk frames) = []"
    using hit by (auto simp: filter_empty_conv)
  with same audiotest_verdict_is_sound [of pid "sent_frames mk frames" received] show ?thesis
    by auto
qed

end
