(* ===== verification/Spec2Isabelle.thy ===== *)
theory Spec2Isabelle
  imports Config Client_Ip Proto Ratelimit Metrics Net Peers Lobby Lobby_Run Lobby_Spec Udp Udp_Run
    Write_Queue Messages Dispatch Dispatch_Run Dispatch_Spec Server_Main Service Server_Run
    Base64 Json Compact Wire Wire_Run Wire_Bridge End_To_End Health_Text Url Bridge_Start Bridge Bridge_Run Bridge_Relay
    Reclaim Clients Client_Run
begin

text \<open>
  network-ultra-server relays live audio between musicians in rooms of at most eight.  A client opens
  a WebSocket, says hello, creates or joins a room with JSON messages, and sends audio frames as
  binary messages or, after a handshake with a token, as UDP datagrams; the room's forwarder
  copies each frame to the other members.  This library models the server and proves what makes
  it correct.

  Parts, and where they are.

  \<^item> \<open>internal/proto\<close>: theory Proto, the binary frames byte for byte, and their limits; theory
    Messages, the control protocol.  Lemmas: round trips, exact acceptance, no frame of one kind
    read as another.
  \<^item> The text of the control protocol.  Json: \<open>encoding/json\<close> on texts, its scanner with the nesting
    limit, strings with every escape, and the writer; what is written is read back (\<open>parse_print\<close>).
    Compact: how a \<open>RawMessage\<close> is written.  Wire: the structs of \<open>internal/proto/messages.go\<close> field by
    field, as one decoder and encoder \<open>go_json\<close>, and that the clients' messages arrive.  Wire_Run: on
    that decoder an encoded hello is served and answered by the welcome.  Wire_Bridge: the same text
    through the bridge's \<open>map[string]any\<close>.  End_To_End: a plugin behind the bridge, from its hello on the
    WebSocket to its UDP binding at the server.  Health_Text: the bodies of the health endpoints.
  \<^item> \<open>internal/ratelimit\<close>: theory Ratelimit.  A call is one step under the mutex with the clock as an
    argument.  Refinement of abstract budgets, the bound on grants in any window, the bound on
    entries and recovery.
  \<^item> \<open>internal/metrics\<close>: theory Metrics, 64-bit counters that wrap, gauges, labelled families, the
    text exposition.
  \<^item> \<open>internal/room\<close>: theories Peers and Lobby hold peers, rooms and the registry in one state
    (\<open>lobby\<close>) with explicit references, one definition per critical section and per method.  Lobby_Run
    interleaves the critical sections of any number of goroutines and timers (\<open>lobby_step\<close>) and
    proves the invariant, and that the steps that need no client (\<open>housekeeping\<close>) remove every empty room;
    Lobby_Spec refines an abstract hall from names to capacity and members.
  \<^item> \<open>internal/udp\<close>: theories Net, Udp and Udp_Run.  A handler is one step on the \<open>world\<close>: lobby, UDP
    server, metrics and what was written to the sockets.  The server's maps are under its mutex in the
    source; what follows the unlock (replies, counters, and in \<open>handleAudio\<close> the mute check, the room and
    \<open>Forward\<close>) is in the same step here.  The fan-out of the forwarder is here, because it sends over
    both transports.  Service: \<open>Listen\<close>, the read loop and
    the sweep around those handlers, and \<open>Close\<close>, with every interleaving of them and the sessions
    (\<open>service_step\<close>); after a close nothing is sent and both loops end.
  \<^item> \<open>internal/config\<close> and \<open>internal/ws/client_ip.go\<close>: theories Config and Client_Ip over the text
    functions of Go's library in Strs (strings, strconv, UTF-8), Netip (net, net/netip), Base64
    (encoding/base64) and Url (net/url), which are modelled as far as the source uses them.
  \<^item> \<open>internal/ws/conn.go\<close>: theory Write_Queue, the channel of one connection with any number of
    senders, one channel operation per step.
  \<^item> \<open>internal/ws/dispatch.go\<close>: theory Dispatch, every handler as a function on \<open>ws_state\<close>; Dispatch_Run,
    the runs of the whole server (\<open>server_step\<close>: connections, hello, control, audio, hang-up,
    datagrams, forwarders, timers) and their invariant; Dispatch_Spec, the properties: the server
    refines Lobby_Run, members and sessions fit together, the server password, room entry, refusals,
    who hears of a request, genuine audio.
  \<^item> \<open>cmd/server/main.go\<close>, \<open>internal/ws/delta.go\<close>, \<open>internal/httpapi\<close>: theory Server_Main; theory
    Server_Run, the program from its flags to its exit code, and the composition: what the operator
    configured holds in every state the running server reaches.
  \<^item> \<open>cmd/bridge/main.go\<close>, the local relay between a plugin and the server.  Theory Bridge: the UDP proxy of
    one plugin connection, each datagram of its two loops a step (\<open>proxy_step\<close>), and what can ever be
    relayed; Bridge_Run: the proxy in front of the UDP server of Udp, from the plugin's hello to
    audio; Bridge_Relay: the origin gate, the WebSocket relays and the rewriting of the welcome;
    Bridge_Start: endpoint policy, opt-in reclaim, serving and exit codes.
  \<^item> \<open>cmd/bridge/reclaim_windows.go\<close>: theory Reclaim, from the bytes of the system's TCP tables to the
    termination of stale bridges.
  \<^item> \<open>cmd/testclient\<close>, \<open>cmd/audiotest\<close>: theory Clients, the clients' own frame code and their exchange;
    Client_Run, both programs on the texts of their connections: the server understands all they
    send, and the audio test succeeds when every frame arrives.

  Interfaces.  The locale \<open>machine\<close> of Prelude is a step relation that keeps an invariant; it is
  interpreted for the lobby and its housekeeping, the UDP world and its service, the write queue, the whole server and the bridge's UDP
  proxy, and every
  property of reachable states rests on it.  The locale \<open>hop_header\<close> of Client_Ip is what the two
  forwarding headers have in common: whatever a hop writes, plain or quoted, is read as the last link.  In Dispatch_Run every operation on the server is shown to be
  a run of the lobby's steps, so the invariants of Lobby_Run hold under it.

  How the code is represented.  Go maps are association lists with distinct keys, in the order the
  map happens to be walked; pointers are numbers into a heap of peers and of rooms; callbacks are
  kept as what they capture; time is an integer of nanoseconds that a step may advance; \<open>int\<close> is
  unbounded where the code only compares and counts, and counters and generations are 64-bit
  words.  \<open>uuid.New\<close>, the entropy source, and whether a socket accepts a write are arguments.

  Loops.  Every loop that ends is a structural recursion or has a termination proof; the one that may
  not, \<open>writeAudio\<close>, is a partial function, and exactly when it returns is proved.  Only the JSON parser
  takes fuel, one unit per nested call: twice the length of the text and one more, and \<open>fuel_enough\<close>
  shows that more never gives another result.

  Findings.  A control frame can overtake another, and \<open>writeAudio\<close> can spin on a queue full of
  control frames (Write_Queue).  Nothing subscribes to the delta broker, so room list deltas reach
  nobody.  The gauge of active rooms is not updated when a timer destroys a room.  A read error ends a
  direction of the bridge's UDP proxy for good (Bridge), a message cut short is relayed as a complete
  one (Bridge_Relay).  Behind proxies that append to \<open>X-Forwarded-For\<close> only, a client that sends a \<open>Forwarded\<close>
  header chooses its identity (Client_Ip).  The rewritten welcome
  does not keep unknown numbers verbatim (Wire_Bridge), and the checks on the upstream accept the unspecified address and a port
  without a host (Bridge, Bridge_Start).

  Not modelled.  The server's handlers take any JSON decoder and encoder as a parameter (\<open>json\<close>), so what is
  proved of them holds for every one; \<open>go_json\<close> is the one of the library.  How \<open>strconv\<close> reads and
  writes a \<open>float64\<close>, bcrypt, \<open>uuid.Parse\<close>, the Unicode lower-case and folding tables,
  TOML, the Windows system calls and \<open>path/filepath\<close> are parameters.  Handlers of the WebSocket
  layer are atomic in Dispatch_Run; what can happen between the critical sections of the room
  package is in Lobby_Run, and between channel operations in Write_Queue.  In the bridge a relay is
  given what its reader yields, and a socket write is an attempt.  Logging, TLS, the HTTP upgrade
  itself, the ping goroutine, process signals, binding a socket to see whether it is free, and the
  floating-point test tone are I/O or glue; scripts and unit files are not part of the programs.
\<close>

end
